(* ===== verification/Prelude.thy ===== *)
theory Prelude
  imports Main "HOL-Library.Word"
begin

unbundle bit_operations_syntax

section \<open>Prelude: machine integers, results, byte buffers\<close>

text \<open>
  What every component of the development shares: names for the integer types of the Rust
  source, the result type of fallible operations, the big-endian integer accessors the source
  applies to byte buffers (the documented \<open>put_u16/u32/u64\<close> and \<open>get_u16/u32/u64\<close>), slices of
  byte buffers with their panics, and list lemmas about overwriting part of a buffer.
  Integer arithmetic follows the release profile of the crate (\<open>src/Cargo.toml\<close> sets no
  \<open>overflow-checks\<close>): it wraps at the width of the type.
\<close>

subsection \<open>Integer types\<close>

type_synonym u8 = "8 word"
type_synonym u16 = "16 word"
type_synonym u32 = "32 word"
type_synonym u64 = "64 word"

text \<open>A signed 32-bit integer is a 32-bit word that is read with \<^const>\<open>sint\<close>.\<close>

type_synonym i32 = "32 word"

type_synonym bytes = "u8 list"

lemma unat_ucast_mod: "unat (ucast x :: 'b::len word) = unat x mod 2 ^ LENGTH('b)"
  by (simp add: unsigned_ucast_eq take_bit_eq_mod)

lemma ucast_of_nat_down:
  assumes "LENGTH('b) \<le> LENGTH('a)"
  shows "(ucast (of_nat n :: 'a::len word) :: 'b::len word) = of_nat n"
  using assms
  by (simp add: word_unat_eq_iff unat_ucast_mod unat_of_nat mod_mod_cancel le_imp_power_dvd)

lemma ucast_of_nat_up:
  assumes "n < 2 ^ LENGTH('a)"
  shows "(ucast (of_nat n :: 'a::len word) :: 'b::len word) = of_nat n"
  using assms by (simp add: word_unat_eq_iff unat_ucast_mod unat_of_nat)

lemma unat_of_nat_small: "n < 2 ^ LENGTH('a) \<Longrightarrow> unat (of_nat n :: 'a::len word) = n"
  by (simp add: unat_of_nat)

lemma unat_eq_of_natI: "x = of_nat n \<Longrightarrow> n < 2 ^ LENGTH('a) \<Longrightarrow> unat (x :: 'a::len word) = n"
  by (simp add: unat_of_nat)

lemma unat_less_power:
  "unat (a :: u8) < 256" "unat (b :: u16) < 65536" "unat (c :: u32) < 4294967296"
  "unat (d :: u64) < 18446744073709551616"
  using unsigned_less [of a] unsigned_less [of b] unsigned_less [of c] unsigned_less [of d]
  by simp_all

lemma sint_i32: "sint (x :: i32) = (uint x + 2 ^ 31) mod 2 ^ 32 - 2 ^ 31"
  using signed_take_bit_eq_take_bit_shift [of 31 "uint x"]
  by (simp add: sint_uint take_bit_eq_mod)

lemma uint_i32_range: "0 \<le> uint (x :: i32)" "uint x < 2 ^ 32"
  using uint_lt2p [of x] by simp_all

lemma sint_below_half:
  assumes "unat (x :: i32) < 2 ^ 31"
  shows "sint x = int (unat x)"
proof -
  have "uint x < 2 ^ 31"
    using iffD2 [OF of_nat_less_iff [where 'a = int] assms] by simp
  then have "(uint x + 2 ^ 31) mod 2 ^ 32 = uint x + 2 ^ 31"
    by (intro mod_pos_pos_trivial) (use uint_i32_range [of x] in simp_all)
  then show ?thesis
    by (simp add: sint_i32)
qed

lemma sint_above_half:
  assumes "2 ^ 31 \<le> unat (x :: i32)"
  shows "sint x = int (unat x) - 2 ^ 32"
proof -
  have "2 ^ 31 \<le> uint x"
    using iffD2 [OF of_nat_le_iff [where 'a = int] assms] by simp
  then have "(uint x - 2 ^ 31) mod 2 ^ 32 = uint x - 2 ^ 31"
    by (intro mod_pos_pos_trivial) (use uint_i32_range [of x] in simp_all)
  moreover have "(uint x + 2 ^ 31) mod 2 ^ 32 = (uint x - 2 ^ 31) mod 2 ^ 32"
    using mod_add_self2 [of "uint x - 2 ^ 31" "2 ^ 32"] by (simp add: add.commute)
  ultimately show ?thesis
    by (simp add: sint_i32)
qed

lemma sint_neg_iff: "sint (x :: i32) < 0 \<longleftrightarrow> 2 ^ 31 \<le> unat x"
  using sint_below_half [of x] sint_above_half [of x] uint_i32_range [of x]
  by (cases "unat x < 2 ^ 31") auto

named_theorems codec_simps \<open>encoders and decoders of byte buffers cancel\<close>
named_theorems size_simps \<open>lengths of encoded values\<close>

subsection \<open>Results\<close>

text \<open>
  A fallible operation returns \<open>Ok\<close>, \<open>Err\<close> or panics. An operation with state carries the
  state after it in both \<open>Ok\<close> and \<open>Err\<close>: what it changed before an early return stays changed.
\<close>

datatype ('a, 'e) result = Ok 'a | Err 'e | Panic

fun rbind :: "('a, 'e) result \<Rightarrow> ('a \<Rightarrow> ('b, 'e) result) \<Rightarrow> ('b, 'e) result" where
  "rbind (Ok x) f = f x"
| "rbind (Err e) f = Err e"
| "rbind Panic f = Panic"

fun map_err :: "('e \<Rightarrow> 'f) \<Rightarrow> ('a, 'e) result \<Rightarrow> ('a, 'f) result" where
  "map_err f (Ok x) = Ok x"
| "map_err f (Err e) = Err (f e)"
| "map_err f Panic = Panic"

fun is_ok :: "('a, 'e) result \<Rightarrow> bool" where
  "is_ok (Ok _) = True"
| "is_ok _ = False"

lemma rbind_Ok_iff: "rbind r f = Ok y \<longleftrightarrow> (\<exists>x. r = Ok x \<and> f x = Ok y)"
  by (cases r) auto

lemma rbind_assoc: "rbind (rbind r f) g = rbind r (\<lambda>x. rbind (f x) g)"
  by (cases r) auto

lemma map_err_Ok_iff [simp]: "map_err f r = Ok y \<longleftrightarrow> r = Ok y"
  by (cases r) auto

subsection \<open>Transition systems\<close>

text \<open>A property of the initial state that every step keeps holds of every state a run reaches.\<close>

locale kept_by_steps =
  fixes init :: 's and step :: "'s \<Rightarrow> 's \<Rightarrow> bool" and inv :: "'s \<Rightarrow> bool"
  assumes inv_init: "inv init"
    and inv_step: "step s s' \<Longrightarrow> inv s \<Longrightarrow> inv s'"
begin

lemma inv_reachable: "step\<^sup>*\<^sup>* init s \<Longrightarrow> inv s"
  by (induction rule: rtranclp_induct) (auto intro: inv_init inv_step)

lemma inv_steps: "step\<^sup>*\<^sup>* s s' \<Longrightarrow> inv s \<Longrightarrow> inv s'"
  by (induction rule: rtranclp_induct) (auto intro: inv_step)

end

subsection \<open>Big-endian integers in byte buffers\<close>

definition put_u16 :: "u16 \<Rightarrow> bytes" where
  "put_u16 x = [ucast (drop_bit 8 x), ucast x]"

definition put_u32 :: "u32 \<Rightarrow> bytes" where
  "put_u32 x = [ucast (drop_bit 24 x), ucast (drop_bit 16 x), ucast (drop_bit 8 x), ucast x]"

definition put_u64 :: "u64 \<Rightarrow> bytes" where
  "put_u64 x = [ucast (drop_bit 56 x), ucast (drop_bit 48 x), ucast (drop_bit 40 x),
     ucast (drop_bit 32 x), ucast (drop_bit 24 x), ucast (drop_bit 16 x),
     ucast (drop_bit 8 x), ucast x]"

text \<open>The value of a big-endian byte string, at whatever width the caller reads it.\<close>

definition be_word :: "bytes \<Rightarrow> 'w::len word" where
  "be_word bs = foldl (\<lambda>a b. push_bit 8 a OR ucast b) 0 bs"

text \<open>The readers panic on a buffer that is too short and leave the rest of the buffer.\<close>

definition get_u16 :: "bytes \<Rightarrow> (u16 \<times> bytes, 'e) result" where
  "get_u16 bs = (if length bs < 2 then Panic else Ok (be_word (take 2 bs), drop 2 bs))"

definition get_u32 :: "bytes \<Rightarrow> (u32 \<times> bytes, 'e) result" where
  "get_u32 bs = (if length bs < 4 then Panic else Ok (be_word (take 4 bs), drop 4 bs))"

definition get_u64 :: "bytes \<Rightarrow> (u64 \<times> bytes, 'e) result" where
  "get_u64 bs = (if length bs < 8 then Panic else Ok (be_word (take 8 bs), drop 8 bs))"

lemma length_put_u16 [simp, size_simps]: "length (put_u16 x) = 2"
  by (simp add: put_u16_def)

lemma length_put_u32 [simp, size_simps]: "length (put_u32 x) = 4"
  by (simp add: put_u32_def)

lemma length_put_u64 [simp, size_simps]: "length (put_u64 x) = 8"
  by (simp add: put_u64_def)

text \<open>Reading one more byte of a word extends what has been read by that byte.\<close>

lemma be_word_step:
  fixes x :: "'w::len word"
  shows "push_bit 8 (drop_bit (k + 8) x) OR ucast (ucast (drop_bit k x) :: u8) = drop_bit k x"
proof (rule bit_word_eqI)
  fix n assume "n < LENGTH('w)"
  then show "bit (push_bit 8 (drop_bit (k + 8) x) OR ucast (ucast (drop_bit k x) :: u8)) n
    = bit (drop_bit k x) n"
    by (cases "n < 8") (simp_all add: bit_simps)
qed

lemma drop_bit_length:
  fixes x :: "'w::len word"
  shows "drop_bit LENGTH('w) x = 0"
  by (rule bit_word_eqI) (simp add: bit_simps)

lemma be_word_put_u16 [simp, codec_simps]: "be_word (put_u16 x) = x"
  using be_word_step [of 8 x] be_word_step [of 0 x] drop_bit_length [of x]
  by (simp add: be_word_def put_u16_def)

lemma be_word_put_u32 [simp, codec_simps]: "be_word (put_u32 x) = x"
  using be_word_step [of 24 x] be_word_step [of 16 x] be_word_step [of 8 x]
    be_word_step [of 0 x] drop_bit_length [of x]
  by (simp add: be_word_def put_u32_def)

lemma be_word_put_u64 [simp, codec_simps]: "be_word (put_u64 x) = x"
  using be_word_step [of 56 x] be_word_step [of 48 x] be_word_step [of 40 x]
    be_word_step [of 32 x] be_word_step [of 24 x] be_word_step [of 16 x]
    be_word_step [of 8 x] be_word_step [of 0 x] drop_bit_length [of x]
  by (simp add: be_word_def put_u64_def)

lemma get_u16_put [simp, codec_simps]: "get_u16 (put_u16 x @ bs) = Ok (x, bs)"
  by (simp add: get_u16_def)

lemma get_u32_put [simp, codec_simps]: "get_u32 (put_u32 x @ bs) = Ok (x, bs)"
  by (simp add: get_u32_def)

lemma get_u64_put [simp, codec_simps]: "get_u64 (put_u64 x @ bs) = Ok (x, bs)"
  by (simp add: get_u64_def)

lemma get_put_whole [simp, codec_simps]:
  "get_u16 (put_u16 x) = Ok (x, [])" "get_u32 (put_u32 y) = Ok (y, [])"
  "get_u64 (put_u64 z) = Ok (z, [])"
  by (simp_all add: get_u16_def get_u32_def get_u64_def)

lemma put_not_Nil [simp]: "put_u16 x \<noteq> []" "put_u32 y \<noteq> []" "put_u64 z \<noteq> []"
  by (simp_all add: put_u16_def put_u32_def put_u64_def)

subsection \<open>Slices and overwriting\<close>

text \<open>\<open>&bytes[i..j]\<close> and \<open>bytes.slice(i..j)\<close>: a panic unless \<open>i \<le> j \<le> len\<close>.\<close>

definition slice :: "bytes \<Rightarrow> nat \<Rightarrow> nat \<Rightarrow> (bytes, 'e) result" where
  "slice bs i j = (if i \<le> j \<and> j \<le> length bs then Ok (take (j - i) (drop i bs)) else Panic)"

text \<open>\<open>bytes[i]\<close>: a panic out of range.\<close>

definition index :: "'a list \<Rightarrow> nat \<Rightarrow> ('a, 'e) result" where
  "index xs i = (if i < length xs then Ok (xs ! i) else Panic)"

text \<open>
  Overwriting part of a file: the gap between the end and the offset, if any, is filled with
  zero bytes, as \<open>pwrite\<close> past the end of a file leaves a hole that reads as zeros.
\<close>

definition overwrite :: "bytes \<Rightarrow> nat \<Rightarrow> bytes \<Rightarrow> bytes" where
  "overwrite xs off bs =
     take off (xs @ replicate (off - length xs) 0) @ bs @ drop (off + length bs) xs"

lemma slice_append [simp]:
  assumes "i = length xs" and "j = i + length ys"
  shows "slice (xs @ ys @ zs) i j = Ok ys"
  using assms by (simp add: slice_def)

lemma length_overwrite [simp, size_simps]:
  "length (overwrite xs off bs) = max (length xs) (off + length bs)"
  by (auto simp: overwrite_def max_def min_def)

lemma overwrite_read_back:
  "take (length bs) (drop off (overwrite xs off bs)) = bs"
  by (simp add: overwrite_def)

lemma take_take_drop_eq:
  assumes "take k xs = take k ys" and "o1 + n \<le> k"
  shows "take n (drop o1 xs) = take n (drop o1 ys)"
proof -
  have "take n (drop o1 xs) = drop o1 (take (o1 + n) (take k xs))"
    using assms(2) by (simp add: take_drop min_def add.commute)
  also have "\<dots> = take n (drop o1 ys)"
    using assms by (simp add: take_drop min_def add.commute)
  finally show ?thesis .
qed

lemma take_overwrite_below:
  assumes "k \<le> off" and "k \<le> length xs"
  shows "take k (overwrite xs off bs) = take k xs"
  using assms by (auto simp: overwrite_def min_def)

lemma overwrite_disjoint_below:
  assumes "o1 + n \<le> off" and "o1 + n \<le> length xs"
  shows "take n (drop o1 (overwrite xs off bs)) = take n (drop o1 xs)"
  by (rule take_take_drop_eq [where k = "o1 + n", OF take_overwrite_below]) (use assms in auto)

lemma overwrite_at_end: "overwrite xs (length xs) bs = xs @ bs"
  by (simp add: overwrite_def)

end
