(* ===== verification/Fs.thy ===== *)
theory Fs
  imports Prelude
begin

section \<open>Files\<close>

text \<open>
  The part of \<open>std::fs\<close> and \<open>std::os::unix::fs::FileExt\<close> the storage engine uses. A path names
  an inode, an open \<open>File\<close> is an inode, so a handle survives a rename or a removal of its name.
  A write may fail after a prefix of the buffer has reached the file: \<open>fs_faults\<close> is the schedule
  of such failures, one entry per write (\<open>None\<close>: the write succeeds; \<open>Some k\<close>: it fails after
  \<open>k\<close> bytes); an exhausted schedule means no more failures.
\<close>

type_synonym path = string
type_synonym ino = nat

datatype io_error = NotFound | PermissionDenied | UnexpectedEof | WriteFailed

record fs =
  fs_names :: "path \<rightharpoonup> ino"
  fs_data :: "ino \<Rightarrow> bytes"
  fs_readonly :: "ino \<Rightarrow> bool"
  fs_mtime :: "ino \<Rightarrow> u64"
  fs_next :: ino
  fs_faults :: "nat option list"

subsection \<open>Reading\<close>

definition read_exact_at :: "bytes \<Rightarrow> nat \<Rightarrow> u64 \<Rightarrow> (bytes, io_error) result" where
  "read_exact_at content n off =
     (if n = 0 then Ok []
      else if unat off + n \<le> length content then Ok (take n (drop (unat off) content))
      else Err UnexpectedEof)"

text \<open>A single \<open>read_at\<close> returns what the file holds at the offset, up to the buffer's length.\<close>

definition read_at :: "bytes \<Rightarrow> nat \<Rightarrow> u64 \<Rightarrow> bytes" where
  "read_at content n off = take n (drop (unat off) content)"

definition metadata_len :: "bytes \<Rightarrow> u64" where
  "metadata_len content = of_nat (length content)"

subsection \<open>Writing\<close>

definition fs_set :: "fs \<Rightarrow> ino \<Rightarrow> bytes \<Rightarrow> fs" where
  "fs_set s i bs = s\<lparr>fs_data := (fs_data s)(i := bs)\<rparr>"

definition write_all_at :: "fs \<Rightarrow> ino \<Rightarrow> bytes \<Rightarrow> u64 \<Rightarrow> (fs, io_error \<times> fs) result" where
  "write_all_at s i bs off =
     (case fs_faults s of
        [] \<Rightarrow> Ok (fs_set s i (overwrite (fs_data s i) (unat off) bs))
      | None # fl \<Rightarrow>
          Ok ((fs_set s i (overwrite (fs_data s i) (unat off) bs))\<lparr>fs_faults := fl\<rparr>)
      | Some k # fl \<Rightarrow>
          Err (WriteFailed,
            (if k = 0 then s
             else fs_set s i (overwrite (fs_data s i) (unat off) (take k bs)))
              \<lparr>fs_faults := fl\<rparr>))"

definition ftruncate :: "fs \<Rightarrow> ino \<Rightarrow> u64 \<Rightarrow> fs" where
  "ftruncate s i len =
     fs_set s i (take (unat len) (fs_data s i)
       @ replicate (unat len - length (fs_data s i)) 0)"

subsection \<open>Names\<close>

definition metadata :: "fs \<Rightarrow> path \<Rightarrow> (ino, io_error) result" where
  "metadata s p = (case fs_names s p of None \<Rightarrow> Err NotFound | Some i \<Rightarrow> Ok i)"

definition open_read :: "fs \<Rightarrow> path \<Rightarrow> (ino, io_error) result" where
  "open_read s p = metadata s p"

text \<open>\<open>OpenOptions::new().read(true).write(true)\<close>\<close>

definition open_write :: "fs \<Rightarrow> path \<Rightarrow> (ino, io_error) result" where
  "open_write s p =
     (case fs_names s p of
        None \<Rightarrow> Err NotFound
      | Some i \<Rightarrow> if fs_readonly s i then Err PermissionDenied else Ok i)"

definition fs_alloc :: "fs \<Rightarrow> path \<Rightarrow> u64 \<Rightarrow> fs \<times> ino" where
  "fs_alloc s p now =
     (let i = fs_next s in
      (s\<lparr>fs_names := (fs_names s)(p \<mapsto> i), fs_data := (fs_data s)(i := []),
         fs_readonly := (fs_readonly s)(i := False), fs_mtime := (fs_mtime s)(i := now),
         fs_next := Suc i\<rparr>, i))"

text \<open>\<open>OpenOptions::new().write(true).create(true)\<close>, the second also with \<open>truncate(true)\<close>\<close>

definition open_create :: "fs \<Rightarrow> path \<Rightarrow> u64 \<Rightarrow> (fs \<times> ino, io_error) result" where
  "open_create s p now =
     (case fs_names s p of
        None \<Rightarrow> Ok (fs_alloc s p now)
      | Some i \<Rightarrow> if fs_readonly s i then Err PermissionDenied else Ok (s, i))"

definition open_create_truncate :: "fs \<Rightarrow> path \<Rightarrow> u64 \<Rightarrow> (fs \<times> ino, io_error) result" where
  "open_create_truncate s p now =
     (case fs_names s p of
        None \<Rightarrow> Ok (fs_alloc s p now)
      | Some i \<Rightarrow> if fs_readonly s i then Err PermissionDenied else Ok (fs_set s i [], i))"

definition remove_file :: "fs \<Rightarrow> path \<Rightarrow> (fs, io_error) result" where
  "remove_file s p =
     (case fs_names s p of
        None \<Rightarrow> Err NotFound
      | Some i \<Rightarrow> Ok (s\<lparr>fs_names := (fs_names s)(p := None)\<rparr>))"

definition rename_file :: "fs \<Rightarrow> path \<Rightarrow> path \<Rightarrow> (fs, io_error) result" where
  "rename_file s p q =
     (case fs_names s p of
        None \<Rightarrow> Err NotFound
      | Some i \<Rightarrow> Ok (s\<lparr>fs_names := ((fs_names s)(p := None))(q \<mapsto> i)\<rparr>))"

text \<open>\<open>util::file::file_exists\<close>\<close>

definition file_exists :: "fs \<Rightarrow> path \<Rightarrow> (bool, io_error) result" where
  "file_exists s p =
     (case metadata s p of
        Ok _ \<Rightarrow> Ok True
      | Err NotFound \<Rightarrow> Ok False
      | Err e \<Rightarrow> Err e
      | Panic \<Rightarrow> Panic)"

subsection \<open>Well-formed file systems\<close>

text \<open>Names point to allocated inodes, and no two names share one.\<close>

definition fs_wf :: "fs \<Rightarrow> bool" where
  "fs_wf s \<longleftrightarrow> (\<forall>p i. fs_names s p = Some i \<longrightarrow> i < fs_next s) \<and>
     (\<forall>p q i. fs_names s p = Some i \<longrightarrow> fs_names s q = Some i \<longrightarrow> p = q)"

lemma fs_set_simps [simp]:
  "fs_data (fs_set s i bs) = (fs_data s)(i := bs)"
  "fs_names (fs_set s i bs) = fs_names s"
  "fs_readonly (fs_set s i bs) = fs_readonly s"
  "fs_mtime (fs_set s i bs) = fs_mtime s"
  "fs_next (fs_set s i bs) = fs_next s"
  "fs_faults (fs_set s i bs) = fs_faults s"
  by (simp_all add: fs_set_def)

lemma fs_alloc_wf:
  assumes "fs_wf s" and "fs_names s p = None"
  shows "fs_wf (fst (fs_alloc s p now))"
  using assms by (fastforce simp: fs_wf_def fs_alloc_def Let_def split: if_splits)

lemma rename_file_wf:
  assumes "fs_wf s" and "rename_file s p q = Ok s'"
  shows "fs_wf s'"
  using assms by (fastforce simp: fs_wf_def rename_file_def split: option.splits if_splits)

lemma write_all_at_Ok_data:
  assumes "write_all_at s i bs off = Ok s'"
  shows "fs_data s' = (fs_data s)(i := overwrite (fs_data s i) (unat off) bs)"
    and "fs_names s' = fs_names s" and "fs_readonly s' = fs_readonly s"
    and "fs_mtime s' = fs_mtime s" and "fs_next s' = fs_next s"
  using assms by (auto simp: write_all_at_def split: list.splits option.splits)

lemma write_all_at_Err_data:
  assumes "write_all_at s i bs off = Err (e, s')"
  shows "e = WriteFailed"
    and "\<And>j. j \<noteq> i \<Longrightarrow> fs_data s' j = fs_data s j"
    and "fs_data s' i = fs_data s i
      \<or> (\<exists>k>0. fs_data s' i = overwrite (fs_data s i) (unat off) (take k bs))"
    and "fs_names s' = fs_names s" and "fs_readonly s' = fs_readonly s"
    and "fs_mtime s' = fs_mtime s" and "fs_next s' = fs_next s"
  using assms by (auto simp: write_all_at_def split: list.splits option.splits if_splits)

lemma write_all_at_no_panic [simp]: "write_all_at s i bs off \<noteq> Panic"
  by (auto simp: write_all_at_def split: list.splits option.splits)

end
