(* ===== verification/Types.thy ===== *)
theory Types
  imports Prelude
begin

section \<open>Needle sizes and offsets\<close>

text \<open>
  \<open>storage/types.rs\<close>, \<open>storage/version.rs\<close> and the constants at the head of
  \<open>storage/needle/mod.rs\<close>. An \<open>Offset\<close> counts units of eight bytes in a data file and a
  \<open>Size\<close> is the signed length of a needle's body; both are 32-bit integers, and so is the
  arithmetic on them. The lemmas give the exact range in which that arithmetic does not wrap.
\<close>

type_synonym volume_id = u32
type_synonym needle_id = u64
type_synonym cookie = u32
type_synonym version = u8

definition VERSION2 :: version where "VERSION2 = 2"
definition VERSION3 :: version where "VERSION3 = 3"
definition CURRENT_VERSION :: version where "CURRENT_VERSION = VERSION2"

definition TOMBSTONE_FILE_SIZE :: i32 where "TOMBSTONE_FILE_SIZE = - 1"
definition NEEDLE_HEADER_SIZE :: u32 where "NEEDLE_HEADER_SIZE = 16"
definition NEEDLE_PADDING_SIZE :: u32 where "NEEDLE_PADDING_SIZE = 8"
definition NEEDLE_ENTRY_SIZE :: u32 where "NEEDLE_ENTRY_SIZE = 8 + 4 + 4"
definition NEEDLE_CHECKSUM_SIZE :: u32 where "NEEDLE_CHECKSUM_SIZE = 4"
definition NEEDLE_INDEX_SIZE :: u32 where "NEEDLE_INDEX_SIZE = 16"
definition MAX_POSSIBLE_VOLUME_SIZE :: u64 where
  "MAX_POSSIBLE_VOLUME_SIZE = 4 * 1024 * 1024 * 1024 * 8"

lemmas needle_consts =
  TOMBSTONE_FILE_SIZE_def NEEDLE_HEADER_SIZE_def NEEDLE_PADDING_SIZE_def NEEDLE_ENTRY_SIZE_def
  NEEDLE_CHECKSUM_SIZE_def NEEDLE_INDEX_SIZE_def MAX_POSSIBLE_VOLUME_SIZE_def
  VERSION2_def VERSION3_def CURRENT_VERSION_def

datatype offset = Offset (off_val: u32)
datatype size = Size (size_val: i32)

definition actual_offset :: "offset \<Rightarrow> u64" where
  "actual_offset off = ucast (off_val off * NEEDLE_PADDING_SIZE)"

text \<open>\<open>impl From<u64> for Offset\<close>: the cast to \<open>u32\<close> comes before the division.\<close>

definition offset_from :: "u64 \<Rightarrow> offset" where
  "offset_from value = Offset (ucast value div NEEDLE_PADDING_SIZE)"

definition size_is_deleted :: "size \<Rightarrow> bool" where
  "size_is_deleted s \<longleftrightarrow> sint (size_val s) < 0 \<or> size_val s = TOMBSTONE_FILE_SIZE"

definition padding_len :: "size \<Rightarrow> u32" where
  "padding_len s = NEEDLE_PADDING_SIZE
     - ((NEEDLE_HEADER_SIZE + size_val s + NEEDLE_CHECKSUM_SIZE) mod NEEDLE_PADDING_SIZE)"

definition actual_size :: "size \<Rightarrow> u64" where
  "actual_size s =
     ucast (NEEDLE_HEADER_SIZE + size_val s + NEEDLE_CHECKSUM_SIZE + padding_len s)"

datatype disk_type = Hdd | Ssd

fun disk_type_display :: "disk_type \<Rightarrow> string" where
  "disk_type_display Hdd = ''hard disk drive''"
| "disk_type_display Ssd = ''solid state drive''"

subsection \<open>Offsets\<close>

lemma unat_offset_from:
  "unat (off_val (offset_from v)) = unat v mod 2 ^ 32 div 8"
  by (simp add: offset_from_def NEEDLE_PADDING_SIZE_def unat_div_distrib unat_ucast_mod)

lemma unat_actual_offset:
  "unat (actual_offset off) = unat (off_val off) * 8 mod 2 ^ 32"
  by (simp add: actual_offset_def NEEDLE_PADDING_SIZE_def unat_ucast_mod unat_word_ariths)

lemma actual_offset_from:
  "unat (actual_offset (offset_from v)) = unat v mod 2 ^ 32 div 8 * 8"
proof -
  have "unat v mod 2 ^ 32 div 8 * 8 < 2 ^ 32"
    by (rule le_less_trans [of _ "unat v mod 2 ^ 32"]) simp_all
  then show ?thesis
    by (simp add: unat_actual_offset unat_offset_from)
qed

lemma actual_offset_from_aligned:
  assumes "unat v < 2 ^ 32" and "8 dvd unat v"
  shows "actual_offset (offset_from v) = v"
  using assms by (intro iffD2 [OF word_unat_eq_iff]) (simp add: actual_offset_from)

subsection \<open>Sizes\<close>

lemma header_size_checksum: "NEEDLE_HEADER_SIZE + x + NEEDLE_CHECKSUM_SIZE = x + 20"
  by (simp add: needle_consts)

lemma unat_padding_len: "unat (padding_len s) = 8 - (unat (size_val s) + 20) mod 8"
proof -
  have "unat (size_val s + 20) = (unat (size_val s) + 20) mod 4294967296"
    by (simp add: unat_word_ariths)
  then have m: "unat ((size_val s + 20) mod 8) = (unat (size_val s) + 20) mod 8"
    by (simp only: unat_mod_distrib unat_numeral) (simp add: mod_mod_cancel)
  then have "(size_val s + 20) mod 8 \<le> 8"
    unfolding word_le_nat_alt by (simp add: less_imp_le)
  from unat_sub [OF this] show ?thesis
    by (simp only: padding_len_def header_size_checksum NEEDLE_PADDING_SIZE_def m) simp
qed

lemma padding_len_range: "1 \<le> unat (padding_len s)" "unat (padding_len s) \<le> 8"
  by (simp_all add: unat_padding_len Suc_le_eq)

lemma unat_actual_size:
  assumes "unat (size_val s) + 28 < 2 ^ 32"
  shows "unat (actual_size s) = unat (size_val s) + 20 + unat (padding_len s)"
proof -
  have "unat (size_val s + 20) = unat (size_val s) + 20"
    using assms by (simp add: unat_word_ariths)
  then have "unat (size_val s + 20 + padding_len s)
      = unat (size_val s) + 20 + unat (padding_len s)"
    using assms padding_len_range(2) [of s] unat_add_lem [of "size_val s + 20" "padding_len s"]
    by simp
  then show ?thesis
    using assms padding_len_range(2) [of s]
    by (simp add: actual_size_def header_size_checksum unat_ucast_mod)
qed

lemma actual_size_aligned:
  assumes "unat (size_val s) + 28 < 2 ^ 32"
  shows "8 dvd unat (actual_size s)"
  unfolding unat_actual_size [OF assms] unat_padding_len by presburger


subsection \<open>Properties\<close>

text \<open>
  C31: a file offset survives being stored in an index entry exactly when it is a multiple of eight
  below 4 GiB: \<open>Offset::from\<close> and \<open>actual_offset\<close> both work in 32 bits, so an offset from 4 GiB up
  to the 32 GiB of \<open>MAX_POSSIBLE_VOLUME_SIZE\<close> comes back changed.
\<close>

theorem offset_round_trip_iff:
  "actual_offset (offset_from v) = v \<longleftrightarrow> unat v < 2 ^ 32 \<and> 8 dvd unat v"
proof
  assume a: "actual_offset (offset_from v) = v"
  have v: "unat v = unat v mod 2 ^ 32 div 8 * 8"
    using actual_offset_from [of v] by (simp only: a)
  then have "8 dvd unat v"
    by (metis dvd_triv_right)
  moreover have "unat v mod 2 ^ 32 div 8 * 8 < 2 ^ 32"
    by (rule le_less_trans [OF div_times_less_eq_dividend]) simp
  ultimately show "unat v < 2 ^ 32 \<and> 8 dvd unat v"
    using v by simp
qed (simp add: actual_offset_from_aligned)

end
