(* ===== verification/Text.thy ===== *)
theory Text
  imports Prelude
begin

section \<open>Numbers as text\<close>

text \<open>
  What the source uses of \<open>std::fmt\<close>, \<open>str\<close> and \<open>std::num\<close>: printing an unsigned integer in a
  radix, zero-padded or not, the integer parsers \<open>from_str_radix\<close> and \<open>str::parse\<close> with the
  errors they return, and slices of a string. A string is its UTF-8 bytes, as \<open>len\<close> and the
  slice indices count them. The lemmas show that the parser inverts the printer, with or
  without leading zeros, for every number below the bound of the integer type.
\<close>

datatype parse_int_error = Empty | InvalidDigit | PosOverflow

subsection \<open>Printing\<close>

definition digit_char :: "nat \<Rightarrow> char" where
  "digit_char d = (if d < 10 then char_of (48 + d) else char_of (87 + d))"

fun radix_digits :: "nat \<Rightarrow> nat \<Rightarrow> nat list" where
  "radix_digits b n = (if b < 2 \<or> n < b then [n] else radix_digits b (n div b) @ [n mod b])"

declare radix_digits.simps [simp del]

definition fmt_radix :: "nat \<Rightarrow> nat \<Rightarrow> string" where
  "fmt_radix b n = map digit_char (radix_digits b n)"

definition zero_pad :: "nat \<Rightarrow> string \<Rightarrow> string" where
  "zero_pad w s = replicate (w - length s) (CHR ''0'') @ s"

abbreviation fmt_dec :: "nat \<Rightarrow> string" where
  "fmt_dec n \<equiv> fmt_radix 10 n"

subsection \<open>Parsing\<close>

definition to_digit :: "nat \<Rightarrow> char \<Rightarrow> nat option" where
  "to_digit b c =
     (let k = of_char c :: nat;
          d = if 48 \<le> k \<and> k \<le> 57 then k - 48
              else if 97 \<le> k \<and> k \<le> 122 then k - 87
              else if 65 \<le> k \<and> k \<le> 90 then k - 55 else b
      in if d < b then Some d else None)"

fun radix_loop :: "nat \<Rightarrow> nat \<Rightarrow> nat \<Rightarrow> string \<Rightarrow> (nat, parse_int_error) result" where
  "radix_loop b bnd acc [] = Ok acc"
| "radix_loop b bnd acc (c # cs) =
     (case to_digit b c of
        None \<Rightarrow> Err InvalidDigit
      | Some d \<Rightarrow>
          if bnd \<le> acc * b \<or> bnd \<le> acc * b + d then Err PosOverflow
          else radix_loop b bnd (acc * b + d) cs)"

text \<open>\<open>from_str_radix\<close> of the unsigned type with \<open>bnd\<close> values.\<close>

definition from_str_radix :: "nat \<Rightarrow> nat \<Rightarrow> string \<Rightarrow> (nat, parse_int_error) result" where
  "from_str_radix b bnd s =
     (case s of
        [] \<Rightarrow> Err Empty
      | c # cs \<Rightarrow>
          if cs = [] \<and> (c = CHR ''+'' \<or> c = CHR ''-'') then Err InvalidDigit
          else if c = CHR ''+'' then radix_loop b bnd 0 cs
          else radix_loop b bnd 0 s)"

definition parse_u16 :: "string \<Rightarrow> (u16, parse_int_error) result" where
  "parse_u16 s = rbind (from_str_radix 10 (2 ^ 16) s) (\<lambda>n. Ok (of_nat n))"

definition parse_u32 :: "string \<Rightarrow> (u32, parse_int_error) result" where
  "parse_u32 s = rbind (from_str_radix 10 (2 ^ 32) s) (\<lambda>n. Ok (of_nat n))"

definition parse_u64 :: "string \<Rightarrow> (u64, parse_int_error) result" where
  "parse_u64 s = rbind (from_str_radix 10 (2 ^ 64) s) (\<lambda>n. Ok (of_nat n))"

definition hex_u32 :: "string \<Rightarrow> (u32, parse_int_error) result" where
  "hex_u32 s = rbind (from_str_radix 16 (2 ^ 32) s) (\<lambda>n. Ok (of_nat n))"

definition hex_u64 :: "string \<Rightarrow> (u64, parse_int_error) result" where
  "hex_u64 s = rbind (from_str_radix 16 (2 ^ 64) s) (\<lambda>n. Ok (of_nat n))"

subsection \<open>Slices of a string\<close>

text \<open>Slicing panics inside a UTF-8 sequence: at a byte of the form \<open>10xxxxxx\<close>.\<close>

definition is_char_boundary :: "string \<Rightarrow> nat \<Rightarrow> bool" where
  "is_char_boundary s i \<longleftrightarrow>
     i = length s \<or> (i < length s \<and> (of_char (s ! i) :: nat) div 64 \<noteq> 2)"

definition str_slice :: "string \<Rightarrow> nat \<Rightarrow> nat \<Rightarrow> (string, 'e) result" where
  "str_slice s i j =
     (if i \<le> j \<and> j \<le> length s \<and> is_char_boundary s i \<and> is_char_boundary s j
      then Ok (take (j - i) (drop i s)) else Panic)"

fun str_find :: "char \<Rightarrow> string \<Rightarrow> nat option" where
  "str_find c [] = None"
| "str_find c (d # ds) = (if c = d then Some 0 else map_option Suc (str_find c ds))"

definition str_rfind :: "char \<Rightarrow> string \<Rightarrow> nat option" where
  "str_rfind c s = map_option (\<lambda>i. length s - Suc i) (str_find c (rev s))"

subsection \<open>The parser inverts the printer\<close>

lemma to_digit_digit_char:
  assumes "d < b" and "b \<le> 16"
  shows "to_digit b (digit_char d) = Some d"
  using assms by (auto simp: to_digit_def digit_char_def Let_def)

lemma of_char_digit_char:
  "d < 16 \<Longrightarrow> (of_char (digit_char d) :: nat) = (if d < 10 then 48 + d else 87 + d)"
  by (simp add: digit_char_def)

lemma digit_char_ascii:
  assumes "d < 16"
  shows "(of_char (digit_char d) :: nat) < 128" and "digit_char d \<noteq> CHR ''+''"
    and "digit_char d \<noteq> CHR ''-''" and "digit_char d \<noteq> CHR ''_''" and "digit_char d \<noteq> CHR '',''"
  using of_char_digit_char [OF assms] assms
  by (auto split: if_splits dest: arg_cong [where f = "of_char :: char \<Rightarrow> nat"])

lemma radix_digits_bound:
  assumes "2 \<le> b"
  shows "d \<in> set (radix_digits b n) \<Longrightarrow> d < b"
  using assms
proof (induction b n rule: radix_digits.induct)
  case (1 b n)
  show ?case
    using 1 by (subst (asm) (2) radix_digits.simps) (auto split: if_splits)
qed

lemma radix_digits_not_Nil [simp]: "radix_digits b n \<noteq> []"
  by (subst radix_digits.simps) simp

lemma length_radix_digits:
  assumes "2 \<le> b" and "n < b ^ k" and "0 < k"
  shows "length (radix_digits b n) \<le> k"
  using assms
proof (induction k arbitrary: n)
  case (Suc k)
  show ?case
  proof (cases "n < b")
    case False
    then have "k \<noteq> 0"
      using Suc.prems by (cases k) auto
    moreover have "n div b < b ^ k"
      using Suc.prems by (auto simp: less_mult_imp_div_less mult.commute)
    ultimately show ?thesis
      using Suc by (subst radix_digits.simps) auto
  qed (simp add: radix_digits.simps)
qed simp

lemma radix_loop_append:
  "radix_loop b bnd acc (xs @ ys) = rbind (radix_loop b bnd acc xs) (\<lambda>a. radix_loop b bnd a ys)"
  by (induction xs arbitrary: acc) (auto split: option.splits)

lemma radix_loop_fmt:
  assumes "2 \<le> b" and "b \<le> 16" and "n < bnd"
  shows "radix_loop b bnd 0 (fmt_radix b n) = Ok n"
  using assms
proof (induction b n rule: radix_digits.induct)
  case (1 b n)
  show ?case
  proof (cases "n < b")
    case True
    then show ?thesis
      using 1 by (simp add: fmt_radix_def radix_digits.simps to_digit_digit_char)
  next
    case False
    have "n div b * b < bnd"
      using 1 by (meson div_times_less_eq_dividend le_less_trans)
    moreover have "n div b < bnd"
      using 1 by (meson div_le_dividend le_less_trans)
    moreover from this have "radix_loop b bnd 0 (fmt_radix b (n div b)) = Ok (n div b)"
      using 1 False by simp
    ultimately show ?thesis
      using 1 False
      by (simp add: fmt_radix_def radix_digits.simps [of b n] radix_loop_append to_digit_digit_char
          not_le)
  qed
qed

lemma radix_loop_zeros:
  assumes "2 \<le> b" and "0 < bnd"
  shows "radix_loop b bnd 0 (replicate k (CHR ''0'') @ s) = radix_loop b bnd 0 s"
  using assms by (induction k) (auto simp: to_digit_def Let_def)

lemma fmt_radix_ascii:
  assumes "2 \<le> b" and "b \<le> 16" and "c \<in> set (fmt_radix b n)"
  shows "(of_char c :: nat) < 128" and "c \<noteq> CHR ''+''" and "c \<noteq> CHR ''-''" and "c \<noteq> CHR ''_''"
    and "c \<noteq> CHR '',''"
proof -
  obtain d where "d \<in> set (radix_digits b n)" and "c = digit_char d"
    using assms(3) by (auto simp: fmt_radix_def)
  moreover from this have "d < 16"
    using radix_digits_bound [OF assms(1)] assms(2) by fastforce
  ultimately show "(of_char c :: nat) < 128" and "c \<noteq> CHR ''+''" and "c \<noteq> CHR ''-''"
    and "c \<noteq> CHR ''_''" and "c \<noteq> CHR '',''"
    using digit_char_ascii [of d] by simp_all
qed

lemma from_str_radix_fmt:
  assumes "2 \<le> b" and "b \<le> 16" and "n < bnd"
  shows "from_str_radix b bnd (fmt_radix b n) = Ok n"
proof -
  obtain c cs where s: "fmt_radix b n = c # cs"
    by (cases "fmt_radix b n") (auto simp: fmt_radix_def)
  then have "c \<noteq> CHR ''+''" and "c \<noteq> CHR ''-''"
    using fmt_radix_ascii [OF assms(1,2), of c n] by auto
  then show ?thesis
    using radix_loop_fmt [OF assms] by (simp add: from_str_radix_def s)
qed

lemma from_str_radix_zero_pad:
  assumes "2 \<le> b" and "b \<le> 16" and "n < bnd"
  shows "from_str_radix b bnd (zero_pad w (fmt_radix b n)) = Ok n"
proof (cases "w - length (fmt_radix b n)")
  case 0
  then show ?thesis
    using from_str_radix_fmt [OF assms] by (simp add: zero_pad_def)
next
  case (Suc k)
  have "fmt_radix b n \<noteq> []"
    by (simp add: fmt_radix_def)
  then show ?thesis
    using radix_loop_fmt [OF assms] radix_loop_zeros [of b bnd "Suc k" "fmt_radix b n"] assms
    by (simp add: from_str_radix_def zero_pad_def Suc)
qed

lemma length_zero_pad: "length (zero_pad w s) = max w (length s)"
  by (simp add: zero_pad_def max_def)

lemma str_find_None_iff: "str_find c s = None \<longleftrightarrow> c \<notin> set s"
  by (induction s) auto

lemma str_find_append: "c \<notin> set xs \<Longrightarrow> str_find c (xs @ c # ys) = Some (length xs)"
  by (induction xs) auto

lemma ascii_boundary:
  assumes "\<And>c. c \<in> set s \<Longrightarrow> (of_char c :: nat) < 128" and "i \<le> length s"
  shows "is_char_boundary s i"
proof (cases "i < length s")
  case True
  then have "(of_char (s ! i) :: nat) div 64 < 2"
    using assms(1) [OF nth_mem [OF True]] by (simp add: less_mult_imp_div_less)
  then show ?thesis
    using True by (simp add: is_char_boundary_def)
qed (use assms in \<open>simp add: is_char_boundary_def\<close>)

end
