(* ===== verification/Errors.thy ===== *)
theory Errors
  imports Fs Types Text
begin

section \<open>Errors\<close>

text \<open>
  \<open>TtlError\<close> (\<open>storage/ttl.rs\<close>), \<open>NeedleError\<close> (\<open>storage/needle/mod.rs\<close>) and \<open>VolumeError\<close>
  (\<open>storage/volume/mod.rs\<close>). The last two contain each other, so
  the needle error takes the type of volume errors as a parameter. A variant the source only wraps
  around an error of a network library is not constructed by the modelled code and is left out.
\<close>

datatype ttl_error = InvalidUnit

datatype 'v needle_error_of =
    NIo io_error
  | NBox 'v
  | NParseInt parse_int_error
  | NTtl ttl_error
  | NDeleted volume_id needle_id
  | NExpired volume_id needle_id
  | NNotFound needle_id
  | NCookieNotMatch u32 u32
  | NSizeNotMatch size size
  | NUnsupportedVersion version
  | NCrc u32 u32
  | NInvalidFid string
  | NInvalidKeyHash string

datatype volume_error =
    VIo io_error
  | VBox string
  | VString string
  | VParseInt parse_int_error
  | VReplicaPlacement string
  | VNoWritableVolumes
  | VNotFound volume_id
  | VDataIntegrity string
  | VNotLoad volume_id
  | VHasLoaded volume_id
  | VReadonly volume_id
  | VCompacting volume_id
  | VNeedle "volume_error needle_error_of"
  | VTtl ttl_error
  | VNeedleMapperNotLoad volume_id
  | VNoFreeSpace string
  | VVolumeSizeLimit u64 u64
  | VWrongNodeType

type_synonym needle_error = "volume_error needle_error_of"

end
