(* ===== verification/Ttl.thy ===== *)
theory Ttl
  imports Errors
begin

section \<open>Time to live\<close>

text \<open>
  \<open>storage/ttl.rs\<close>: the unit and count of a time to live, its two binary forms and its text.
  The parser is built from combinators of the \<open>nom\<close> crate, which are parameters of the model
  (\<open>nom_ttl\<close>); \<open>nom_ttl_ok\<close> states their documented behaviour and \<open>nom_ttl_ref\<close> satisfies it.
\<close>

datatype unit_t = UEmpty | Minute | Hour | Day | Week | Month | Year

record ttl =
  ttl_count :: u8
  ttl_unit :: unit_t

definition ttl_default :: ttl where
  "ttl_default = \<lparr>ttl_count = 0, ttl_unit = UEmpty\<rparr>"

fun unit_as_u8 :: "unit_t \<Rightarrow> u8" where
  "unit_as_u8 UEmpty = 0"
| "unit_as_u8 Minute = 1"
| "unit_as_u8 Hour = 2"
| "unit_as_u8 Day = 3"
| "unit_as_u8 Week = 4"
| "unit_as_u8 Month = 5"
| "unit_as_u8 Year = 6"

definition unit_from_u8 :: "u8 \<Rightarrow> unit_t option" where
  "unit_from_u8 u =
     (if u = 0 then Some UEmpty else if u = 1 then Some Minute else if u = 2 then Some Hour
      else if u = 3 then Some Day else if u = 4 then Some Week else if u = 5 then Some Month
      else if u = 6 then Some Year else None)"

definition unit_new :: "char \<Rightarrow> unit_t" where
  "unit_new u =
     (if u = CHR ''h'' then Hour else if u = CHR ''d'' then Day else if u = CHR ''w'' then Week
      else if u = CHR ''M'' then Month else if u = CHR ''y'' then Year else Minute)"

fun unit_display :: "unit_t \<Rightarrow> string" where
  "unit_display Minute = ''m''"
| "unit_display Hour = ''h''"
| "unit_display Day = ''d''"
| "unit_display Week = ''w''"
| "unit_display Month = ''M''"
| "unit_display Year = ''y''"
| "unit_display UEmpty = ''''"

subsection \<open>Parsing\<close>

type_synonym 'a nom_parser = "string \<Rightarrow> (string \<times> 'a, string) result"

record nom_ttl =
  nom_digit1 :: "string nom_parser"
  nom_char :: "char \<Rightarrow> char nom_parser"
  nom_alt :: "char nom_parser list \<Rightarrow> char nom_parser"
  nom_opt :: "char nom_parser \<Rightarrow> char option nom_parser"
  nom_pair :: "string nom_parser \<Rightarrow> char option nom_parser \<Rightarrow> (string \<times> char option) nom_parser"

definition parse_ttl :: "nom_ttl \<Rightarrow> string \<Rightarrow> (u32 \<times> char, volume_error) result" where
  "parse_ttl nom input =
     rbind (map_err VString
        (nom_pair nom (nom_digit1 nom)
           (nom_opt nom (nom_alt nom
              [nom_char nom CHR ''m'', nom_char nom CHR ''h'', nom_char nom CHR ''d'',
               nom_char nom CHR ''w'', nom_char nom CHR ''M'', nom_char nom CHR ''y'']))
           input))
       (\<lambda>(_, count, u).
          rbind (map_err VParseInt (parse_u32 count))
            (\<lambda>c. Ok (c, case u of Some k \<Rightarrow> k | None \<Rightarrow> CHR ''m'')))"

definition ttl_new :: "nom_ttl \<Rightarrow> string \<Rightarrow> (ttl, volume_error) result" where
  "ttl_new nom s =
     (if s = [] then Ok ttl_default
      else rbind (parse_ttl nom s)
        (\<lambda>(count, u). Ok \<lparr>ttl_count = ucast count, ttl_unit = unit_new u\<rparr>))"

subsection \<open>Binary forms\<close>

definition ttl_from_bytes :: "bytes \<Rightarrow> (ttl, ttl_error) result" where
  "ttl_from_bytes buf =
     rbind (index buf 1) (\<lambda>b1.
       case unit_from_u8 b1 of
         Some u \<Rightarrow> rbind (index buf 0) (\<lambda>b0. Ok \<lparr>ttl_count = b0, ttl_unit = u\<rparr>)
       | None \<Rightarrow> Err InvalidUnit)"

definition ttl_from_u32 :: "u32 \<Rightarrow> (ttl, ttl_error) result" where
  "ttl_from_u32 value = ttl_from_bytes [ucast (drop_bit 8 value), ucast value]"

definition ttl_as_bytes :: "ttl \<Rightarrow> bytes" where
  "ttl_as_bytes t = [ttl_count t, unit_as_u8 (ttl_unit t)]"

definition ttl_to_u32 :: "ttl \<Rightarrow> u32" where
  "ttl_to_u32 t =
     (if ttl_count t = 0 then 0
      else push_bit 8 (ucast (ttl_count t)) + ucast (unit_as_u8 (ttl_unit t)))"

text \<open>\<open>impl From<Ttl> for u32\<close>\<close>

definition ttl_into_u32 :: "ttl \<Rightarrow> u32" where
  "ttl_into_u32 t = push_bit 8 (ucast (ttl_count t)) + ucast (unit_as_u8 (ttl_unit t))"

definition ttl_minutes :: "ttl \<Rightarrow> u32" where
  "ttl_minutes t =
     (case ttl_unit t of
        UEmpty \<Rightarrow> 0
      | Minute \<Rightarrow> ucast (ttl_count t)
      | Hour \<Rightarrow> ucast (ttl_count t) * 60
      | Day \<Rightarrow> ucast (ttl_count t) * 60 * 24
      | Week \<Rightarrow> ucast (ttl_count t) * 60 * 24 * 7
      | Month \<Rightarrow> ucast (ttl_count t) * 60 * 24 * 31
      | Year \<Rightarrow> ucast (ttl_count t) * 60 * 24 * 365)"

definition ttl_display :: "ttl \<Rightarrow> string" where
  "ttl_display t =
     (if ttl_count t = 0 then '''' else fmt_dec (unat (ttl_count t)) @ unit_display (ttl_unit t))"

subsection \<open>Round trips of the binary forms\<close>

lemma unit_from_as_u8 [simp]: "unit_from_u8 (unit_as_u8 u) = Some u"
  by (cases u) (simp_all add: unit_from_u8_def)

lemma unit_as_u8_le: "unat (unit_as_u8 u) \<le> 6"
  by (cases u) simp_all

lemma length_ttl_as_bytes [simp, size_simps]: "length (ttl_as_bytes t) = 2"
  by (simp add: ttl_as_bytes_def)

lemma ttl_as_bytes_not_Nil [simp]: "ttl_as_bytes t \<noteq> []"
  by (simp add: ttl_as_bytes_def)

lemma ttl_from_as_bytes [simp, codec_simps]: "ttl_from_bytes (ttl_as_bytes t) = Ok t"
  by (simp add: ttl_from_bytes_def ttl_as_bytes_def index_def)

lemma u8_pair_in_u32:
  fixes c u :: u8
  shows "ucast (drop_bit 8 (push_bit 8 (ucast c) + ucast u :: u32)) = c"
    and "ucast (push_bit 8 (ucast c) + ucast u :: u32) = u"
proof -
  have "push_bit 8 (ucast c) + ucast u = (push_bit 8 (ucast c) OR ucast u :: u32)"
    by (rule disjunctive_add) (auto simp: bit_simps dest: bit_imp_le_length)
  moreover have "ucast (drop_bit 8 (push_bit 8 (ucast c) OR ucast u :: u32)) = c"
    by (rule bit_word_eqI) (auto simp: bit_simps dest: bit_imp_le_length)
  moreover have "ucast (push_bit 8 (ucast c) OR ucast u :: u32) = u"
    by (rule bit_word_eqI) (auto simp: bit_simps)
  ultimately show "ucast (drop_bit 8 (push_bit 8 (ucast c) + ucast u :: u32)) = c"
    and "ucast (push_bit 8 (ucast c) + ucast u :: u32) = u"
    by simp_all
qed

lemma ttl_from_into_u32: "ttl_from_u32 (ttl_into_u32 t) = Ok t"
  using u8_pair_in_u32 [of "ttl_count t" "unit_as_u8 (ttl_unit t)"]
  by (simp add: ttl_from_u32_def ttl_into_u32_def flip: ttl_as_bytes_def)

lemma ttl_from_to_u32:
  "ttl_from_u32 (ttl_to_u32 t) = Ok (if ttl_count t = 0 then ttl_default else t)"
proof (cases "ttl_count t = 0")
  case True
  then show ?thesis
    by (simp add: ttl_to_u32_def ttl_from_u32_def ttl_from_bytes_def ttl_default_def index_def
        unit_from_u8_def)
next
  case False
  then show ?thesis
    using ttl_from_into_u32 [of t] by (simp add: ttl_to_u32_def ttl_into_u32_def)
qed

subsection \<open>Minutes\<close>

fun unit_minutes :: "unit_t \<Rightarrow> nat" where
  "unit_minutes UEmpty = 0"
| "unit_minutes Minute = 1"
| "unit_minutes Hour = 60"
| "unit_minutes Day = 1440"
| "unit_minutes Week = 10080"
| "unit_minutes Month = 44640"
| "unit_minutes Year = 525600"

lemma unat_ttl_minutes: "unat (ttl_minutes t) = unat (ttl_count t) * unit_minutes (ttl_unit t)"
  using unat_less_power(1) [of "ttl_count t"]
  by (cases "ttl_unit t") (simp_all add: ttl_minutes_def unat_word_ariths unat_ucast_mod)

subsection \<open>Text\<close>

definition is_dec_digit :: "char \<Rightarrow> bool" where
  "is_dec_digit c \<longleftrightarrow> 48 \<le> (of_char c :: nat) \<and> (of_char c :: nat) \<le> 57"

text \<open>The documented behaviour of the combinators.\<close>

definition nom_ttl_ok :: "nom_ttl \<Rightarrow> bool" where
  "nom_ttl_ok nom \<longleftrightarrow>
     (\<forall>ds r. ds \<noteq> [] \<longrightarrow> list_all is_dec_digit ds \<longrightarrow> (r = [] \<or> \<not> is_dec_digit (hd r)) \<longrightarrow>
        nom_digit1 nom (ds @ r) = Ok (r, ds)) \<and>
     (\<forall>c r. nom_char nom c (c # r) = Ok (r, c)) \<and>
     (\<forall>c s. s = [] \<or> hd s \<noteq> c \<longrightarrow> (\<exists>e. nom_char nom c s = Err e)) \<and>
     (\<forall>p ps s r. p s = Ok r \<longrightarrow> nom_alt nom (p # ps) s = Ok r) \<and>
     (\<forall>p q ps s e. p s = Err e \<longrightarrow> nom_alt nom (p # q # ps) s = nom_alt nom (q # ps) s) \<and>
     (\<forall>p s r x. p s = Ok (r, x) \<longrightarrow> nom_opt nom p s = Ok (r, Some x)) \<and>
     (\<forall>p s e. p s = Err e \<longrightarrow> nom_opt nom p s = Ok (s, None)) \<and>
     (\<forall>p q s r x. p s = Ok (r, x) \<longrightarrow>
        nom_pair nom p q s = rbind (q r) (\<lambda>(r', y). Ok (r', x, y)))"

lemma nom_ttl_okD:
  assumes "nom_ttl_ok nom"
  shows "\<And>ds r. ds \<noteq> [] \<Longrightarrow> list_all is_dec_digit ds \<Longrightarrow> r = [] \<or> \<not> is_dec_digit (hd r) \<Longrightarrow>
      nom_digit1 nom (ds @ r) = Ok (r, ds)"
    and "\<And>c r. nom_char nom c (c # r) = Ok (r, c)"
    and "\<And>c s. s = [] \<or> hd s \<noteq> c \<Longrightarrow> \<exists>e. nom_char nom c s = Err e"
    and "\<And>p ps s r. p s = Ok r \<Longrightarrow> nom_alt nom (p # ps) s = Ok r"
    and "\<And>p q ps s. \<exists>e. p s = Err e \<Longrightarrow> nom_alt nom (p # q # ps) s = nom_alt nom (q # ps) s"
    and "\<And>p s r x. p s = Ok (r, x) \<Longrightarrow> nom_opt nom p s = Ok (r, Some x)"
    and "\<And>p q s r x. p s = Ok (r, x) \<Longrightarrow>
      nom_pair nom p q s = rbind (q r) (\<lambda>(r', y). Ok (r', x, y))"
  using assms unfolding nom_ttl_ok_def by (elim conjE; simp; fail | elim conjE; metis)+

lemma unit_parse:
  assumes "nom_ttl_ok nom" and "u \<noteq> UEmpty"
  shows "\<exists>k. nom_alt nom [nom_char nom CHR ''m'', nom_char nom CHR ''h'', nom_char nom CHR ''d'',
      nom_char nom CHR ''w'', nom_char nom CHR ''M'', nom_char nom CHR ''y''] (unit_display u)
     = Ok ([], k) \<and> unit_new k = u"
  using assms(2)
  by (cases u)
    (simp_all add: nom_ttl_okD(2,4,5) [OF assms(1)] nom_ttl_okD(3) [OF assms(1)] unit_new_def)

lemma fmt_dec_digits: "list_all is_dec_digit (fmt_dec n)"
proof -
  have "is_dec_digit (digit_char d)" if "d \<in> set (radix_digits 10 n)" for d
    using radix_digits_bound [OF _ that] by (simp add: is_dec_digit_def of_char_digit_char)
  then show ?thesis
    by (auto simp: list_all_iff fmt_radix_def)
qed

lemma unit_display_not_digit:
  "unit_display u = [] \<or> \<not> is_dec_digit (hd (unit_display u))"
  by (cases u) (simp_all add: is_dec_digit_def)

lemma ttl_new_text:
  assumes "nom_ttl_ok nom" and "u \<noteq> UEmpty" and "c < 2 ^ 32"
  shows "ttl_new nom (fmt_dec c @ unit_display u) = Ok \<lparr>ttl_count = of_nat c, ttl_unit = u\<rparr>"
proof -
  note D = nom_ttl_okD [OF assms(1)]
  have ne: "fmt_dec c \<noteq> []"
    by (simp add: fmt_radix_def)
  let ?alt = "nom_alt nom [nom_char nom CHR ''m'', nom_char nom CHR ''h'', nom_char nom CHR ''d'',
    nom_char nom CHR ''w'', nom_char nom CHR ''M'', nom_char nom CHR ''y'']"
  obtain k where k: "?alt (unit_display u) = Ok ([], k)" and "unit_new k = u"
    using unit_parse [OF assms(1,2)] by blast
  have o: "nom_opt nom ?alt (unit_display u) = Ok ([], Some k)"
    by (rule D(6)) (rule k)
  have "nom_pair nom (nom_digit1 nom) (nom_opt nom ?alt) (fmt_dec c @ unit_display u)
      = rbind (nom_opt nom ?alt (unit_display u)) (\<lambda>(r', y). Ok (r', fmt_dec c, y))"
    by (rule D(7)) (rule D(1) [OF ne fmt_dec_digits unit_display_not_digit])
  moreover have "parse_u32 (fmt_dec c) = Ok (of_nat c)"
    using from_str_radix_fmt [of 10 c "2 ^ 32"] assms(3) by (simp add: parse_u32_def)
  ultimately show ?thesis
    using ne \<open>unit_new k = u\<close> by (simp add: ttl_new_def parse_ttl_def o ucast_of_nat_down)
qed

text \<open>Combinators with that behaviour, for concrete evaluations.\<close>

fun first_ok :: "char nom_parser list \<Rightarrow> char nom_parser" where
  "first_ok [] s = Err ''Alt''"
| "first_ok (p # ps) s = (case p s of Err _ \<Rightarrow> first_ok ps s | r \<Rightarrow> r)"

definition nom_ttl_ref :: nom_ttl where
  "nom_ttl_ref =
     \<lparr>nom_digit1 = (\<lambda>s. let ds = takeWhile is_dec_digit s in
         if ds = [] then Err ''Digit'' else Ok (dropWhile is_dec_digit s, ds)),
      nom_char = (\<lambda>c s. case s of [] \<Rightarrow> Err ''Char'' | d # r \<Rightarrow> if d = c then Ok (r, c) else Err ''Char''),
      nom_alt = first_ok,
      nom_opt = (\<lambda>p s. case p s of Ok (r, x) \<Rightarrow> Ok (r, Some x) | Err _ \<Rightarrow> Ok (s, None) | Panic \<Rightarrow> Panic),
      nom_pair = (\<lambda>p q s. rbind (p s) (\<lambda>(r, x). rbind (q r) (\<lambda>(r', y). Ok (r', x, y))))\<rparr>"

lemma nom_ttl_ref_ok: "nom_ttl_ok nom_ttl_ref"
proof -
  have "takeWhile is_dec_digit (ds @ r) = ds \<and> dropWhile is_dec_digit (ds @ r) = r"
    if "list_all is_dec_digit ds" and "r = [] \<or> \<not> is_dec_digit (hd r)" for ds r
    using that by (cases r) (auto simp: list_all_iff takeWhile_append dropWhile_append)
  then show ?thesis
    unfolding nom_ttl_ok_def nom_ttl_ref_def
    by (auto simp: Let_def split: list.splits)
qed


subsection \<open>Properties\<close>

text \<open>
  The byte and integer forms of a time to live are read back as the same time to live (a zero
  count is written as 0 by \<open>to_u32\<close> and read back as the default).
\<close>

theorem ttl_binary_round_trips:
  "ttl_from_bytes (ttl_as_bytes t) = Ok t \<and> ttl_from_u32 (ttl_into_u32 t) = Ok t \<and>
   ttl_from_u32 (ttl_to_u32 t) = Ok (if ttl_count t = 0 then ttl_default else t)"
  using ttl_from_into_u32 [of t] ttl_from_to_u32 [of t] by simp

text \<open>
  The text of a time to live with a unit is parsed back to it, and a count above 255 is taken
  modulo 256 without an error (\<open>300m\<close> becomes 44 minutes): \<open>count as u8\<close> truncates.
\<close>

theorem ttl_text_round_trip:
  assumes "nom_ttl_ok nom" and "u \<noteq> UEmpty" and "c < 2 ^ 32"
  shows "ttl_new nom (fmt_dec c @ unit_display u) = Ok \<lparr>ttl_count = of_nat (c mod 256), ttl_unit = u\<rparr>"
proof -
  have "(of_nat (c mod 256) :: u8) = of_nat c"
    by (simp add: word_unat_eq_iff unat_of_nat)
  then show ?thesis
    using ttl_new_text [OF assms] by simp
qed

theorem ttl_text_round_trip_witness:
  "ttl_new nom_ttl_ref ''300m'' = Ok \<lparr>ttl_count = 44, ttl_unit = Minute\<rparr>"
proof -
  have "fmt_dec 300 @ unit_display Minute = ''300m''"
    by code_simp
  then show ?thesis
    using ttl_text_round_trip [OF nom_ttl_ref_ok, of Minute 300] by simp
qed

end
