(* ===== verification/FileId.thy ===== *)
theory FileId
  imports Errors
begin

section \<open>File ids\<close>

text \<open>
  \<open>storage/file_id.rs\<close> and \<open>parse_key_hash\<close> of \<open>storage/needle/mod.rs\<close>: the text
  \<open>volume,key cookie\<close> a client is handed for a file, and the parser of its key and cookie part.
\<close>

record file_id =
  fid_volume_id :: volume_id
  fid_key :: needle_id
  fid_hash :: u32

definition file_id_new :: "volume_id \<Rightarrow> needle_id \<Rightarrow> u32 \<Rightarrow> file_id" where
  "file_id_new vid key hash = \<lparr>fid_volume_id = vid, fid_key = key, fid_hash = hash\<rparr>"

text \<open>The part of the text after the comma: \<open>{:x}{:08x}\<close>.\<close>

definition key_hash_display :: "needle_id \<Rightarrow> u32 \<Rightarrow> string" where
  "key_hash_display key hash =
     fmt_radix 16 (unat key) @ zero_pad 8 (fmt_radix 16 (unat hash))"

definition file_id_display :: "file_id \<Rightarrow> string" where
  "file_id_display f =
     fmt_dec (unat (fid_volume_id f)) @ '','' @ key_hash_display (fid_key f) (fid_hash f)"

definition parse_key_hash :: "string \<Rightarrow> (needle_id \<times> cookie, needle_error) result" where
  "parse_key_hash hash =
     (if length hash \<le> 8 \<or> 24 < length hash then Err (NInvalidKeyHash hash)
      else
        let key_end = length hash - 8 in
        rbind (str_slice hash 0 key_end) (\<lambda>ks.
        rbind (map_err NParseInt (hex_u64 ks)) (\<lambda>key.
        rbind (str_slice hash key_end (length hash)) (\<lambda>cs.
        rbind (map_err NParseInt (hex_u32 cs)) (\<lambda>cookie.
        Ok (key, cookie))))))"

lemma length_fmt_hex_u64: "length (fmt_radix 16 (unat (key :: u64))) \<in> {1..16}"
proof -
  have "length (radix_digits 16 (unat key)) \<le> 16"
    using unat_less_power(4) [of key] by (intro length_radix_digits) simp_all
  then show ?thesis
    by (simp add: fmt_radix_def Suc_le_eq)
qed

lemma length_fmt_hex_u32: "length (zero_pad 8 (fmt_radix 16 (unat (c :: u32)))) = 8"
proof -
  have "length (radix_digits 16 (unat c)) \<le> 8"
    using unat_less_power(3) [of c] by (intro length_radix_digits) simp_all
  then show ?thesis
    by (simp add: length_zero_pad fmt_radix_def)
qed

lemma key_hash_display_ascii:
  assumes "c \<in> set (key_hash_display key hash)"
  shows "(of_char c :: nat) < 128" and "c \<noteq> CHR ''_''" and "c \<noteq> CHR '',''"
proof -
  have "c = CHR ''0'' \<or> c \<in> set (fmt_radix 16 (unat key)) \<or> c \<in> set (fmt_radix 16 (unat hash))"
    using assms by (auto simp: key_hash_display_def zero_pad_def)
  then show "(of_char c :: nat) < 128" and "c \<noteq> CHR ''_''" and "c \<noteq> CHR '',''"
    using fmt_radix_ascii [of 16 c "unat key"] fmt_radix_ascii [of 16 c "unat hash"] by auto
qed

lemma length_key_hash_display: "length (key_hash_display key hash) \<in> {9..24}"
  using length_fmt_hex_u64 [of key] length_fmt_hex_u32 [of hash]
  by (simp add: key_hash_display_def)

lemma parse_key_hash_display: "parse_key_hash (key_hash_display key hash) = Ok (key, hash)"
proof -
  let ?k = "fmt_radix 16 (unat key)" and ?c = "zero_pad 8 (fmt_radix 16 (unat hash))"
  let ?s = "key_hash_display key hash"
  have b: "is_char_boundary ?s i" if "i \<le> length ?s" for i
    using ascii_boundary [OF key_hash_display_ascii(1) that] .
  have e: "length ?s - 8 = length ?k"
    using length_fmt_hex_u32 [of hash] by (simp add: key_hash_display_def)
  have "hex_u64 ?k = Ok key" and "hex_u32 ?c = Ok hash"
    using from_str_radix_fmt [of 16 "unat key" "2 ^ 64"] unat_less_power(4) [of key]
      from_str_radix_zero_pad [of 16 "unat hash" "2 ^ 32" 8] unat_less_power(3) [of hash]
    by (simp_all add: hex_u64_def hex_u32_def)
  moreover have "str_slice ?s 0 (length ?k) = (Ok ?k :: (string, needle_error) result)"
    and "str_slice ?s (length ?k) (length ?s) = (Ok ?c :: (string, needle_error) result)"
    using b [of 0] b [of "length ?k"] b [of "length ?s"]
    by (auto simp: str_slice_def key_hash_display_def)
  ultimately show ?thesis
    using length_key_hash_display [of key hash]
    by (simp add: parse_key_hash_def Let_def e)
qed

end
