(* ===== verification/Needle.thy ===== *)
theory Needle
  imports Ttl FileId
begin

section \<open>Needles\<close>

text \<open>
  \<open>storage/needle/mod.rs\<close>: a needle is one stored file. \<open>append\<close> writes it as a record (a
  16-byte header, the payload, a checksum and padding to a multiple of eight bytes) and
  \<open>read_bytes\<close> parses such a record back into a needle; \<open>read_needle_header\<close> and
  \<open>read_needle_body\<close> do so piecewise for the scanner of a data file. The checksum function
  (\<open>crc32fast::hash\<close>) is the parameter \<open>crc\<close>. A reader mutates the needle it is called on, so
  its error carries the needle as it is left at the early return.
\<close>

record needle =
  n_cookie :: cookie
  n_id :: needle_id
  n_size :: size
  n_data_size :: u32
  n_data :: bytes
  n_flags :: u8
  n_name_size :: u8
  n_name :: bytes
  n_mime_size :: u8
  n_mime :: bytes
  n_pairs_size :: u16
  n_pairs :: bytes
  n_last_modified :: u64
  n_ttl :: ttl
  n_checksum :: u32
  n_padding :: bytes

definition needle_default :: needle where
  "needle_default =
     \<lparr>n_cookie = 0, n_id = 0, n_size = Size 0, n_data_size = 0, n_data = [], n_flags = 0,
      n_name_size = 0, n_name = [], n_mime_size = 0, n_mime = [], n_pairs_size = 0, n_pairs = [],
      n_last_modified = 0, n_ttl = ttl_default, n_checksum = 0, n_padding = []\<rparr>"

subsection \<open>Flags\<close>

definition FLAG_GZIP :: u8 where "FLAG_GZIP = 1"
definition FLAG_HAS_NAME :: u8 where "FLAG_HAS_NAME = 2"
definition FLAG_HAS_MIME :: u8 where "FLAG_HAS_MIME = 4"
definition FLAG_HAS_LAST_MODIFIED_DATE :: u8 where "FLAG_HAS_LAST_MODIFIED_DATE = 8"
definition FLAG_HAS_TTL :: u8 where "FLAG_HAS_TTL = 16"
definition FLAG_HAS_PAIRS :: u8 where "FLAG_HAS_PAIRS = 32"
definition FLAG_IS_DELETE :: u8 where "FLAG_IS_DELETE = 64"
definition FLAG_IS_CHUNK_MANIFEST :: u8 where "FLAG_IS_CHUNK_MANIFEST = 128"

lemmas flag_defs = FLAG_GZIP_def FLAG_HAS_NAME_def FLAG_HAS_MIME_def
  FLAG_HAS_LAST_MODIFIED_DATE_def FLAG_HAS_TTL_def FLAG_HAS_PAIRS_def FLAG_IS_DELETE_def
  FLAG_IS_CHUNK_MANIFEST_def

definition has_flag :: "u8 \<Rightarrow> needle \<Rightarrow> bool" where
  "has_flag f n \<longleftrightarrow> 0 < n_flags n AND f"

definition set_flag :: "u8 \<Rightarrow> needle \<Rightarrow> needle" where
  "set_flag f n = n\<lparr>n_flags := n_flags n OR f\<rparr>"

definition has_ttl :: "needle \<Rightarrow> bool" where "has_ttl = has_flag FLAG_HAS_TTL"
definition set_has_ttl :: "needle \<Rightarrow> needle" where "set_has_ttl = set_flag FLAG_HAS_TTL"
definition has_name :: "needle \<Rightarrow> bool" where "has_name = has_flag FLAG_HAS_NAME"
definition set_name :: "needle \<Rightarrow> needle" where "set_name = set_flag FLAG_HAS_NAME"
definition has_mime :: "needle \<Rightarrow> bool" where "has_mime = has_flag FLAG_HAS_MIME"
definition set_has_mime :: "needle \<Rightarrow> needle" where "set_has_mime = set_flag FLAG_HAS_MIME"
definition is_gzipped :: "needle \<Rightarrow> bool" where "is_gzipped = has_flag FLAG_GZIP"
definition set_gzipped :: "needle \<Rightarrow> needle" where "set_gzipped = set_flag FLAG_GZIP"
definition has_pairs :: "needle \<Rightarrow> bool" where "has_pairs = has_flag FLAG_HAS_PAIRS"
definition set_has_pairs :: "needle \<Rightarrow> needle" where "set_has_pairs = set_flag FLAG_HAS_PAIRS"
definition has_last_modified_date :: "needle \<Rightarrow> bool" where
  "has_last_modified_date = has_flag FLAG_HAS_LAST_MODIFIED_DATE"
definition set_has_last_modified_date :: "needle \<Rightarrow> needle" where
  "set_has_last_modified_date = set_flag FLAG_HAS_LAST_MODIFIED_DATE"
definition is_chunk_manifest :: "needle \<Rightarrow> bool" where
  "is_chunk_manifest = has_flag FLAG_IS_CHUNK_MANIFEST"
definition set_is_chunk_manifest :: "needle \<Rightarrow> needle" where
  "set_is_chunk_manifest = set_flag FLAG_IS_CHUNK_MANIFEST"
definition is_delete :: "needle \<Rightarrow> bool" where "is_delete = has_flag FLAG_IS_DELETE"
definition set_is_delete :: "needle \<Rightarrow> needle" where "set_is_delete = set_flag FLAG_IS_DELETE"

lemmas has_defs = has_ttl_def has_name_def has_mime_def has_pairs_def has_last_modified_date_def
  is_gzipped_def is_chunk_manifest_def is_delete_def

lemma has_flag_cong: "n_flags n = n_flags m \<Longrightarrow> has_flag f n = has_flag f m"
  by (simp add: has_flag_def)

subsection \<open>File id and header\<close>

definition parse_path :: "needle \<Rightarrow> string \<Rightarrow> (needle, needle_error \<times> needle) result" where
  "parse_path n fid =
     (if length fid \<le> 8 then Err (NInvalidFid fid, n)
      else
        rbind (case str_find CHR ''_'' fid of
                 Some idx \<Rightarrow>
                   rbind (str_slice fid 0 idx) (\<lambda>i.
                   rbind (str_slice fid (idx + 1) (length fid)) (\<lambda>d. Ok (i, d)))
               | None \<Rightarrow> Ok (fid, [])) (\<lambda>(ident, delta).
        rbind (map_err (\<lambda>e. (e, n)) (parse_key_hash ident)) (\<lambda>(key, cookie).
        let n = n\<lparr>n_id := key, n_cookie := cookie\<rparr> in
        if delta = [] then Ok n
        else
          rbind (map_err (\<lambda>e. (NParseInt e, n)) (parse_u64 delta)) (\<lambda>id_delta.
          Ok (n\<lparr>n_id := n_id n + id_delta\<rparr>)))))"

definition new_with_fid :: "string \<Rightarrow> (needle, needle_error) result" where
  "new_with_fid fid = map_err fst (parse_path needle_default fid)"

definition parse_needle_header :: "needle \<Rightarrow> bytes \<Rightarrow> (needle, 'e) result" where
  "parse_needle_header n bs =
     rbind (get_u32 bs) (\<lambda>(cookie, bs).
     rbind (get_u64 bs) (\<lambda>(ident, bs).
     rbind (get_u32 bs) (\<lambda>(sz, bs).
     Ok (n\<lparr>n_cookie := cookie, n_id := ident, n_size := Size sz\<rparr>))))"

subsection \<open>Writing a record\<close>

definition grow :: "i32 \<Rightarrow> needle \<Rightarrow> needle" where
  "grow d n = n\<lparr>n_size := Size (size_val (n_size n) + d)\<rparr>"

definition append_name :: "needle \<times> bytes \<Rightarrow> needle \<times> bytes" where
  "append_name = (\<lambda>(n, buf).
     if has_name n then (grow (1 + ucast (n_name_size n)) n, buf @ [n_name_size n] @ n_name n)
     else (n, buf))"

definition append_mime :: "needle \<times> bytes \<Rightarrow> needle \<times> bytes" where
  "append_mime = (\<lambda>(n, buf).
     if has_mime n then (grow (1 + ucast (n_mime_size n)) n, buf @ [n_mime_size n] @ n_mime n)
     else (n, buf))"

definition append_last_modified :: "needle \<times> bytes \<Rightarrow> needle \<times> bytes" where
  "append_last_modified = (\<lambda>(n, buf).
     if has_last_modified_date n then (grow 8 n, buf @ put_u64 (n_last_modified n))
     else (n, buf))"

definition append_ttl :: "needle \<times> bytes \<Rightarrow> needle \<times> bytes" where
  "append_ttl = (\<lambda>(n, buf).
     if has_ttl n then (grow 2 n, buf @ ttl_as_bytes (n_ttl n)) else (n, buf))"

definition append_pairs :: "needle \<times> bytes \<Rightarrow> needle \<times> bytes" where
  "append_pairs = (\<lambda>(n, buf).
     if has_pairs n then
       (grow (2 + of_nat (length (n_pairs n))) n,
        buf @ put_u16 (of_nat (length (n_pairs n))) @ n_pairs n)
     else (n, buf))"

definition append_payload :: "needle \<times> bytes \<Rightarrow> needle \<times> bytes" where
  "append_payload = (\<lambda>(n, buf).
     if 0 < n_data_size n then
       append_pairs (append_ttl (append_last_modified (append_mime (append_name
         (n\<lparr>n_size := Size (4 + n_data_size n + 1)\<rparr>,
          buf @ put_u32 (n_data_size n) @ n_data n @ [n_flags n])))))
     else (n, buf))"

definition append_sizes :: "needle \<Rightarrow> needle" where
  "append_sizes n =
     n\<lparr>n_data_size := of_nat (length (n_data n)), n_name_size := of_nat (length (n_name n)),
       n_mime_size := of_nat (length (n_mime n)), n_pairs_size := of_nat (length (n_pairs n)),
       n_size := Size 0\<rparr>"

definition append_buf :: "needle \<Rightarrow> needle \<times> bytes" where
  "append_buf n0 =
     (let n = append_sizes n0;
          (n, buf) = append_payload
            (n, put_u32 (n_cookie n) @ put_u64 (n_id n) @ put_u32 (size_val (n_size n)));
          buf = (if 0 < sint (size_val (n_size n))
                 then overwrite buf 12 (put_u32 (size_val (n_size n))) else buf);
          buf = buf @ put_u32 (n_checksum n);
          buf = buf @ replicate (unat (padding_len (n_size n))) 0
      in (n, buf))"

definition needle_append ::
    "fs \<Rightarrow> ino \<Rightarrow> needle \<Rightarrow> u64 \<Rightarrow> version \<Rightarrow> (needle \<times> fs, needle_error \<times> needle \<times> fs) result" where
  "needle_append s w n offset version =
     (if version \<noteq> CURRENT_VERSION then Err (NUnsupportedVersion version, n, s)
      else
        let (n, buf) = append_buf n in
        case write_all_at s w buf offset of
          Ok s' \<Rightarrow> Ok (n, s')
        | Err (e, s') \<Rightarrow> Err (NIo e, n, s')
        | Panic \<Rightarrow> Panic)"

subsection \<open>Reading a record\<close>

type_synonym read_result = "(needle \<times> nat, needle_error \<times> needle) result"

definition read_data_part :: "bytes \<Rightarrow> needle \<times> nat \<Rightarrow> read_result" where
  "read_data_part bs = (\<lambda>(n, idx).
     if idx < length bs then
       rbind (slice bs idx (idx + 4)) (\<lambda>b.
       rbind (get_u32 b) (\<lambda>(ds, _).
       let idx = idx + 4 in
       rbind (slice bs idx (idx + unat ds)) (\<lambda>d.
       let idx = idx + unat ds in
       rbind (index bs idx) (\<lambda>f.
       Ok (n\<lparr>n_data_size := ds, n_data := d, n_flags := f\<rparr>, idx + 1)))))
     else Ok (n, idx))"

definition read_name_part :: "bytes \<Rightarrow> needle \<times> nat \<Rightarrow> read_result" where
  "read_name_part bs = (\<lambda>(n, idx).
     if idx < length bs \<and> has_name n then
       rbind (index bs idx) (\<lambda>k.
       let idx = idx + 1 in
       rbind (slice bs idx (idx + unat k)) (\<lambda>v.
       Ok (n\<lparr>n_name_size := k, n_name := v\<rparr>, idx + unat k)))
     else Ok (n, idx))"

definition read_mime_part :: "bytes \<Rightarrow> needle \<times> nat \<Rightarrow> read_result" where
  "read_mime_part bs = (\<lambda>(n, idx).
     if idx < length bs \<and> has_mime n then
       rbind (index bs idx) (\<lambda>k.
       let idx = idx + 1 in
       rbind (slice bs idx (idx + unat k)) (\<lambda>v.
       Ok (n\<lparr>n_mime_size := k, n_mime := v\<rparr>, idx + unat k)))
     else Ok (n, idx))"

definition read_last_modified_part :: "bytes \<Rightarrow> needle \<times> nat \<Rightarrow> read_result" where
  "read_last_modified_part bs = (\<lambda>(n, idx).
     if idx < length bs \<and> has_last_modified_date n then
       rbind (slice bs idx (idx + 8)) (\<lambda>b.
       rbind (get_u64 b) (\<lambda>(v, _).
       Ok (n\<lparr>n_last_modified := v\<rparr>, idx + 8)))
     else Ok (n, idx))"

definition read_ttl_part :: "bytes \<Rightarrow> needle \<times> nat \<Rightarrow> read_result" where
  "read_ttl_part bs = (\<lambda>(n, idx).
     if idx < length bs \<and> has_ttl n then
       rbind (slice bs idx (idx + 2)) (\<lambda>b.
       rbind (map_err (\<lambda>e. (NTtl e, n)) (ttl_from_bytes b)) (\<lambda>t.
       Ok (n\<lparr>n_ttl := t\<rparr>, idx + 2)))
     else Ok (n, idx))"

definition read_pairs_part :: "bytes \<Rightarrow> needle \<times> nat \<Rightarrow> read_result" where
  "read_pairs_part bs = (\<lambda>(n, idx).
     if idx < length bs \<and> has_pairs n then
       rbind (slice bs idx (idx + 2)) (\<lambda>b.
       rbind (get_u16 b) (\<lambda>(k, _).
       let idx = idx + 2 in
       rbind (slice bs idx (idx + unat k)) (\<lambda>v.
       Ok (n\<lparr>n_pairs_size := k, n_pairs := v\<rparr>, idx))))
     else Ok (n, idx))"

definition read_needle_data :: "needle \<Rightarrow> bytes \<Rightarrow> (needle, needle_error \<times> needle) result" where
  "read_needle_data n bs =
     rbind (read_data_part bs (n, 0)) (\<lambda>s.
     rbind (read_name_part bs s) (\<lambda>s.
     rbind (read_mime_part bs s) (\<lambda>s.
     rbind (read_last_modified_part bs s) (\<lambda>s.
     rbind (read_ttl_part bs s) (\<lambda>s.
     rbind (read_pairs_part bs s) (\<lambda>(n, _). Ok n))))))"

definition read_needle_blob :: "bytes \<Rightarrow> offset \<Rightarrow> size \<Rightarrow> (bytes, needle_error) result" where
  "read_needle_blob file off sz =
     map_err NIo (read_exact_at file (unat (actual_size sz)) (actual_offset off))"

definition read_bytes ::
    "(bytes \<Rightarrow> u32) \<Rightarrow> needle \<Rightarrow> bytes \<Rightarrow> offset \<Rightarrow> size \<Rightarrow> version
      \<Rightarrow> (needle, needle_error \<times> needle) result" where
  "read_bytes crc n bs off sz version =
     rbind (parse_needle_header n bs) (\<lambda>n.
     if n_size n \<noteq> sz \<and> actual_offset off < MAX_POSSIBLE_VOLUME_SIZE
     then Err (NSizeNotMatch (n_size n) sz, n)
     else
       rbind (if version = VERSION2 then
                let e = NEEDLE_HEADER_SIZE + size_val (n_size n) in
                rbind (slice bs (unat NEEDLE_HEADER_SIZE) (unat e)) (read_needle_data n)
              else Ok n) (\<lambda>n.
       let checksum_start = NEEDLE_HEADER_SIZE + size_val sz;
           checksum_end = NEEDLE_HEADER_SIZE + size_val sz + NEEDLE_CHECKSUM_SIZE in
       rbind (slice bs (unat checksum_start) (unat checksum_end)) (\<lambda>b.
       rbind (get_u32 b) (\<lambda>(c, _).
       let n = n\<lparr>n_checksum := c\<rparr> in
       if n_checksum n \<noteq> crc (n_data n) then Err (NCrc (n_checksum n) (crc (n_data n)), n)
       else Ok n))))"

definition read_data ::
    "(bytes \<Rightarrow> u32) \<Rightarrow> needle \<Rightarrow> bytes \<Rightarrow> offset \<Rightarrow> size \<Rightarrow> version
      \<Rightarrow> (needle, needle_error \<times> needle) result" where
  "read_data crc n file off sz version =
     rbind (map_err (\<lambda>e. (e, n)) (read_needle_blob file off sz)) (\<lambda>bs.
     read_bytes crc n bs off sz version)"

subsection \<open>Reading a record piecewise\<close>

definition body_len :: "needle \<Rightarrow> u32" where
  "body_len n = size_val (n_size n) + NEEDLE_CHECKSUM_SIZE + padding_len (n_size n)"

definition disk_size :: "needle \<Rightarrow> u64" where
  "disk_size n = actual_size (n_size n)"

definition data_size :: "needle \<Rightarrow> nat" where
  "data_size n = length (n_data n)"

definition etag :: "needle \<Rightarrow> string" where
  "etag n =
     (let buf = [0, 0, 0, 0] @ put_u32 (n_checksum n) in
      fmt_dec (unat (buf ! 0)) @ fmt_dec (unat (buf ! 1)) @ fmt_dec (unat (buf ! 2))
        @ fmt_dec (unat (buf ! 3)))"

definition read_needle_header ::
    "bytes \<Rightarrow> version \<Rightarrow> u64 \<Rightarrow> (needle \<times> u32, needle_error) result" where
  "read_needle_header file version offset =
     (if version = VERSION2 then
        rbind (map_err NIo (read_exact_at file (unat NEEDLE_ENTRY_SIZE) offset)) (\<lambda>buf.
        rbind (parse_needle_header needle_default buf) (\<lambda>n.
        Ok (n, body_len n)))
      else Ok (needle_default, 0))"

definition read_needle_body ::
    "(bytes \<Rightarrow> u32) \<Rightarrow> needle \<Rightarrow> bytes \<Rightarrow> u64 \<Rightarrow> u32 \<Rightarrow> version
      \<Rightarrow> (needle, needle_error \<times> needle) result" where
  "read_needle_body crc n data_file offset blen version =
     (if blen = 0 then Ok n
      else if version = VERSION2 then
        rbind (map_err (\<lambda>e. (NIo e, n)) (read_exact_at data_file (unat blen) offset)) (\<lambda>buf.
        rbind (read_needle_data n buf) (\<lambda>n.
        Ok (n\<lparr>n_checksum := crc (n_data n)\<rparr>)))
      else Err (NUnsupportedVersion version, n))"

subsection \<open>The layout of a record\<close>

text \<open>
  The payload of a needle whose size fields are set, and the record around it. Under
  \<open>needle_fits\<close> no size field is truncated, and the size of the record fits a positive \<open>i32\<close>.
\<close>

definition name_part :: "needle \<Rightarrow> bytes" where
  "name_part n = (if has_name n then n_name_size n # n_name n else [])"

definition mime_part :: "needle \<Rightarrow> bytes" where
  "mime_part n = (if has_mime n then n_mime_size n # n_mime n else [])"

definition last_modified_part :: "needle \<Rightarrow> bytes" where
  "last_modified_part n = (if has_last_modified_date n then put_u64 (n_last_modified n) else [])"

definition ttl_part :: "needle \<Rightarrow> bytes" where
  "ttl_part n = (if has_ttl n then ttl_as_bytes (n_ttl n) else [])"

definition pairs_part :: "needle \<Rightarrow> bytes" where
  "pairs_part n = (if has_pairs n then put_u16 (n_pairs_size n) @ n_pairs n else [])"

lemmas part_defs = name_part_def mime_part_def last_modified_part_def ttl_part_def pairs_part_def

definition optional_parts :: "needle \<Rightarrow> bytes" where
  "optional_parts n = name_part n @ mime_part n @ last_modified_part n @ ttl_part n @ pairs_part n"

definition payload :: "needle \<Rightarrow> bytes" where
  "payload n =
     (if n_data_size n = 0 then []
      else put_u32 (n_data_size n) @ n_data n @ [n_flags n] @ optional_parts n)"

definition needle_record :: "needle \<Rightarrow> bytes" where
  "needle_record n =
     put_u32 (n_cookie n) @ put_u64 (n_id n) @ put_u32 (size_val (n_size n)) @ payload n
       @ put_u32 (n_checksum n) @ replicate (unat (padding_len (n_size n))) 0"

definition needle_fits :: "needle \<Rightarrow> bool" where
  "needle_fits n \<longleftrightarrow> length (n_data n) + 2 ^ 17 \<le> 2 ^ 31 \<and>
     (has_name n \<longrightarrow> length (n_name n) < 2 ^ 8) \<and>
     (has_mime n \<longrightarrow> length (n_mime n) < 2 ^ 8) \<and>
     (has_pairs n \<longrightarrow> length (n_pairs n) < 2 ^ 16)"

text \<open>The size fields agree with the contents: what \<open>append\<close> establishes.\<close>

definition sizes_ok :: "needle \<Rightarrow> bool" where
  "sizes_ok n \<longleftrightarrow> unat (n_data_size n) = length (n_data n) \<and>
     (has_name n \<longrightarrow> unat (n_name_size n) = length (n_name n)) \<and>
     (has_mime n \<longrightarrow> unat (n_mime_size n) = length (n_mime n)) \<and>
     (has_pairs n \<longrightarrow> unat (n_pairs_size n) = length (n_pairs n)) \<and>
     length (payload n) + 28 < 2 ^ 31 \<and> size_val (n_size n) = of_nat (length (payload n))"

definition stored :: "needle \<Rightarrow> needle" where
  "stored n = (let m = append_sizes n in m\<lparr>n_size := Size (of_nat (length (payload m)))\<rparr>)"

lemma has_flag_append_sizes [simp]: "has_flag f (append_sizes n) = has_flag f n"
  by (simp add: append_sizes_def has_flag_def)

lemma has_flag_size_update [simp]: "has_flag f (n\<lparr>n_size := z\<rparr>) = has_flag f n"
  by (simp add: has_flag_def)

lemma payload_size_update [simp]: "payload (n\<lparr>n_size := z\<rparr>) = payload n"
  by (simp add: payload_def optional_parts_def part_defs has_defs)

lemma append_payload_eq:
  "append_payload (append_sizes n, buf) =
     (let m = append_sizes n in
      (m\<lparr>n_size := Size (if n_data_size m = 0 then 0 else
          4 + n_data_size m + 1
          + (if has_name n then 1 + ucast (n_name_size m) else 0)
          + (if has_mime n then 1 + ucast (n_mime_size m) else 0)
          + (if has_last_modified_date n then 8 else 0) + (if has_ttl n then 2 else 0)
          + (if has_pairs n then 2 + of_nat (length (n_pairs n)) else 0))\<rparr>,
       buf @ payload m))"
proof (cases "n_data_size (append_sizes n) = 0")
  case True
  then show ?thesis
    by (simp add: append_payload_def payload_def Let_def) (simp add: append_sizes_def)
next
  case False
  then have "0 < n_data_size (append_sizes n)"
    by (simp add: word_gt_0)
  then show ?thesis
    by (simp add: append_payload_def append_pairs_def append_ttl_def append_last_modified_def
        append_mime_def append_name_def grow_def payload_def optional_parts_def part_defs has_defs
        Let_def False)
      (simp add: append_sizes_def)
qed

lemma append_sizes_simps [simp]:
  "n_data (append_sizes n) = n_data n" "n_flags (append_sizes n) = n_flags n"
  "n_name (append_sizes n) = n_name n" "n_mime (append_sizes n) = n_mime n"
  "n_pairs (append_sizes n) = n_pairs n" "n_cookie (append_sizes n) = n_cookie n"
  "n_id (append_sizes n) = n_id n" "n_checksum (append_sizes n) = n_checksum n"
  "n_last_modified (append_sizes n) = n_last_modified n" "n_ttl (append_sizes n) = n_ttl n"
  "n_data_size (append_sizes n) = of_nat (length (n_data n))"
  "n_name_size (append_sizes n) = of_nat (length (n_name n))"
  "n_mime_size (append_sizes n) = of_nat (length (n_mime n))"
  "n_pairs_size (append_sizes n) = of_nat (length (n_pairs n))"
  "n_size (append_sizes n) = Size 0"
  by (simp_all add: append_sizes_def)

lemma data_size_zero_iff:
  assumes "needle_fits n"
  shows "n_data_size (append_sizes n) = 0 \<longleftrightarrow> n_data n = []"
proof -
  have "unat (of_nat (length (n_data n)) :: u32) = length (n_data n)"
    using assms by (intro unat_of_nat_small) (simp add: needle_fits_def)
  then show ?thesis
    by (metis append_sizes_simps(11) length_0_conv unat_eq_zero)
qed

lemma length_optional_parts:
  "length (optional_parts n) =
     (if has_name n then Suc (length (n_name n)) else 0)
     + (if has_mime n then Suc (length (n_mime n)) else 0)
     + (if has_last_modified_date n then 8 else 0) + (if has_ttl n then 2 else 0)
     + (if has_pairs n then 2 + length (n_pairs n) else 0)"
  by (simp add: optional_parts_def part_defs)

lemma length_payload_fits:
  assumes "needle_fits n"
  shows "length (payload (append_sizes n)) + 28 < 2 ^ 31"
proof -
  let ?m = "append_sizes n"
  have "length (name_part ?m) \<le> 256" and "length (mime_part ?m) \<le> 256"
    and "length (last_modified_part ?m) \<le> 8" and "length (ttl_part ?m) \<le> 2"
    and "length (pairs_part ?m) \<le> 65538"
    using assms by (auto simp: part_defs has_defs needle_fits_def)
  then have "length (optional_parts ?m) \<le> 67000"
    by (simp add: optional_parts_def)
  then show ?thesis
    using assms by (simp add: payload_def needle_fits_def)
qed

lemma payload_size_word:
  assumes "needle_fits n"
  shows "(let m = append_sizes n in
      if n_data_size m = 0 then 0 else
        4 + n_data_size m + 1
        + (if has_name n then 1 + ucast (n_name_size m) else 0)
        + (if has_mime n then 1 + ucast (n_mime_size m) else 0)
        + (if has_last_modified_date n then 8 else 0) + (if has_ttl n then 2 else 0)
        + (if has_pairs n then 2 + of_nat (length (n_pairs n)) else 0))
    = of_nat (length (payload (append_sizes n)))"
  using assms
  by (simp add: payload_def length_optional_parts has_defs Let_def needle_fits_def
      ucast_of_nat_up)

lemma append_buf_eq:
  assumes "needle_fits n"
  shows "append_buf n = (stored n, needle_record (stored n))"
proof -
  let ?m = "append_sizes n"
  let ?h = "put_u32 (n_cookie ?m) @ put_u64 (n_id ?m) @ put_u32 0"
  have p: "append_payload (?m, ?h) = (stored n, ?h @ payload ?m)"
    using append_payload_eq [of n ?h] payload_size_word [OF assms]
    by (simp add: stored_def Let_def)
  have "unat (of_nat (length (payload ?m)) :: u32) = length (payload ?m)"
    using length_payload_fits [OF assms] by (intro unat_of_nat_small) simp
  then have "sint (of_nat (length (payload ?m)) :: u32) = int (length (payload ?m))"
    using length_payload_fits [OF assms] by (subst sint_below_half) simp_all
  moreover have "overwrite (?h @ payload ?m) 12 (put_u32 z)
      = put_u32 (n_cookie ?m) @ put_u64 (n_id ?m) @ put_u32 z @ payload ?m" for z
    by (simp add: overwrite_def)
  ultimately show ?thesis
    using p by (cases "payload ?m = []") (simp_all add: append_buf_def needle_record_def Let_def stored_def)
qed

lemma sizes_ok_stored:
  assumes "needle_fits n"
  shows "sizes_ok (stored n)"
  using assms length_payload_fits [OF assms]
  by (simp add: sizes_ok_def stored_def Let_def has_defs needle_fits_def unat_of_nat_small)

subsection \<open>Parsing a record back\<close>

text \<open>What reading the payload of \<open>n\<close> into \<open>m\<close> leaves: the fields the record holds.\<close>

definition overlay_name :: "needle \<Rightarrow> needle \<Rightarrow> needle" where
  "overlay_name n m = (if has_name n then m\<lparr>n_name_size := n_name_size n, n_name := n_name n\<rparr> else m)"

definition overlay_mime :: "needle \<Rightarrow> needle \<Rightarrow> needle" where
  "overlay_mime n m = (if has_mime n then m\<lparr>n_mime_size := n_mime_size n, n_mime := n_mime n\<rparr> else m)"

definition overlay_last_modified :: "needle \<Rightarrow> needle \<Rightarrow> needle" where
  "overlay_last_modified n m =
     (if has_last_modified_date n then m\<lparr>n_last_modified := n_last_modified n\<rparr> else m)"

definition overlay_ttl :: "needle \<Rightarrow> needle \<Rightarrow> needle" where
  "overlay_ttl n m = (if has_ttl n then m\<lparr>n_ttl := n_ttl n\<rparr> else m)"

definition overlay_pairs :: "needle \<Rightarrow> needle \<Rightarrow> needle" where
  "overlay_pairs n m =
     (if has_pairs n then m\<lparr>n_pairs_size := n_pairs_size n, n_pairs := n_pairs n\<rparr> else m)"

definition overlay :: "needle \<Rightarrow> needle \<Rightarrow> needle" where
  "overlay n m =
     (if n_data_size n = 0 then m
      else overlay_pairs n (overlay_ttl n (overlay_last_modified n (overlay_mime n (overlay_name n
        (m\<lparr>n_data_size := n_data_size n, n_data := n_data n, n_flags := n_flags n\<rparr>))))))"

lemmas overlay_defs = overlay_name_def overlay_mime_def overlay_last_modified_def overlay_ttl_def
  overlay_pairs_def

lemma overlay_flags [simp]:
  "n_flags (overlay_name n m) = n_flags m" "n_flags (overlay_mime n m) = n_flags m"
  "n_flags (overlay_last_modified n m) = n_flags m" "n_flags (overlay_ttl n m) = n_flags m"
  "n_flags (overlay_pairs n m) = n_flags m"
  by (simp_all add: overlay_defs)

lemma read_data_part_eq:
  assumes "unat ds = length d"
  shows "read_data_part (put_u32 ds @ d @ [f] @ post) (m, 0) =
    Ok (m\<lparr>n_data_size := ds, n_data := d, n_flags := f\<rparr>, length (put_u32 ds @ d @ [f]))"
  using assms
  by (simp add: read_data_part_def slice_def index_def Let_def nth_append)

lemma read_name_part_eq:
  assumes "n_flags m = n_flags n" and "has_name n \<longrightarrow> unat (n_name_size n) = length (n_name n)"
    and "i = length pre"
  shows "read_name_part (pre @ name_part n @ post) (m, i) =
    Ok (overlay_name n m, length (pre @ name_part n))"
  using assms has_flag_cong [OF assms(1)]
  by (simp add: read_name_part_def name_part_def overlay_name_def has_defs slice_def index_def
      Let_def nth_append)

lemma read_mime_part_eq:
  assumes "n_flags m = n_flags n" and "has_mime n \<longrightarrow> unat (n_mime_size n) = length (n_mime n)"
    and "i = length pre"
  shows "read_mime_part (pre @ mime_part n @ post) (m, i) =
    Ok (overlay_mime n m, length (pre @ mime_part n))"
  using assms has_flag_cong [OF assms(1)]
  by (simp add: read_mime_part_def mime_part_def overlay_mime_def has_defs slice_def index_def
      Let_def nth_append)

lemma read_last_modified_part_eq:
  assumes "n_flags m = n_flags n" and "i = length pre"
  shows "read_last_modified_part (pre @ last_modified_part n @ post) (m, i) =
    Ok (overlay_last_modified n m, length (pre @ last_modified_part n))"
  using assms has_flag_cong [OF assms(1)]
  by (simp add: read_last_modified_part_def last_modified_part_def overlay_last_modified_def
      has_defs slice_def)

lemma read_ttl_part_eq:
  assumes "n_flags m = n_flags n" and "i = length pre"
  shows "read_ttl_part (pre @ ttl_part n @ post) (m, i) =
    Ok (overlay_ttl n m, length (pre @ ttl_part n))"
  using assms has_flag_cong [OF assms(1)]
  by (simp add: read_ttl_part_def ttl_part_def overlay_ttl_def has_defs slice_def)

lemma read_pairs_part_eq:
  assumes "n_flags m = n_flags n" and "has_pairs n \<longrightarrow> unat (n_pairs_size n) = length (n_pairs n)"
    and "i = length pre"
  shows "\<exists>j. read_pairs_part (pre @ pairs_part n @ post) (m, i) = Ok (overlay_pairs n m, j)"
  using assms has_flag_cong [OF assms(1)]
  by (simp add: read_pairs_part_def pairs_part_def overlay_pairs_def has_defs slice_def Let_def)

lemma read_needle_data_tail:
  assumes "sizes_ok n" and "n_data_size n \<noteq> 0"
  shows "read_needle_data m (payload n @ tail) = Ok (overlay n m)"
proof -
  note s = assms(1) [unfolded sizes_ok_def]
  let ?d = "put_u32 (n_data_size n) @ n_data n @ [n_flags n]"
  let ?m1 = "m\<lparr>n_data_size := n_data_size n, n_data := n_data n, n_flags := n_flags n\<rparr>"
  let ?m2 = "overlay_name n ?m1"
  let ?m3 = "overlay_mime n ?m2"
  let ?m4 = "overlay_last_modified n ?m3"
  let ?m5 = "overlay_ttl n ?m4"
  let ?p2 = "?d @ name_part n"
  let ?p3 = "?p2 @ mime_part n"
  let ?p4 = "?p3 @ last_modified_part n"
  let ?p5 = "?p4 @ ttl_part n"
  define bs where "bs = payload n @ tail"
  have bs: "bs = ?d @ optional_parts n @ tail"
    using assms(2) by (simp add: bs_def payload_def)
  have "read_data_part bs (m, 0) = Ok (?m1, length ?d)"
    using read_data_part_eq [of "n_data_size n" "n_data n" "n_flags n" "optional_parts n @ tail" m] s
    by (simp add: bs)
  moreover have "read_name_part bs (?m1, length ?d) = Ok (?m2, length ?p2)"
    using read_name_part_eq [of ?m1 n "length ?d" ?d] s by (simp add: bs optional_parts_def)
  moreover have "read_mime_part bs (?m2, length ?p2) = Ok (?m3, length ?p3)"
    using read_mime_part_eq [of ?m2 n "length ?p2" ?p2] s by (simp add: bs optional_parts_def)
  moreover have "read_last_modified_part bs (?m3, length ?p3) = Ok (?m4, length ?p4)"
    using read_last_modified_part_eq [of ?m3 n "length ?p3" ?p3]
    by (simp add: bs optional_parts_def)
  moreover have "read_ttl_part bs (?m4, length ?p4) = Ok (?m5, length ?p5)"
    using read_ttl_part_eq [of ?m4 n "length ?p4" ?p4] by (simp add: bs optional_parts_def)
  moreover have "\<exists>j. read_pairs_part bs (?m5, length ?p5) = Ok (overlay_pairs n ?m5, j)"
    using read_pairs_part_eq [of ?m5 n "length ?p5" ?p5] s by (simp add: bs optional_parts_def)
  ultimately show ?thesis
    using assms(2) by (auto simp: read_needle_data_def overlay_def bs_def [symmetric])
qed

lemma read_needle_data_Nil: "read_needle_data m [] = Ok m"
  by (simp add: read_needle_data_def read_data_part_def read_name_part_def read_mime_part_def
      read_last_modified_part_def read_ttl_part_def read_pairs_part_def)

lemma read_needle_data_payload:
  assumes "sizes_ok n"
  shows "read_needle_data m (payload n) = Ok (overlay n m)"
  using read_needle_data_tail [OF assms, of m "[]"] read_needle_data_Nil [of m]
  by (cases "n_data_size n = 0") (simp_all add: payload_def overlay_def)

text \<open>The needle \<open>read_bytes\<close> returns for the record of \<open>n\<close> when it is called on \<open>m\<close>.\<close>

definition read_back :: "needle \<Rightarrow> needle \<Rightarrow> needle" where
  "read_back n m =
     (overlay n (m\<lparr>n_cookie := n_cookie n, n_id := n_id n, n_size := n_size n\<rparr>))
       \<lparr>n_checksum := n_checksum n\<rparr>"

lemma overlay_data:
  "n_data (overlay n m) = (if n_data_size n = 0 then n_data m else n_data n)"
  by (simp add: overlay_def overlay_defs)

lemma overlay_flags_eq:
  "n_flags (overlay n m) = (if n_data_size n = 0 then n_flags m else n_flags n)"
  by (simp add: overlay_def overlay_defs)

lemma read_back_simps [simp]:
  "n_cookie (read_back n m) = n_cookie n" "n_id (read_back n m) = n_id n"
  "n_size (read_back n m) = n_size n" "n_checksum (read_back n m) = n_checksum n"
  "n_data (read_back n m) = (if n_data_size n = 0 then n_data m else n_data n)"
  "n_flags (read_back n m) = (if n_data_size n = 0 then n_flags m else n_flags n)"
  by (simp_all add: read_back_def overlay_def overlay_defs)

lemma parse_needle_header_record:
  "parse_needle_header m (put_u32 c @ put_u64 i @ put_u32 z @ rest) =
     Ok (m\<lparr>n_cookie := c, n_id := i, n_size := Size z\<rparr>)"
  by (simp add: parse_needle_header_def)

lemma unat_size_ok:
  assumes "sizes_ok n"
  shows "unat (size_val (n_size n)) = length (payload n)"
  using assms by (simp add: sizes_ok_def unat_of_nat_small)

lemma length_needle_record:
  assumes "sizes_ok n"
  shows "length (needle_record n) = unat (actual_size (n_size n))"
  using assms unat_size_ok [OF assms] unat_actual_size [of "n_size n"]
  by (simp add: needle_record_def sizes_ok_def)

lemma size_ok_not_deleted:
  assumes "sizes_ok n"
  shows "\<not> size_is_deleted (n_size n)"
proof -
  have "unat (size_val (n_size n)) < 2 ^ 31"
    using assms unat_size_ok [OF assms] by (simp add: sizes_ok_def)
  moreover have "unat TOMBSTONE_FILE_SIZE = 2 ^ 32 - 1"
    by (simp add: TOMBSTONE_FILE_SIZE_def unsigned_minus_1_eq_mask mask_eq_exp_minus_1)
  ultimately show ?thesis
    by (auto simp: size_is_deleted_def sint_neg_iff)
qed

lemma read_bytes_record:
  assumes "sizes_ok n" and "crc (if n_data_size n = 0 then n_data m else n_data n) = n_checksum n"
  shows "read_bytes crc m (needle_record n) off (n_size n) VERSION2 = Ok (read_back n m)"
proof -
  let ?h = "put_u32 (n_cookie n) @ put_u64 (n_id n) @ put_u32 (size_val (n_size n))"
  let ?t = "put_u32 (n_checksum n) @ replicate (unat (padding_len (n_size n))) 0"
  let ?m = "m\<lparr>n_cookie := n_cookie n, n_id := n_id n, n_size := n_size n\<rparr>"
  note z = unat_size_ok [OF assms(1)]
  have r: "needle_record n = ?h @ payload n @ ?t"
    by (simp add: needle_record_def)
  have h: "parse_needle_header m (needle_record n) = Ok ?m"
    by (simp add: needle_record_def parse_needle_header_record)
  have u: "unat (NEEDLE_HEADER_SIZE + size_val (n_size n)) = 16 + length (payload n)"
    "unat (NEEDLE_HEADER_SIZE + size_val (n_size n) + NEEDLE_CHECKSUM_SIZE)
      = 20 + length (payload n)"
    using assms(1) z by (simp_all add: sizes_ok_def needle_consts unat_word_ariths)
  have "slice (needle_record n) 16 (16 + length (payload n)) =
      (Ok (payload n) :: (bytes, needle_error \<times> needle) result)"
    and "slice (needle_record n) (16 + length (payload n)) (20 + length (payload n)) =
      (Ok (put_u32 (n_checksum n)) :: (bytes, needle_error \<times> needle) result)"
    by (simp_all add: r slice_def)
  then show ?thesis
    using assms read_needle_data_payload [OF assms(1), of ?m]
    by (simp add: read_bytes_def h u Let_def overlay_data read_back_def)
      (auto simp: NEEDLE_HEADER_SIZE_def overlay_data split: if_splits)
qed

text \<open>A file that holds the record of \<open>n\<close> at an offset.\<close>

definition record_at :: "bytes \<Rightarrow> u64 \<Rightarrow> needle \<Rightarrow> bool" where
  "record_at file off n \<longleftrightarrow>
     unat off + length (needle_record n) \<le> length file \<and>
     take (length (needle_record n)) (drop (unat off) file) = needle_record n"

lemma read_data_record:
  assumes "record_at file (actual_offset off) n" and "sizes_ok n"
    and "crc (if n_data_size n = 0 then n_data m else n_data n) = n_checksum n"
  shows "read_data crc m file off (n_size n) VERSION2 = Ok (read_back n m)"
  using assms(1) read_bytes_record [OF assms(2), of crc m, OF assms(3)]
  by (auto simp: read_data_def read_needle_blob_def read_exact_at_def record_at_def
      length_needle_record [OF assms(2)])

lemma record_at_overwrite:
  "record_at (overwrite file (unat off) (needle_record n)) off n"
  by (simp add: record_at_def overwrite_read_back)

lemma record_at_below:
  assumes "record_at file off n" and "unat off + length (needle_record n) \<le> k"
  shows "record_at (overwrite file k bs) off n"
  using assms by (simp add: record_at_def overwrite_disjoint_below)


lemma needle_append_Ok:
  assumes "needle_fits n" and "needle_append s f n off CURRENT_VERSION = Ok (n', s')"
  shows "n' = stored n" and "fs_data s' f = overwrite (fs_data s f) (unat off) (needle_record (stored n))"
proof -
  have "write_all_at s f (needle_record (stored n)) off = Ok s'" and "n' = stored n"
    using assms by (auto simp: needle_append_def append_buf_eq split: result.splits)
  then show "n' = stored n"
    and "fs_data s' f = overwrite (fs_data s f) (unat off) (needle_record (stored n))"
    using write_all_at_Ok_data(1) [of s f "needle_record (stored n)" off s'] by simp_all
qed

subsection \<open>Properties\<close>

text \<open>
  C10: a needle that is appended at an aligned offset below 4 GiB is read back from the file with its
  cookie, id, data and flags and every optional field its flags announce, whatever the file held
  before, for any checksum function.
\<close>

theorem needle_append_read_back:
  assumes "needle_fits n" and "n_checksum n = crc (n_data n)" and "n_data n = [] \<longrightarrow> n_data m = []"
    and "unat off < 2 ^ 32" and "8 dvd unat off"
    and "needle_append s f n off CURRENT_VERSION = Ok (n', s')"
  shows "read_data crc m (fs_data s' f) (offset_from off) (n_size n') VERSION2 = Ok (read_back n' m)"
proof -
  note w = needle_append_Ok [OF assms(1,6)]
  have "n_data (stored n) = n_data n" "n_checksum (stored n) = n_checksum n"
    "n_data_size (stored n) = 0 \<longleftrightarrow> n_data n = []"
    using data_size_zero_iff [OF assms(1)] by (simp_all add: stored_def Let_def)
  then have "crc (if n_data_size (stored n) = 0 then n_data m else n_data (stored n))
      = n_checksum (stored n)"
    using assms(2,3) by simp
  then show ?thesis
    using read_data_record [OF _ sizes_ok_stored [OF assms(1)], of "fs_data s' f" "offset_from off"]
      record_at_overwrite [of "fs_data s f" off "stored n"]
    by (simp add: w actual_offset_from_aligned [OF assms(4,5)])
qed

definition example_needle :: needle where
  "example_needle = needle_default\<lparr>n_cookie := 9, n_id := 7, n_data := [1, 2, 3], n_flags := 58,
     n_name := [97], n_last_modified := 1000, n_ttl := \<lparr>ttl_count = 3, ttl_unit = Day\<rparr>,
     n_pairs := [123, 125], n_checksum := 3\<rparr>"

definition example_fs :: fs where
  "example_fs = \<lparr>fs_names = Map.empty, fs_data = (\<lambda>_. replicate 13 0), fs_readonly = (\<lambda>_. False),
     fs_mtime = (\<lambda>_. 0), fs_next = 1, fs_faults = []\<rparr>"

lemma example_needle_fits: "needle_fits example_needle"
  by (simp add: needle_fits_def example_needle_def needle_default_def)

theorem needle_append_read_back_witness:
  "\<exists>n' s'. needle_append example_fs 0 example_needle 16 CURRENT_VERSION = Ok (n', s') \<and>
     read_data (\<lambda>bs. of_nat (length bs)) needle_default (fs_data s' 0) (offset_from 16) (n_size n') VERSION2
       = Ok (read_back n' needle_default)"
proof -
  let ?r = "needle_append example_fs 0 example_needle 16 CURRENT_VERSION"
  have "is_ok ?r" and "n_checksum example_needle = of_nat (length (n_data example_needle))"
    and "n_data example_needle = [] \<longrightarrow> n_data needle_default = []"
    by code_simp+
  moreover from this obtain n' s' where r: "?r = Ok (n', s')"
    by (cases ?r) auto
  ultimately show ?thesis
    using needle_append_read_back [OF example_needle_fits _ _ _ _ r, of "\<lambda>bs. of_nat (length bs)" needle_default] by auto
qed

text \<open>
  The record \<open>append\<close> writes for a needle is as long as \<open>actual_size\<close> of the size it stores, a
  multiple of eight, and that size is never taken for a deletion mark.
\<close>

theorem needle_record_size:
  assumes "needle_fits n"
  shows "case append_buf n of (n', buf) \<Rightarrow>
    length buf = unat (actual_size (n_size n')) \<and> 8 dvd length buf \<and> \<not> size_is_deleted (n_size n')
    \<and> unat (size_val (n_size n')) + 28 < 2 ^ 31"
proof -
  note k = sizes_ok_stored [OF assms]
  have "unat (size_val (n_size (stored n))) + 28 < 2 ^ 31"
    using k unat_size_ok [OF k] by (simp add: sizes_ok_def)
  then show ?thesis
    using append_buf_eq [OF assms] length_needle_record [OF k] size_ok_not_deleted [OF k]
      actual_size_aligned [of "n_size (stored n)"]
    by simp
qed

theorem needle_record_size_witness:
  "case append_buf example_needle of (n', buf) \<Rightarrow>
    length buf = unat (actual_size (n_size n')) \<and> 8 dvd length buf \<and> \<not> size_is_deleted (n_size n')
    \<and> unat (size_val (n_size n')) + 28 < 2 ^ 31"
  by (rule needle_record_size [OF example_needle_fits])

lemma new_with_fid_display:
  "new_with_fid (key_hash_display key cookie)
     = Ok (needle_default\<lparr>n_id := key, n_cookie := cookie\<rparr>) \<and>
   new_with_fid (key_hash_display key cookie @ ''_'' @ fmt_dec (unat (delta :: u64)))
     = Ok (needle_default\<lparr>n_id := key + delta, n_cookie := cookie\<rparr>)"
proof -
  let ?s = "key_hash_display key cookie" and ?d = "fmt_dec (unat delta)"
  let ?t = "?s @ ''_'' @ ?d"
  have l: "8 < length ?s"
    using length_key_hash_display [of key cookie] by simp
  have n: "CHR ''_'' \<notin> set ?s"
    using key_hash_display_ascii(2) [of "CHR ''_''" key cookie] by blast
  then have f: "str_find CHR ''_'' ?t = Some (length ?s)"
    using str_find_append [OF n, of ?d] by simp
  have "(of_char c :: nat) < 128" if "c \<in> set ?t" for c
    using that key_hash_display_ascii(1) [of c key cookie] fmt_radix_ascii(1) [of 10 c "unat delta"]
    by auto
  then have b: "is_char_boundary ?t i" if "i \<le> length ?t" for i
    using ascii_boundary [of ?t i] that by blast
  have "str_slice ?t 0 (length ?s) = (Ok ?s :: (string, needle_error \<times> needle) result)"
    "str_slice ?t (length ?s + 1) (length ?t) = (Ok ?d :: (string, needle_error \<times> needle) result)"
    using b [of 0] b [of "length ?s"] b [of "length ?s + 1"] b [of "length ?t"]
    by (simp_all add: str_slice_def)
  moreover have "parse_u64 ?d = Ok delta"
    using from_str_radix_fmt [of 10 "unat delta" "2 ^ 64"] unat_less_power(4) [of delta]
    by (simp add: parse_u64_def)
  moreover have "?d \<noteq> []"
    by (simp add: fmt_radix_def)
  ultimately show ?thesis
    using l f n parse_key_hash_display [of key cookie]
    by (simp add: new_with_fid_def parse_path_def str_find_None_iff [THEN iffD2] Let_def
        needle_default_def)
qed

text \<open>
  The key and cookie part of a file id is parsed back into them, and a \<open>_n\<close> suffix adds \<open>n\<close> to the
  key, modulo 2 ^ 64.
\<close>

theorem parse_path_round_trip:
  "new_with_fid (key_hash_display key cookie)
     = Ok (needle_default\<lparr>n_id := key, n_cookie := cookie\<rparr>) \<and>
   new_with_fid (key_hash_display key cookie @ ''_'' @ fmt_dec (unat (delta :: u64)))
     = Ok (needle_default\<lparr>n_id := key + delta, n_cookie := cookie\<rparr>)"
  using new_with_fid_display by blast

text \<open>
  The entity tag of every needle is \<open>0000\<close>: the checksum is appended after the four zero bytes
  that are printed.
\<close>

theorem etag_constant: "etag n = ''0000''"
proof -
  have "fmt_dec 0 = ''0''"
    by code_simp
  then show ?thesis
    by (simp add: etag_def)
qed

end
