(* ===== verification/NeedleMap.thy ===== *)
theory NeedleMap
  imports Needle
begin

section \<open>The needle map\<close>

text \<open>
  \<open>storage/needle/needle_value_map.rs\<close>, \<open>metric.rs\<close> and \<open>needle_map.rs\<close>: the map from needle ids
  to the place of the newest record, its counters and its index file. The concurrent hash map
  behind \<open>MemoryNeedleValueMap\<close> is a map, the insertion-ordered map behind \<open>SortedIndexMap\<close> an
  association list. \<open>needle_value_map\<close> is the contract of the trait both implement; what an
  index file replays to is proved once from that contract. The counters are 64-bit words and
  their invariant holds with wrap-around.
\<close>

record needle_value =
  nv_offset :: offset
  nv_size :: size

lemma nv_collapse [simp]: "\<lparr>nv_offset = nv_offset v, nv_size = nv_size v\<rparr> = (v :: needle_value)"
  by simp

definition needle_value_deleted :: needle_value where
  "needle_value_deleted = \<lparr>nv_offset = Offset 0, nv_size = Size (- 1)\<rparr>"

definition nv_as_bytes :: "needle_value \<Rightarrow> needle_id \<Rightarrow> bytes" where
  "nv_as_bytes v key = put_u64 key @ put_u32 (off_val (nv_offset v)) @ put_u32 (size_val (nv_size v))"

subsection \<open>Counters\<close>

record metric =
  max_file_key :: u64
  file_count :: u64
  deleted_count :: u64
  deleted_bytes :: u64
  file_bytes :: u64

definition metric_default :: metric where
  "metric_default = \<lparr>max_file_key = 0, file_count = 0, deleted_count = 0, deleted_bytes = 0,
     file_bytes = 0\<rparr>"

definition maybe_max_file_key :: "u64 \<Rightarrow> metric \<Rightarrow> metric" where
  "maybe_max_file_key key m = (if max_file_key m < key then m\<lparr>max_file_key := key\<rparr> else m)"

definition add_file :: "size \<Rightarrow> metric \<Rightarrow> metric" where
  "add_file sz m = m\<lparr>file_count := file_count m + 1, file_bytes := file_bytes m + actual_size sz\<rparr>"

definition delete_file :: "size \<Rightarrow> metric \<Rightarrow> metric" where
  "delete_file sz m =
     m\<lparr>deleted_count := deleted_count m + 1, deleted_bytes := deleted_bytes m + actual_size sz\<rparr>"

subsection \<open>The trait \<open>NeedleValueMap\<close> and its implementations\<close>

locale needle_value_map =
  fixes set_nv :: "'m \<Rightarrow> needle_id \<Rightarrow> needle_value \<Rightarrow> 'm \<times> needle_value option"
    and delete_nv :: "'m \<Rightarrow> needle_id \<Rightarrow> 'm \<times> needle_value option"
    and get_nv :: "'m \<Rightarrow> needle_id \<Rightarrow> needle_value option"
    and wf :: "'m \<Rightarrow> bool"
  assumes wf_set: "wf m \<Longrightarrow> wf (fst (set_nv m k v))"
    and wf_delete: "wf m \<Longrightarrow> wf (fst (delete_nv m k))"
    and get_set: "wf m \<Longrightarrow> get_nv (fst (set_nv m k v)) j = (if j = k then Some v else get_nv m j)"
    and get_delete: "wf m \<Longrightarrow> get_nv (fst (delete_nv m k)) j = (if j = k then None else get_nv m j)"
    and set_returns: "wf m \<Longrightarrow> snd (set_nv m k v) = get_nv m k"
    and delete_returns: "wf m \<Longrightarrow> snd (delete_nv m k) = get_nv m k"

type_synonym memory_map = "needle_id \<rightharpoonup> needle_value"

definition memory_map_new :: memory_map where "memory_map_new = Map.empty"

definition memory_map_set ::
    "memory_map \<Rightarrow> needle_id \<Rightarrow> needle_value \<Rightarrow> memory_map \<times> needle_value option" where
  "memory_map_set m key value = (m(key \<mapsto> value), m key)"

definition memory_map_delete :: "memory_map \<Rightarrow> needle_id \<Rightarrow> memory_map \<times> needle_value option" where
  "memory_map_delete m key = (m(key := None), m key)"

definition memory_map_get :: "memory_map \<Rightarrow> needle_id \<Rightarrow> needle_value option" where
  "memory_map_get m key = m key"

type_synonym sorted_index_map = "(needle_id \<times> needle_value) list"

text \<open>\<open>IndexMap::insert\<close> keeps the position of a key it replaces and appends a new one.\<close>

fun index_map_insert :: "needle_id \<Rightarrow> needle_value \<Rightarrow> sorted_index_map \<Rightarrow> sorted_index_map" where
  "index_map_insert key value [] = [(key, value)]"
| "index_map_insert key value ((k, v) # xs) =
     (if k = key then (k, value) # xs else (k, v) # index_map_insert key value xs)"

definition sorted_map_set ::
    "sorted_index_map \<Rightarrow> needle_id \<Rightarrow> needle_value \<Rightarrow> sorted_index_map \<times> needle_value option" where
  "sorted_map_set m key value = (index_map_insert key value m, map_of m key)"

definition sorted_map_delete ::
    "sorted_index_map \<Rightarrow> needle_id \<Rightarrow> sorted_index_map \<times> needle_value option" where
  "sorted_map_delete m key = (filter (\<lambda>e. fst e \<noteq> key) m, map_of m key)"

definition sorted_map_get :: "sorted_index_map \<Rightarrow> needle_id \<Rightarrow> needle_value option" where
  "sorted_map_get m key = map_of m key"

definition sorted_map_wf :: "sorted_index_map \<Rightarrow> bool" where
  "sorted_map_wf m \<longleftrightarrow> distinct (map fst m)"

lemma keys_index_map_insert:
  "fst ` set (index_map_insert k v m) = insert k (fst ` set m)"
  by (induction m rule: index_map_insert.induct) auto

lemma map_of_index_map_insert:
  "map_of (index_map_insert k v m) = (map_of m)(k \<mapsto> v)"
  by (induction m rule: index_map_insert.induct) auto

lemma distinct_index_map_insert:
  "distinct (map fst m) \<Longrightarrow> distinct (map fst (index_map_insert k v m))"
  by (induction m rule: index_map_insert.induct) (auto simp: keys_index_map_insert)

lemma map_of_filter_key:
  "map_of (filter (\<lambda>e. fst e \<noteq> k) m) j = (if j = k then None else map_of m j)"
  by (induction m) auto

interpretation mem: needle_value_map memory_map_set memory_map_delete memory_map_get "\<lambda>_. True"
  by unfold_locales
    (auto simp: memory_map_set_def memory_map_delete_def memory_map_get_def)

interpretation sorted: needle_value_map sorted_map_set sorted_map_delete sorted_map_get sorted_map_wf
  by unfold_locales
    (auto simp: sorted_map_set_def sorted_map_delete_def sorted_map_get_def sorted_map_wf_def
      map_of_index_map_insert distinct_index_map_insert map_of_filter_key distinct_map_filter)

subsection \<open>The index file\<close>

definition read_index_entry :: "bytes \<Rightarrow> (needle_id \<times> offset \<times> size, 'e) result" where
  "read_index_entry buf =
     rbind (get_u64 buf) (\<lambda>(key, buf).
     rbind (get_u32 buf) (\<lambda>(off, buf).
     rbind (get_u32 buf) (\<lambda>(sz, buf).
     Ok (key, Offset off, Size sz))))"

fun walk_entries ::
    "nat \<Rightarrow> bytes \<Rightarrow> (needle_id \<Rightarrow> offset \<Rightarrow> size \<Rightarrow> 'st \<Rightarrow> ('st, needle_error \<times> 'st) result)
      \<Rightarrow> 'st \<Rightarrow> ('st, volume_error \<times> 'st) result" where
  "walk_entries 0 rest walk st = Ok st"
| "walk_entries (Suc k) rest walk st =
     (if length rest < 16 then Err (VIo UnexpectedEof, st)
      else
        rbind (read_index_entry (take 16 rest)) (\<lambda>(key, off, sz).
        case walk key off sz st of
          Ok st' \<Rightarrow> walk_entries k (drop 16 rest) walk st'
        | Err (e, st') \<Rightarrow> Err (VNeedle e, st')
        | Panic \<Rightarrow> Panic))"

definition walk_index_file ::
    "bytes \<Rightarrow> (needle_id \<Rightarrow> offset \<Rightarrow> size \<Rightarrow> 'st \<Rightarrow> ('st, needle_error \<times> 'st) result)
      \<Rightarrow> 'st \<Rightarrow> ('st, volume_error \<times> 'st) result" where
  "walk_index_file f walk st = walk_entries ((length f + 15) div 16) f walk st"

text \<open>What a loader does with one entry, for a map with the operations \<open>set_nv\<close> and \<open>delete_nv\<close>.\<close>

definition entry_is_deleted :: "offset \<Rightarrow> size \<Rightarrow> bool" where
  "entry_is_deleted off sz \<longleftrightarrow> off_val off = 0 \<or> size_is_deleted sz"

definition sorted_map_load_entry ::
    "needle_id \<Rightarrow> offset \<Rightarrow> size \<Rightarrow> sorted_index_map \<Rightarrow> (sorted_index_map, needle_error \<times> sorted_index_map) result"
    where
  "sorted_map_load_entry key off sz m =
     Ok (if entry_is_deleted off sz then fst (sorted_map_delete m key)
         else fst (sorted_map_set m key \<lparr>nv_offset = off, nv_size = sz\<rparr>))"

definition sorted_map_load_from_index ::
    "fs \<Rightarrow> path \<Rightarrow> (sorted_index_map, volume_error) result" where
  "sorted_map_load_from_index s index_filename =
     rbind (map_err VIo (open_read s index_filename)) (\<lambda>i.
     map_err fst (walk_index_file (fs_data s i) sorted_map_load_entry []))"

fun visit_all ::
    "(needle_id \<Rightarrow> needle_value \<Rightarrow> 'st \<Rightarrow> ('st, needle_error \<times> 'st) result) \<Rightarrow> sorted_index_map
      \<Rightarrow> 'st \<Rightarrow> ('st, needle_error \<times> 'st) result" where
  "visit_all visit [] st = Ok st"
| "visit_all visit ((k, v) # es) st = rbind (visit k v st) (visit_all visit es)"

text \<open>The map is left sorted.\<close>

definition ascending_visit ::
    "(needle_id \<Rightarrow> needle_value \<Rightarrow> 'st \<Rightarrow> ('st, needle_error \<times> 'st) result) \<Rightarrow> sorted_index_map
      \<Rightarrow> 'st \<Rightarrow> sorted_index_map \<times> ('st, needle_error \<times> 'st) result" where
  "ascending_visit visit m st = (let m = sort_key fst m in (m, visit_all visit m st))"

subsection \<open>The mapper\<close>

record needle_mapper =
  nm_volume_id :: volume_id
  nm_map :: memory_map
  nm_index_file :: "ino option"
  nm_metric :: metric

definition needle_mapper_new :: "volume_id \<Rightarrow> needle_mapper" where
  "needle_mapper_new vid =
     \<lparr>nm_volume_id = vid, nm_map = memory_map_new, nm_index_file = None,
      nm_metric = metric_default\<rparr>"

definition append_to_index_file ::
    "fs \<Rightarrow> needle_mapper \<Rightarrow> needle_id \<Rightarrow> needle_value \<Rightarrow> (fs, volume_error \<times> fs) result" where
  "append_to_index_file s nm key value =
     (case nm_index_file nm of
        Some i \<Rightarrow>
          map_err (\<lambda>(e, s). (VIo e, s))
            (write_all_at s i (nv_as_bytes value key) (metadata_len (fs_data s i)))
      | None \<Rightarrow> Ok s)"

definition nm_set ::
    "fs \<Rightarrow> needle_mapper \<Rightarrow> needle_id \<Rightarrow> needle_value
      \<Rightarrow> (needle_value option \<times> needle_mapper \<times> fs, volume_error \<times> needle_mapper \<times> fs) result" where
  "nm_set s nm key value =
     (let nm = nm\<lparr>nm_metric := add_file (nv_size value) (maybe_max_file_key key (nm_metric nm))\<rparr>;
          (m, old) = memory_map_set (nm_map nm) key value;
          nm = nm\<lparr>nm_map := m\<rparr>;
          nm = (case old of
                  Some n \<Rightarrow> nm\<lparr>nm_metric := delete_file (nv_size n) (nm_metric nm)\<rparr>
                | None \<Rightarrow> nm)
      in rbind (map_err (\<lambda>(e, s). (e, nm, s)) (append_to_index_file s nm key value)) (\<lambda>s.
         Ok (old, nm, s)))"

definition nm_delete ::
    "fs \<Rightarrow> needle_mapper \<Rightarrow> needle_id
      \<Rightarrow> (needle_value option \<times> needle_mapper \<times> fs, volume_error \<times> needle_mapper \<times> fs) result" where
  "nm_delete s nm key =
     (let (m, deleted) = memory_map_delete (nm_map nm) key;
          nm = nm\<lparr>nm_map := m\<rparr>
      in case deleted of
           Some v \<Rightarrow>
             let nm = nm\<lparr>nm_metric := delete_file (nv_size v) (nm_metric nm)\<rparr> in
             rbind (map_err (\<lambda>(e, s). (e, nm, s)) (append_to_index_file s nm key v)) (\<lambda>s.
             Ok (deleted, nm, s))
         | None \<Rightarrow> Ok (deleted, nm, s))"

definition nm_get :: "needle_mapper \<Rightarrow> needle_id \<Rightarrow> needle_value option" where
  "nm_get nm key = memory_map_get (nm_map nm) key"

definition nm_load_entry ::
    "needle_id \<Rightarrow> offset \<Rightarrow> size \<Rightarrow> needle_mapper \<times> fs
      \<Rightarrow> (needle_mapper \<times> fs, needle_error \<times> needle_mapper \<times> fs) result" where
  "nm_load_entry key off sz = (\<lambda>(nm, s).
     rbind (map_err (\<lambda>(e, st). (NBox e, st))
        (if entry_is_deleted off sz then nm_delete s nm key
         else nm_set s nm key \<lparr>nv_offset = off, nv_size = sz\<rparr>)) (\<lambda>(_, nm, s).
     Ok (nm, s)))"

definition load_index_file ::
    "fs \<Rightarrow> needle_mapper \<Rightarrow> ino \<Rightarrow> (needle_mapper \<times> fs, volume_error \<times> needle_mapper \<times> fs) result" where
  "load_index_file s nm index_file =
     rbind (walk_index_file (fs_data s index_file) nm_load_entry (nm, s)) (\<lambda>(nm, s).
     Ok (nm\<lparr>nm_index_file := Some index_file\<rparr>, s))"

definition index_file_size :: "fs \<Rightarrow> needle_mapper \<Rightarrow> u64" where
  "index_file_size s nm =
     (case nm_index_file nm of Some i \<Rightarrow> metadata_len (fs_data s i) | None \<Rightarrow> 0)"

subsection \<open>What an index file replays to\<close>

type_synonym entry = "needle_id \<times> offset \<times> size"

definition entry_bytes :: "entry \<Rightarrow> bytes" where
  "entry_bytes = (\<lambda>(k, off, sz). nv_as_bytes \<lparr>nv_offset = off, nv_size = sz\<rparr> k)"

definition index_bytes :: "entry list \<Rightarrow> bytes" where
  "index_bytes es = concat (map entry_bytes es)"

definition replay_step :: "memory_map \<Rightarrow> entry \<Rightarrow> memory_map" where
  "replay_step m = (\<lambda>(k, off, sz).
     if entry_is_deleted off sz then m(k := None) else m(k \<mapsto> \<lparr>nv_offset = off, nv_size = sz\<rparr>))"

definition replay :: "entry list \<Rightarrow> memory_map" where
  "replay es = foldl replay_step Map.empty es"

definition apply_entry ::
    "('m \<Rightarrow> needle_id \<Rightarrow> needle_value \<Rightarrow> 'm \<times> needle_value option)
      \<Rightarrow> ('m \<Rightarrow> needle_id \<Rightarrow> 'm \<times> needle_value option) \<Rightarrow> 'm \<Rightarrow> entry \<Rightarrow> 'm" where
  "apply_entry set_nv delete_nv m = (\<lambda>(k, off, sz).
     if entry_is_deleted off sz then fst (delete_nv m k)
     else fst (set_nv m k \<lparr>nv_offset = off, nv_size = sz\<rparr>))"

context needle_value_map begin

lemma wf_apply_entry: "wf m \<Longrightarrow> wf (apply_entry set_nv delete_nv m e)"
  by (cases e) (simp add: apply_entry_def wf_set wf_delete)

lemma get_apply_entry:
  "wf m \<Longrightarrow> get_nv (apply_entry set_nv delete_nv m e) = replay_step (get_nv m) e"
  by (cases e) (auto simp: apply_entry_def replay_step_def get_set get_delete)

lemma get_replay:
  assumes "wf m"
  shows "wf (foldl (apply_entry set_nv delete_nv) m es)"
    and "get_nv (foldl (apply_entry set_nv delete_nv) m es) = foldl replay_step (get_nv m) es"
  using assms by (induction es arbitrary: m) (simp_all add: wf_apply_entry get_apply_entry)

end

lemma length_entry_bytes [simp, size_simps]: "length (entry_bytes e) = 16"
  by (cases e) (simp add: entry_bytes_def nv_as_bytes_def)

lemma length_index_bytes [simp, size_simps]: "length (index_bytes es) = 16 * length es"
  by (induction es) (simp_all add: index_bytes_def)

lemma index_bytes_Cons: "index_bytes (e # es) = entry_bytes e @ index_bytes es"
  by (simp add: index_bytes_def)

lemma index_bytes_snoc: "index_bytes (es @ [e]) = index_bytes es @ entry_bytes e"
  by (simp add: index_bytes_def)

lemma read_index_entry_bytes [codec_simps]: "read_index_entry (entry_bytes e) = Ok e"
  by (cases e) (simp add: read_index_entry_def entry_bytes_def nv_as_bytes_def)

lemma walk_entries_index_bytes:
  assumes "\<And>k off sz st. P st \<Longrightarrow> \<exists>st'. walk k off sz st = Ok st' \<and> P st' \<and> f st' = g (f st) (k, off, sz)"
    and "P st"
  shows "\<exists>st'. walk_entries (length es) (index_bytes es) walk st = Ok st' \<and> P st'
    \<and> f st' = foldl g (f st) es"
  using assms(2)
proof (induction es arbitrary: st)
  case (Cons e es)
  obtain k off sz where e: "e = (k, off, sz)"
    by (cases e)
  obtain st' where "walk k off sz st = Ok st'" and "P st'" and "f st' = g (f st) e"
    using assms(1) [OF Cons.prems] e by blast
  then show ?case
    using Cons.IH [of st'] e by (simp add: index_bytes_Cons read_index_entry_bytes)
qed simp

lemma walk_index_file_bytes:
  assumes "\<And>k off sz st. P st \<Longrightarrow> \<exists>st'. walk k off sz st = Ok st' \<and> P st' \<and> f st' = g (f st) (k, off, sz)"
    and "P st"
  shows "\<exists>st'. walk_index_file (index_bytes es) walk st = Ok st' \<and> P st'
    \<and> f st' = foldl g (f st) es"
proof -
  have "(length (index_bytes es) + 15) div 16 = length es"
    by simp
  then show ?thesis
    using walk_entries_index_bytes [of P walk f g, OF assms]
    by (simp only: walk_index_file_def)
qed

text \<open>A trailing part of an entry makes the walk fail.\<close>

lemma walk_entries_partial:
  assumes "\<And>k off sz st. \<exists>st'. walk k off sz st = Ok st'"
    and "16 * k < length rest + 16" and "length rest < 16 * k"
  shows "\<exists>st'. walk_entries k rest walk st = Err (VIo UnexpectedEof, st')"
  using assms(2,3)
proof (induction k arbitrary: rest st)
  case (Suc k)
  show ?case
  proof (cases "length rest < 16")
    case False
    obtain key off sz where r: "read_index_entry (take 16 rest)
        = (Ok (key, off, sz) :: (entry, volume_error \<times> 'a) result)"
      using False by (simp add: read_index_entry_def get_u64_def get_u32_def)
    obtain st' where "walk key off sz st = Ok st'"
      using assms(1) by blast
    then show ?thesis
      using Suc False by (simp add: r)
  qed simp
qed simp

lemma sorted_map_load_from_index_eq:
  assumes "fs_names s p = Some i" and "fs_data s i = index_bytes es"
  shows "\<exists>m. sorted_map_load_from_index s p = Ok m \<and> sorted_map_wf m \<and> map_of m = replay es"
proof -
  let ?g = "apply_entry sorted_map_set sorted_map_delete"
  have "\<exists>st'. walk_index_file (index_bytes es) sorted_map_load_entry [] = Ok st' \<and> True
      \<and> st' = foldl ?g [] es"
    by (rule walk_index_file_bytes [where f = "\<lambda>x. x"])
      (simp_all add: sorted_map_load_entry_def apply_entry_def)
  moreover have "sorted_map_wf []"
    by (simp add: sorted_map_wf_def)
  ultimately show ?thesis
    using sorted.get_replay [of "[]" es] assms
    by (auto simp: sorted_map_load_from_index_def open_read_def metadata_def sorted_map_get_def [abs_def]
        replay_def)
qed

subsection \<open>The mapper and its index file\<close>

lemma nm_get_def': "nm_get nm = nm_map nm"
  by (simp add: nm_get_def memory_map_get_def fun_eq_iff)

text \<open>The sum of the record sizes of the live needles, in 64 bits.\<close>

definition live_bytes :: "memory_map \<Rightarrow> u64" where
  "live_bytes m = (\<Sum>k\<in>dom m. actual_size (nv_size (the (m k))))"

definition metric_ok :: "needle_mapper \<Rightarrow> bool" where
  "metric_ok nm \<longleftrightarrow> finite (dom (nm_map nm)) \<and>
     file_count (nm_metric nm) = deleted_count (nm_metric nm) + of_nat (card (dom (nm_map nm))) \<and>
     file_bytes (nm_metric nm) = deleted_bytes (nm_metric nm) + live_bytes (nm_map nm) \<and>
     (\<forall>k v. nm_map nm k = Some v \<longrightarrow> k \<le> max_file_key (nm_metric nm))"

lemma live_bytes_update:
  assumes "finite (dom m)"
  shows "live_bytes (m(k := None)) =
      live_bytes m - (case m k of Some v \<Rightarrow> actual_size (nv_size v) | None \<Rightarrow> 0)"
    and "live_bytes (m(k \<mapsto> w)) =
      live_bytes (m(k := None)) + actual_size (nv_size w)"
proof -
  have "(\<Sum>j\<in>dom m - {k}. actual_size (nv_size (the ((m(k := x)) j))))
      = (\<Sum>j\<in>dom m - {k}. actual_size (nv_size (the (m j))))" for x
    by (rule sum.cong) auto
  then show "live_bytes (m(k := None)) =
      live_bytes m - (case m k of Some v \<Rightarrow> actual_size (nv_size v) | None \<Rightarrow> 0)"
    and "live_bytes (m(k \<mapsto> w)) = live_bytes (m(k := None)) + actual_size (nv_size w)"
    using assms sum.remove [of "dom m" k "\<lambda>j. actual_size (nv_size (the (m j)))"]
      sum.insert_remove [of "dom m" "\<lambda>j. actual_size (nv_size (the ((m(k \<mapsto> w)) j)))" k]
    by (auto simp: live_bytes_def split: option.splits)
      (auto simp: domIff insert_absorb)
qed

lemma card_dom_update:
  assumes "finite (dom m)"
  shows "(of_nat (card (dom (m(k := None)))) :: u64) =
      of_nat (card (dom m)) - (case m k of Some v \<Rightarrow> 1 | None \<Rightarrow> 0)"
    and "(of_nat (card (dom (m(k \<mapsto> w)))) :: u64) = of_nat (card (dom (m(k := None)))) + 1"
proof -
  have "card (dom m) = Suc (card (dom m - {k}))" if "m k = Some v" for v
    using that assms by (metis card_Suc_Diff1 domI)
  then show "(of_nat (card (dom (m(k := None)))) :: u64) =
      of_nat (card (dom m)) - (case m k of Some v \<Rightarrow> 1 | None \<Rightarrow> 0)"
    by (auto split: option.splits simp: domIff)
  show "(of_nat (card (dom (m(k \<mapsto> w)))) :: u64) = of_nat (card (dom (m(k := None)))) + 1"
  proof -
    have "dom (m(k \<mapsto> w)) = insert k (dom (m(k := None)))"
      by auto
    moreover have "finite (dom (m(k := None)))" and "k \<notin> dom (m(k := None))"
      using assms by auto
    ultimately show ?thesis
      by (metis (no_types, lifting) add.commute card_insert_disjoint of_nat_Suc)
  qed
qed

lemma append_to_index_file_cases:
  "(\<exists>s'. append_to_index_file s nm k v = Ok s') \<or>
   (\<exists>e s'. append_to_index_file s nm k v = Err (VIo e, s'))"
  by (cases "nm_index_file nm")
    (auto simp: append_to_index_file_def write_all_at_def split: list.splits option.splits)

text \<open>The mapper after \<open>set\<close> and \<open>delete\<close>, whether or not the index file could be written.\<close>

definition nm_after_set :: "needle_mapper \<Rightarrow> needle_id \<Rightarrow> needle_value \<Rightarrow> needle_mapper" where
  "nm_after_set nm key v =
     nm\<lparr>nm_map := (nm_map nm)(key \<mapsto> v),
        nm_metric := (case nm_map nm key of
            Some old \<Rightarrow> delete_file (nv_size old)
          | None \<Rightarrow> id) (add_file (nv_size v) (maybe_max_file_key key (nm_metric nm)))\<rparr>"

definition nm_after_delete :: "needle_mapper \<Rightarrow> needle_id \<Rightarrow> needle_mapper" where
  "nm_after_delete nm key =
     nm\<lparr>nm_map := (nm_map nm)(key := None),
        nm_metric := (case nm_map nm key of
            Some old \<Rightarrow> delete_file (nv_size old)
          | None \<Rightarrow> id) (nm_metric nm)\<rparr>"

lemma nm_set_eq:
  "nm_set s nm k v =
     (case append_to_index_file s nm k v of
        Ok s' \<Rightarrow> Ok (nm_map nm k, nm_after_set nm k v, s')
      | Err (e, s') \<Rightarrow> Err (e, nm_after_set nm k v, s')
      | Panic \<Rightarrow> Panic)"
  by (auto simp: nm_set_def nm_after_set_def memory_map_set_def append_to_index_file_def Let_def
      split: option.splits result.splits)

lemma nm_delete_eq:
  "nm_delete s nm k =
     (case nm_map nm k of
        None \<Rightarrow> Ok (None, nm, s)
      | Some v \<Rightarrow>
         (case append_to_index_file s nm k v of
            Ok s' \<Rightarrow> Ok (Some v, nm_after_delete nm k, s')
          | Err (e, s') \<Rightarrow> Err (e, nm_after_delete nm k, s')
          | Panic \<Rightarrow> Panic))"
  by (auto simp: nm_delete_def nm_after_delete_def memory_map_delete_def append_to_index_file_def
      Let_def fun_upd_idem split: option.splits result.splits)

lemma nm_after_simps [simp]:
  "nm_map (nm_after_set nm k v) = (nm_map nm)(k \<mapsto> v)"
  "nm_index_file (nm_after_set nm k v) = nm_index_file nm"
  "nm_volume_id (nm_after_set nm k v) = nm_volume_id nm"
  "nm_map (nm_after_delete nm k) = (nm_map nm)(k := None)"
  "nm_index_file (nm_after_delete nm k) = nm_index_file nm"
  "nm_volume_id (nm_after_delete nm k) = nm_volume_id nm"
  by (simp_all add: nm_after_set_def nm_after_delete_def)

lemma metric_ok_after_set:
  assumes "metric_ok nm"
  shows "metric_ok (nm_after_set nm k v)"
  using assms live_bytes_update [of "nm_map nm" k] card_dom_update [of "nm_map nm" k]
  by (auto simp: metric_ok_def nm_after_set_def add_file_def delete_file_def
      maybe_max_file_key_def fun_upd_def split: option.splits if_splits
      intro: less_imp_le order.trans)

lemma metric_ok_after_delete:
  assumes "metric_ok nm"
  shows "metric_ok (nm_after_delete nm k)"
  using assms live_bytes_update(1) [of "nm_map nm" k] card_dom_update(1) [of "nm_map nm" k]
  by (auto simp: metric_ok_def nm_after_delete_def delete_file_def split: option.splits if_splits)

lemma nm_load_entry_unlogged:
  assumes "nm_index_file nm = None"
  shows "nm_load_entry k off sz (nm, s) =
    Ok (if entry_is_deleted off sz then (case nm_map nm k of None \<Rightarrow> nm | _ \<Rightarrow> nm_after_delete nm k)
        else nm_after_set nm k \<lparr>nv_offset = off, nv_size = sz\<rparr>, s)"
  using assms
  by (auto simp: nm_load_entry_def nm_set_eq nm_delete_eq append_to_index_file_def
      split: option.splits)

lemma load_index_file_eq:
  assumes "nm_index_file nm = None" and "metric_ok nm" and "fs_data s i = index_bytes es"
  shows "\<exists>nm'. load_index_file s nm i = Ok (nm', s) \<and> nm_map nm' = foldl replay_step (nm_map nm) es
    \<and> nm_index_file nm' = Some i \<and> nm_volume_id nm' = nm_volume_id nm \<and> metric_ok nm'"
proof -
  let ?P = "\<lambda>(nm', s'). nm_index_file nm' = None \<and> s' = s \<and> metric_ok nm'
    \<and> nm_volume_id nm' = nm_volume_id nm"
  have "\<exists>st'. walk_index_file (index_bytes es) nm_load_entry (nm, s) = Ok st' \<and> ?P st'
      \<and> nm_map (fst st') = foldl replay_step (nm_map (fst (nm, s))) es"
  proof (rule walk_index_file_bytes [where f = "\<lambda>st. nm_map (fst st)"])
    fix k off sz st
    assume "?P st"
    then show "\<exists>st'. nm_load_entry k off sz st = Ok st' \<and> ?P st'
        \<and> nm_map (fst st') = replay_step (nm_map (fst st)) (k, off, sz)"
      using metric_ok_after_set [of "fst st" k] metric_ok_after_delete [of "fst st" k]
      by (cases st)
        (auto simp: nm_load_entry_unlogged replay_step_def fun_upd_idem split: option.splits)
  qed (use assms in simp)
  then show ?thesis
    using assms(3) by (auto simp: load_index_file_def metric_ok_def)
qed

lemma metric_ok_new: "metric_ok (needle_mapper_new vid)"
  by (simp add: metric_ok_def needle_mapper_new_def memory_map_new_def metric_default_def
      live_bytes_def)

lemma load_index_file_new:
  assumes "fs_data s i = index_bytes es"
  shows "\<exists>nm'. load_index_file s (needle_mapper_new vid) i = Ok (nm', s) \<and> nm_map nm' = replay es
    \<and> nm_index_file nm' = Some i \<and> nm_volume_id nm' = vid \<and> metric_ok nm'"
  using load_index_file_eq [of "needle_mapper_new vid", OF _ metric_ok_new assms]
  by (simp add: needle_mapper_new_def memory_map_new_def replay_def)

lemma append_to_index_file_Ok:
  assumes "nm_index_file nm = Some i" and "append_to_index_file s nm k v = Ok s'"
    and "fs_data s i = index_bytes es" and "length (index_bytes es) < 2 ^ 64"
  shows "fs_data s' i = index_bytes (es @ [(k, nv_offset v, nv_size v)])"
proof -
  have "unat (metadata_len (index_bytes es)) = length (index_bytes es)"
    unfolding metadata_len_def using assms(4) by (intro unat_of_nat_small) simp
  then show ?thesis
    using assms write_all_at_Ok_data(1) [of s i "nv_as_bytes v k" "metadata_len (fs_data s i)" s']
      overwrite_at_end [of "index_bytes es"]
    by (cases "write_all_at s i (nv_as_bytes v k) (metadata_len (fs_data s i))")
      (auto simp: append_to_index_file_def index_bytes_snoc entry_bytes_def
        nv_as_bytes_def)
qed

lemma replay_snoc: "replay (es @ [e]) = replay_step (replay es) e"
  by (simp add: replay_def)


subsection \<open>Properties\<close>

text \<open>
  C14: the counters of a needle map agree with its contents after every \<open>set\<close> and \<open>delete\<close>, also when
  the index file cannot be written: the file count exceeds the deleted count by the number of live
  needles, the bytes likewise, and the largest key is at least every live key.
\<close>

theorem nm_ops_keep_metric:
  assumes "metric_ok nm"
  shows "(case nm_set s nm k v of
        Ok (old, nm', s') \<Rightarrow> old = nm_get nm k \<and> nm_get nm' = (nm_get nm)(k \<mapsto> v) \<and> metric_ok nm'
      | Err (e, nm', s') \<Rightarrow> nm_get nm' = (nm_get nm)(k \<mapsto> v) \<and> metric_ok nm'
      | Panic \<Rightarrow> False)
    \<and> (case nm_delete s nm k of
        Ok (old, nm', s') \<Rightarrow> old = nm_get nm k \<and> nm_get nm' = (nm_get nm)(k := None) \<and> metric_ok nm'
      | Err (e, nm', s') \<Rightarrow> nm_get nm' = (nm_get nm)(k := None) \<and> metric_ok nm'
      | Panic \<Rightarrow> False)"
  using assms append_to_index_file_cases [of s nm k v]
    append_to_index_file_cases [of s nm k "the (nm_map nm k)"]
    metric_ok_after_set [OF assms, of k v] metric_ok_after_delete [OF assms, of k]
  by (auto simp: nm_set_eq nm_delete_eq nm_get_def' split: option.splits)

definition example_mapper :: needle_mapper where
  "example_mapper = (needle_mapper_new 1)\<lparr>nm_index_file := Some 1\<rparr>"

definition example_value :: needle_value where
  "example_value = \<lparr>nv_offset = Offset 1, nv_size = Size 8\<rparr>"

lemma example_mapper_ok: "metric_ok example_mapper"
  using metric_ok_new [of 1] by (simp add: example_mapper_def metric_ok_def)

theorem nm_ops_keep_metric_witness:
  "(case nm_set (example_fs\<lparr>fs_faults := [Some 3]\<rparr>) example_mapper 7 example_value of
        Ok (old, nm', s') \<Rightarrow> old = nm_get example_mapper 7
          \<and> nm_get nm' = (nm_get example_mapper)(7 \<mapsto> example_value) \<and> metric_ok nm'
      | Err (e, nm', s') \<Rightarrow> nm_get nm' = (nm_get example_mapper)(7 \<mapsto> example_value) \<and> metric_ok nm'
      | Panic \<Rightarrow> False)"
  using nm_ops_keep_metric [OF example_mapper_ok, where s = "example_fs\<lparr>fs_faults := [Some 3]\<rparr>"
      and k = 7 and v = example_value]
  by (rule conjunct1)

text \<open>
  C15: as long as only \<open>set\<close> is used, the index file replays to the needle map: a successful \<open>set\<close> of a
  live value keeps that, and loading the file builds the map again with its counters in order.
\<close>

theorem set_then_load_index:
  assumes "nm_index_file nm = Some i" and "fs_data s i = index_bytes es" and "nm_map nm = replay es"
    and "length (fs_data s i) < 2 ^ 64" and "\<not> entry_is_deleted (nv_offset v) (nv_size v)"
    and "nm_set s nm k v = Ok (old, nm', s')"
  shows "\<exists>nm2. load_index_file s' (needle_mapper_new vid) i = Ok (nm2, s') \<and>
    nm_map nm2 = nm_map nm' \<and> metric_ok nm2"
proof -
  have a: "append_to_index_file s nm k v = Ok s'" and nm': "nm_map nm' = (nm_map nm)(k \<mapsto> v)"
    using assms(6) by (auto simp: nm_set_eq split: result.splits)
  let ?es = "es @ [(k, nv_offset v, nv_size v)]"
  have "fs_data s' i = index_bytes ?es"
    using append_to_index_file_Ok [OF assms(1) a assms(2)] assms(2,4) by simp
  moreover have "replay ?es = nm_map nm'"
    using assms(3,5) by (simp add: replay_snoc replay_step_def nm')
  ultimately show ?thesis
    using load_index_file_new [of s' i ?es vid] by auto
qed

theorem set_then_load_index_witness:
  "\<exists>old nm' s' nm2. nm_set (example_fs\<lparr>fs_data := \<lambda>_. []\<rparr>) example_mapper 7 example_value = Ok (old, nm', s')
     \<and> load_index_file s' (needle_mapper_new 1) 1 = Ok (nm2, s') \<and> nm_map nm2 = nm_map nm' \<and> metric_ok nm2"
proof -
  let ?s = "example_fs\<lparr>fs_data := \<lambda>_. []\<rparr>"
  obtain old nm' s' where r: "nm_set ?s example_mapper 7 example_value = Ok (old, nm', s')"
    by (simp add: nm_set_eq append_to_index_file_def example_mapper_def example_fs_def write_all_at_def)
  have "\<not> entry_is_deleted (nv_offset example_value) (nv_size example_value)"
    by code_simp
  then show ?thesis
    using set_then_load_index [OF _ _ _ _ _ r, of 1 "[]" 1] r
    by (auto simp: example_mapper_def index_bytes_def replay_def needle_mapper_new_def memory_map_new_def)
qed

text \<open>
  C33: a deletion is not recorded: \<open>delete\<close> appends the value it removed instead of a deletion mark,
  so loading the index file afterwards brings the needle back.
\<close>

theorem delete_then_load_index:
  assumes "nm_index_file nm = Some i" and "fs_data s i = index_bytes es" and "nm_map nm = replay es"
    and "length (fs_data s i) < 2 ^ 64" and "nm_map nm k = Some v"
    and "\<not> entry_is_deleted (nv_offset v) (nv_size v)"
    and "nm_delete s nm k = Ok (old, nm', s')"
  shows "nm_get nm' k = None \<and>
    (\<exists>nm2. load_index_file s' (needle_mapper_new vid) i = Ok (nm2, s') \<and> nm_get nm2 = nm_get nm)"
proof -
  have a: "append_to_index_file s nm k v = Ok s'" and nm': "nm_map nm' = (nm_map nm)(k := None)"
    using assms(5,7) by (auto simp: nm_delete_eq split: result.splits)
  let ?es = "es @ [(k, nv_offset v, nv_size v)]"
  have "fs_data s' i = index_bytes ?es"
    using append_to_index_file_Ok [OF assms(1) a assms(2)] assms(2,4) by simp
  moreover have "replay ?es = nm_map nm"
    using assms(3,5,6) by (simp add: replay_snoc replay_step_def fun_upd_idem)
  ultimately show ?thesis
    using load_index_file_new [of s' i ?es vid] by (auto simp: nm_get_def' nm')
qed

definition example_entry :: entry where
  "example_entry = (7, Offset 1, Size 8)"

theorem delete_then_load_index_witness:
  "\<exists>old nm' s' nm2.
     nm_delete (example_fs\<lparr>fs_data := \<lambda>_. index_bytes [example_entry]\<rparr>)
       (nm_after_set example_mapper 7 example_value) 7 = Ok (old, nm', s')
     \<and> nm_get nm' 7 = None
     \<and> load_index_file s' (needle_mapper_new 1) 1 = Ok (nm2, s') \<and> nm_get nm2 7 = Some example_value"
proof -
  let ?s = "example_fs\<lparr>fs_data := \<lambda>_. index_bytes [example_entry]\<rparr>"
  let ?nm = "nm_after_set example_mapper 7 example_value"
  obtain old nm' s' where r: "nm_delete ?s ?nm 7 = Ok (old, nm', s')"
    by (simp add: nm_delete_eq append_to_index_file_def example_mapper_def example_fs_def write_all_at_def)
  have "\<not> entry_is_deleted (nv_offset example_value) (nv_size example_value)"
    and e: "\<not> entry_is_deleted (Offset 1) (Size 8)"
    by code_simp+
  moreover have "nm_map ?nm = replay [example_entry]" and "replay [example_entry] 7 = Some example_value"
    using e by (simp_all add: example_mapper_def needle_mapper_new_def memory_map_new_def replay_def
        replay_step_def example_entry_def example_value_def)
  ultimately show ?thesis
    using delete_then_load_index [OF _ _ _ _ _ _ r, of 1 "[example_entry]" example_value 1] r
    by (auto simp: nm_get_def' example_mapper_def)
qed

text \<open>
  C30. An index file whose length is not a multiple of sixteen makes its walk fail with an unexpected
  end of file, after the complete entries have been walked.
\<close>

theorem walk_index_file_partial:
  assumes "\<not> 16 dvd length f" and "\<And>k off sz st. \<exists>st'. walk k off sz st = Ok st'"
  shows "\<exists>st'. walk_index_file f walk st = Err (VIo UnexpectedEof, st')"
  unfolding walk_index_file_def
  by (rule walk_entries_partial) (use assms in \<open>blast | presburger\<close>)+

theorem walk_index_file_partial_witness:
  "walk_index_file (index_bytes [example_entry] @ [1, 2]) (\<lambda>k off sz st. Ok (k # st)) []
     = Err (VIo UnexpectedEof, [7])"
proof -
  let ?f = "index_bytes [example_entry] @ [1, 2]"
  obtain st where "walk_index_file ?f (\<lambda>k off sz st. Ok (k # st)) [] = Err (VIo UnexpectedEof, st)"
    using walk_index_file_partial [of ?f "\<lambda>k off sz st. Ok (k # st)" "[]"] by auto
  moreover have "walk_index_file ?f (\<lambda>k off sz st. Ok (k # st)) [] = Err (VIo UnexpectedEof, [7])"
    by code_simp
  ultimately show ?thesis
    by simp
qed

text \<open>
  The sorted index map of an index file holds what the file replays to, and visiting it goes
  through its entries in ascending order of their keys, each live key once.
\<close>

theorem sorted_index_map_visits_ascending:
  assumes "fs_names s p = Some i" and "fs_data s i = index_bytes es"
  shows "\<exists>m. sorted_map_load_from_index s p = Ok m \<and>
    (\<exists>m'. ascending_visit (\<lambda>k v st. Ok (st @ [(k, v)])) m [] = (m', Ok m') \<and>
      sorted (map fst m') \<and> distinct (map fst m') \<and> map_of m' = replay es)"
proof -
  obtain m where m: "sorted_map_load_from_index s p = Ok m" "distinct (map fst m)" "map_of m = replay es"
    using sorted_map_load_from_index_eq [OF assms] by (auto simp: sorted_map_wf_def)
  let ?m = "sort_key fst m"
  have v: "visit_all (\<lambda>k v st. Ok (st @ [(k, v)])) es st = Ok (st @ es)" for es st
    by (induction es arbitrary: st) auto
  have d: "distinct (map fst ?m)"
    using m(2) by (simp add: distinct_map inj_on_def)
  have "set ?m = set m"
    by simp
  then have "map_of ?m = map_of m"
    using d m(2) map_of_inject_set by blast
  then show ?thesis
    using m d by (auto simp: ascending_visit_def v Let_def)
qed

theorem sorted_index_map_visits_ascending_witness:
  "\<exists>m. sorted_map_load_from_index
      (example_fs\<lparr>fs_names := [''x'' \<mapsto> 0], fs_data := \<lambda>_. index_bytes [example_entry]\<rparr>) ''x'' = Ok m \<and>
    (\<exists>m'. ascending_visit (\<lambda>k v st. Ok (st @ [(k, v)])) m [] = (m', Ok m') \<and>
      sorted (map fst m') \<and> distinct (map fst m') \<and> map_of m' = replay [example_entry])"
  by (rule sorted_index_map_visits_ascending) simp_all

end
