(* ===== verification/ReplicaPlacement.thy ===== *)
theory ReplicaPlacement
  imports Errors
begin

section \<open>Replica placement\<close>

text \<open>
  \<open>storage/volume/replica_placement.rs\<close>: three counts, their text \<open>xyz\<close> and their byte. The
  constructor subtracts \<open>b'0'\<close> from each byte without a check that it is a digit, and the sums
  are taken in \<open>u8\<close>.
\<close>

record replica_placement =
  same_rack_count :: u8
  diff_rack_count :: u8
  diff_data_center_count :: u8

definition rp_default :: replica_placement where
  "rp_default = \<lparr>same_rack_count = 0, diff_rack_count = 0, diff_data_center_count = 0\<rparr>"

definition byte_of_char :: "char \<Rightarrow> u8" where
  "byte_of_char c = of_nat (of_char c)"

definition rp_new :: "string \<Rightarrow> (replica_placement, volume_error) result" where
  "rp_new s =
     (if length s \<noteq> 3 then Err (VReplicaPlacement s)
      else Ok \<lparr>same_rack_count = byte_of_char (s ! 2) - 48,
               diff_rack_count = byte_of_char (s ! 1) - 48,
               diff_data_center_count = byte_of_char (s ! 0) - 48\<rparr>)"

definition rp_from_u8 :: "u8 \<Rightarrow> (replica_placement, volume_error) result" where
  "rp_from_u8 u = rp_new (zero_pad 3 (fmt_dec (unat u)))"

definition copy_count :: "replica_placement \<Rightarrow> nat" where
  "copy_count rp =
     unat (diff_data_center_count rp + diff_rack_count rp + same_rack_count rp + 1)"

definition rp_into_u8 :: "replica_placement \<Rightarrow> u8" where
  "rp_into_u8 rp =
     diff_data_center_count rp * 100 + diff_rack_count rp * 10 + same_rack_count rp"

definition rp_display :: "replica_placement \<Rightarrow> string" where
  "rp_display rp =
     fmt_dec (unat (diff_data_center_count rp)) @ fmt_dec (unat (diff_rack_count rp))
       @ fmt_dec (unat (same_rack_count rp))"

subsection \<open>Counts that are digits\<close>

definition rp_digits :: "replica_placement \<Rightarrow> bool" where
  "rp_digits rp \<longleftrightarrow> unat (same_rack_count rp) \<le> 9 \<and> unat (diff_rack_count rp) \<le> 9
     \<and> unat (diff_data_center_count rp) \<le> 9"

lemma byte_of_digit_char:
  assumes "d \<le> 9"
  shows "byte_of_char (digit_char d) - 48 = of_nat d"
  using assms by (simp add: byte_of_char_def of_char_digit_char)

lemma fmt_dec_digit: "d < 10 \<Longrightarrow> fmt_dec d = [digit_char d]"
  by (simp add: fmt_radix_def radix_digits.simps)

lemma zero_pad_three:
  assumes "n < 1000"
  shows "zero_pad 3 (fmt_dec n) = map digit_char [n div 100, n div 10 mod 10, n mod 10]"
proof -
  have z: "CHR ''0'' = digit_char 0"
    by (rule iffD1 [OF of_char_eq_iff [where 'a = nat]]) (simp add: of_char_digit_char)
  consider "n < 10" | "10 \<le> n" "n < 100" | "100 \<le> n"
    by linarith
  then show ?thesis
    using assms
    by cases (auto simp: zero_pad_def fmt_radix_def radix_digits.simps z numeral_2_eq_2
        numeral_3_eq_3 div_mult2_eq [symmetric])
qed

lemma rp_new_digits:
  assumes "x \<le> 9" and "y \<le> 9" and "z \<le> 9"
  shows "rp_new (map digit_char [x, y, z]) =
    Ok \<lparr>same_rack_count = of_nat z, diff_rack_count = of_nat y, diff_data_center_count = of_nat x\<rparr>"
  using assms by (simp add: rp_new_def byte_of_digit_char numeral_2_eq_2)

lemma copy_count_digits:
  assumes "rp_digits rp"
  shows "copy_count rp = unat (diff_data_center_count rp) + unat (diff_rack_count rp)
    + unat (same_rack_count rp) + 1"
  using assms by (simp add: copy_count_def rp_digits_def unat_word_ariths)

lemma rp_display_new:
  assumes "rp_digits rp"
  shows "rp_new (rp_display rp) = Ok rp"
  using assms rp_new_digits [of "unat (diff_data_center_count rp)" "unat (diff_rack_count rp)"
      "unat (same_rack_count rp)"]
  by (simp add: rp_display_def rp_digits_def fmt_dec_digit)

lemma three_digits:
  fixes n :: nat
  assumes "n < 256"
  shows "n div 100 \<le> 9" and "n div 10 mod 10 \<le> 9" and "n mod 10 \<le> 9"
    and "n div 100 * 100 + n div 10 mod 10 * 10 + n mod 10 = n"
proof -
  have "n div 100 < 10"
    using assms by (intro less_mult_imp_div_less) simp
  then show "n div 100 \<le> 9"
    by simp
  show "n div 10 mod 10 \<le> 9" and "n mod 10 \<le> 9"
    using mod_less_divisor [of 10 "n div 10"] mod_less_divisor [of 10 n] by simp_all
  have "n div 10 div 10 = n div 100"
    by (simp add: div_mult2_eq [symmetric])
  then show "n div 100 * 100 + n div 10 mod 10 * 10 + n mod 10 = n"
    using div_mult_mod_eq [of n 10] div_mult_mod_eq [of "n div 10" 10] by linarith
qed

lemma digits_of_sum:
  fixes x y z :: nat
  assumes "y \<le> 9" and "z \<le> 9"
  shows "(x * 100 + y * 10 + z) div 100 = x" and "(x * 100 + y * 10 + z) div 10 mod 10 = y"
    and "(x * 100 + y * 10 + z) mod 10 = z"
proof -
  have e: "x * 100 + y * 10 + z = z + (y + x * 10) * 10"
    by simp
  have d: "(x * 100 + y * 10 + z) div 10 = y + x * 10"
    using assms unfolding e by simp
  have "(x * 100 + y * 10 + z) div 100 = (x * 100 + y * 10 + z) div 10 div 10"
    by (simp add: div_mult2_eq [symmetric])
  then show "(x * 100 + y * 10 + z) div 100 = x"
    using assms by (simp add: d)
  show "(x * 100 + y * 10 + z) div 10 mod 10 = y"
    using assms by (simp add: d)
  show "(x * 100 + y * 10 + z) mod 10 = z"
    unfolding e mod_mult_self1 using assms by simp
qed

lemma rp_from_u8_ok: "\<exists>rp. rp_from_u8 u = Ok rp \<and> rp_digits rp \<and> rp_into_u8 rp = u"
proof -
  define n where "n = unat u"
  note d = three_digits [OF unat_less_power(1) [of u], folded n_def]
  have "u = of_nat n"
    by (simp add: n_def)
  then have "u = of_nat (n div 100) * 100 + of_nat (n div 10 mod 10) * 10 + of_nat (n mod 10)"
    using arg_cong [OF d(4), of "of_nat :: nat \<Rightarrow> u8"] by simp
  moreover have "rp_from_u8 u = Ok \<lparr>same_rack_count = of_nat (n mod 10),
      diff_rack_count = of_nat (n div 10 mod 10), diff_data_center_count = of_nat (n div 100)\<rparr>"
    using rp_new_digits [OF d(1-3)] zero_pad_three [of n] unat_less_power(1) [of u]
    by (simp add: rp_from_u8_def n_def)
  ultimately show ?thesis
    using d(1-3) by (simp add: rp_into_u8_def rp_digits_def unat_of_nat mod_less)
qed


subsection \<open>Properties\<close>

text \<open>
  Every byte is the encoding of a replica placement with digits for counts: reading it never
  fails, and writing the placement gives the byte back.
\<close>

theorem rp_u8_round_trip: "\<exists>rp. rp_from_u8 u = Ok rp \<and> rp_digits rp \<and> rp_into_u8 rp = u"
  by (rule rp_from_u8_ok)

text \<open>
  A placement whose counts are digits is printed and parsed back unchanged, and a volume with it
  has one more copy than the sum of its counts.
\<close>

theorem rp_text_round_trip:
  assumes "rp_digits rp"
  shows "rp_new (rp_display rp) = Ok rp \<and>
    copy_count rp = unat (diff_data_center_count rp) + unat (diff_rack_count rp)
      + unat (same_rack_count rp) + 1"
  using rp_display_new [OF assms] copy_count_digits [OF assms] by simp

theorem rp_text_round_trip_witness:
  "rp_new ''211'' = Ok \<lparr>same_rack_count = 1, diff_rack_count = 1, diff_data_center_count = 2\<rparr> \<and>
   copy_count \<lparr>same_rack_count = 1, diff_rack_count = 1, diff_data_center_count = 2\<rparr> = 5"
proof -
  let ?rp = "\<lparr>same_rack_count = 1, diff_rack_count = 1, diff_data_center_count = 2\<rparr>"
  have "rp_digits ?rp" and "rp_display ?rp = ''211''"
    by code_simp+
  then show ?thesis
    using rp_text_round_trip [of ?rp] by simp
qed

end
