(* ===== verification/Volume.thy ===== *)
theory Volume
  imports NeedleMap ReplicaPlacement
begin

section \<open>Volumes\<close>

text \<open>
  \<open>storage/volume/mod.rs\<close> and \<open>storage/volume/checking.rs\<close>: a volume is a data file of records
  behind a super block, with a needle map and its index file. An operation is a function of the
  file system and the volume and returns both after it, also when it fails; the locks make each
  of them one step. \<open>now\<close> is the clock the operation reads, \<open>crc\<close> the checksum function.
\<close>

definition SUPER_BLOCK_SIZE :: nat where "SUPER_BLOCK_SIZE = 8"

record super_block =
  sb_version :: version
  sb_replica_placement :: replica_placement
  sb_ttl :: ttl
  sb_compact_revision :: u16

definition super_block_default :: super_block where
  "super_block_default =
     \<lparr>sb_version = CURRENT_VERSION, sb_replica_placement = rp_default, sb_ttl = ttl_default,
      sb_compact_revision = 0\<rparr>"

text \<open>The argument is an array of eight bytes.\<close>

definition super_block_parse :: "bytes \<Rightarrow> (super_block, volume_error) result" where
  "super_block_parse buf =
     rbind (rp_from_u8 (buf ! 1)) (\<lambda>rp.
     rbind (slice buf 2 4) (\<lambda>tb.
     rbind (map_err VTtl (ttl_from_bytes tb)) (\<lambda>t.
     rbind (slice buf 4 6) (\<lambda>cb.
     rbind (get_u16 cb) (\<lambda>(rev, _).
     Ok \<lparr>sb_version = buf ! 0, sb_replica_placement = rp, sb_ttl = t,
         sb_compact_revision = rev\<rparr>)))))"

definition super_block_as_bytes :: "super_block \<Rightarrow> bytes" where
  "super_block_as_bytes sb =
     [sb_version sb, rp_into_u8 (sb_replica_placement sb)] @ ttl_as_bytes (sb_ttl sb)
       @ put_u16 (sb_compact_revision sb) @ [0, 0]"

text \<open>\<open>fetch_add\<close>: the previous value is returned.\<close>

definition add_compact_revision :: "super_block \<Rightarrow> u16 \<Rightarrow> super_block \<times> u16" where
  "add_compact_revision sb revision =
     (sb\<lparr>sb_compact_revision := sb_compact_revision sb + revision\<rparr>, sb_compact_revision sb)"

record volume =
  v_id :: volume_id
  v_dir :: string
  v_collection :: string
  v_data_file :: "ino option"
  v_needle_mapper :: "needle_mapper option"
  v_super_block :: super_block
  v_no_write_or_delete :: bool
  v_no_write_can_delete :: bool
  v_is_compacting :: bool
  v_last_modified :: u64
  v_last_compact_index_offset :: u64
  v_last_compact_revision :: u16

type_synonym 'a vol_result = "('a \<times> volume \<times> fs, volume_error \<times> volume \<times> fs) result"

subsection \<open>Names and accessors\<close>

definition volume_filename :: "volume \<Rightarrow> string" where
  "volume_filename v =
     (let dirname = (if v_dir v \<noteq> [] \<and> last (v_dir v) = CHR ''/'' then v_dir v else v_dir v @ ''/'') in
      if v_collection v = [] then dirname @ fmt_dec (unat (v_id v))
      else dirname @ v_collection v @ ''_'' @ fmt_dec (unat (v_id v)))"

definition data_filename :: "volume \<Rightarrow> string" where
  "data_filename v = volume_filename v @ ''.dat''"

definition index_filename :: "volume \<Rightarrow> string" where
  "index_filename v = volume_filename v @ ''.idx''"

definition volume_readonly :: "volume \<Rightarrow> bool" where
  "volume_readonly v \<longleftrightarrow> v_no_write_or_delete v \<or> v_no_write_can_delete v"

definition volume_version :: "volume \<Rightarrow> version" where
  "volume_version v = sb_version (v_super_block v)"

definition volume_data_file :: "volume \<Rightarrow> (ino, volume_error) result" where
  "volume_data_file v =
     (case v_data_file v of Some f \<Rightarrow> Ok f | None \<Rightarrow> Err (VNotLoad (v_id v)))"

definition volume_needle_mapper :: "volume \<Rightarrow> (needle_mapper, volume_error) result" where
  "volume_needle_mapper v =
     (case v_needle_mapper v of Some nm \<Rightarrow> Ok nm | None \<Rightarrow> Err (VNeedleMapperNotLoad (v_id v)))"

definition volume_data_file_size :: "fs \<Rightarrow> volume \<Rightarrow> (u64, volume_error) result" where
  "volume_data_file_size s v = rbind (volume_data_file v) (\<lambda>f. Ok (metadata_len (fs_data s f)))"

definition volume_counter :: "(needle_mapper \<Rightarrow> u64) \<Rightarrow> volume \<Rightarrow> u64" where
  "volume_counter f v = (case volume_needle_mapper v of Ok nm \<Rightarrow> f nm | _ \<Rightarrow> 0)"

definition volume_deleted_bytes :: "volume \<Rightarrow> u64" where
  "volume_deleted_bytes = volume_counter (\<lambda>nm. deleted_bytes (nm_metric nm))"

definition volume_deleted_count :: "volume \<Rightarrow> u64" where
  "volume_deleted_count = volume_counter (\<lambda>nm. deleted_count (nm_metric nm))"

definition volume_max_file_key :: "volume \<Rightarrow> u64" where
  "volume_max_file_key = volume_counter (\<lambda>nm. max_file_key (nm_metric nm))"

definition volume_file_count :: "volume \<Rightarrow> u64" where
  "volume_file_count = volume_counter (\<lambda>nm. file_count (nm_metric nm))"

definition volume_content_size :: "volume \<Rightarrow> u64" where
  "volume_content_size = volume_counter (\<lambda>nm. file_bytes (nm_metric nm))"

definition volume_index_file_size :: "fs \<Rightarrow> volume \<Rightarrow> u64" where
  "volume_index_file_size s = volume_counter (index_file_size s)"

subsection \<open>Index operations\<close>

definition set_index ::
    "fs \<Rightarrow> volume \<Rightarrow> needle_id \<Rightarrow> needle_value \<Rightarrow> needle_value option vol_result" where
  "set_index s v key value =
     rbind (map_err (\<lambda>e. (e, v, s)) (volume_needle_mapper v)) (\<lambda>nm.
     case nm_set s nm key value of
       Ok (old, nm, s) \<Rightarrow> Ok (old, v\<lparr>v_needle_mapper := Some nm\<rparr>, s)
     | Err (e, nm, s) \<Rightarrow> Err (e, v\<lparr>v_needle_mapper := Some nm\<rparr>, s)
     | Panic \<Rightarrow> Panic)"

definition get_index :: "volume \<Rightarrow> needle_id \<Rightarrow> (needle_value option, volume_error) result" where
  "get_index v key = rbind (volume_needle_mapper v) (\<lambda>nm. Ok (nm_get nm key))"

definition delete_index ::
    "fs \<Rightarrow> volume \<Rightarrow> needle_id \<Rightarrow> needle_value option vol_result" where
  "delete_index s v key =
     rbind (map_err (\<lambda>e. (e, v, s)) (volume_needle_mapper v)) (\<lambda>nm.
     case nm_delete s nm key of
       Ok (old, nm, s) \<Rightarrow> Ok (old, v\<lparr>v_needle_mapper := Some nm\<rparr>, s)
     | Err (e, nm, s) \<Rightarrow> Err (e, v\<lparr>v_needle_mapper := Some nm\<rparr>, s)
     | Panic \<Rightarrow> Panic)"

subsection \<open>Reading, writing and deleting needles\<close>

definition append_needle_at :: "bytes \<Rightarrow> u64" where
  "append_needle_at file =
     (let off = metadata_len file; p = ucast NEEDLE_PADDING_SIZE in
      if off mod p \<noteq> 0 then off + (p - off mod p) else off)"

definition write_needle ::
    "fs \<Rightarrow> volume \<Rightarrow> needle
      \<Rightarrow> (nat \<times> needle \<times> volume \<times> fs, volume_error \<times> needle \<times> volume \<times> fs) result" where
  "write_needle s v n =
     (if volume_readonly v then Err (VReadonly (v_id v), n, v, s)
      else
        let version = volume_version v in
        rbind (map_err (\<lambda>e. (e, n, v, s)) (volume_data_file v)) (\<lambda>file.
        let offset = append_needle_at (fs_data s file) in
        case needle_append s file n offset version of
          Panic \<Rightarrow> Panic
        | Err (e, n, s) \<Rightarrow> Err (VNeedle e, n, v, ftruncate s file offset)
        | Ok (n, s) \<Rightarrow>
            let value = \<lparr>nv_offset = offset_from offset, nv_size = n_size n\<rparr> in
            rbind (map_err (\<lambda>(e, v, s). (e, n, v, s)) (set_index s v (n_id n) value)) (\<lambda>(_, v, s).
            let v = (if v_last_modified v < n_last_modified n
                     then v\<lparr>v_last_modified := n_last_modified n\<rparr> else v) in
            Ok (data_size n, n, v, s))))"

definition delete_needle ::
    "fs \<Rightarrow> volume \<Rightarrow> needle
      \<Rightarrow> (nat \<times> needle \<times> volume \<times> fs, volume_error \<times> needle \<times> volume \<times> fs) result" where
  "delete_needle s v n =
     (if volume_readonly v then Err (VReadonly (v_id v), n, v, s)
      else
        rbind (map_err (\<lambda>e. (e, n, v, s)) (get_index v (n_id n))) (\<lambda>found.
        case found of
          None \<Rightarrow> Ok (0, n, v, s)
        | Some _ \<Rightarrow>
            let version = volume_version v in
            rbind (map_err (\<lambda>e. (e, n, v, s)) (volume_data_file v)) (\<lambda>file.
            let offset = append_needle_at (fs_data s file) in
            case needle_append s file n offset version of
              Panic \<Rightarrow> Panic
            | Err (e, n, s) \<Rightarrow> Err (VNeedle e, n, v, s)
            | Ok (n, s) \<Rightarrow>
                rbind (map_err (\<lambda>(e, v, s). (e, n, v, s)) (delete_index s v (n_id n))) (\<lambda>(_, v, s).
                Ok (data_size n, n, v, s)))))"

definition read_needle ::
    "(bytes \<Rightarrow> u32) \<Rightarrow> u64 \<Rightarrow> fs \<Rightarrow> volume \<Rightarrow> needle \<Rightarrow> (nat \<times> needle, volume_error \<times> needle) result" where
  "read_needle crc now s v n =
     rbind (map_err (\<lambda>e. (e, n)) (get_index v (n_id n))) (\<lambda>found.
     case found of
       Some nv \<Rightarrow>
         if off_val (nv_offset nv) = 0 \<or> size_is_deleted (nv_size nv)
         then Err (VNeedle (NDeleted (v_id v) (n_id n)), n)
         else
           rbind (map_err (\<lambda>e. (e, n)) (volume_data_file v)) (\<lambda>file.
           rbind (map_err (\<lambda>(e, n). (VNeedle e, n))
              (read_data crc n (fs_data s file) (nv_offset nv) (nv_size nv) (volume_version v))) (\<lambda>n.
           if \<not> has_ttl n then Ok (data_size n, n)
           else
             let minutes = ttl_minutes (n_ttl n) in
             if minutes = 0 then Ok (data_size n, n)
             else if \<not> has_last_modified_date n then Ok (data_size n, n)
             else if now < n_last_modified n + ucast minutes * 60 then Ok (data_size n, n)
             else Err (VNeedle (NExpired (v_id v) (n_id n)), n)))
     | None \<Rightarrow> Err (VNeedle (NNotFound (n_id n)), n))"

subsection \<open>Integrity checks\<close>

definition verify_index_file_integrity :: "bytes \<Rightarrow> (u64, volume_error) result" where
  "verify_index_file_integrity index_file =
     (let sz = metadata_len index_file in
      if sz mod ucast NEEDLE_INDEX_SIZE \<noteq> 0
      then Err (VDataIntegrity
        (''index file'' @ [CHR 0x27] @ ''s size is '' @ fmt_dec (unat sz) @ '' bytes, maybe corrupted''))
      else Ok sz)"

definition read_index_entry_at_offset :: "bytes \<Rightarrow> u64 \<Rightarrow> (bytes, volume_error) result" where
  "read_index_entry_at_offset index_file offset =
     map_err VIo (read_exact_at index_file (unat NEEDLE_INDEX_SIZE) offset)"

definition verify_needle_integrity ::
    "(bytes \<Rightarrow> u32) \<Rightarrow> bytes \<Rightarrow> version \<Rightarrow> needle_id \<Rightarrow> offset \<Rightarrow> size \<Rightarrow> (unit, volume_error) result" where
  "verify_needle_integrity crc data_file version key off sz =
     rbind (map_err (\<lambda>(e, _). VNeedle e) (read_data crc needle_default data_file off sz version)) (\<lambda>n.
     if n_id n \<noteq> key
     then Err (VDataIntegrity (''index key '' @ fmt_dec (unat key) @ '' does not match needle''
        @ [CHR 0x27] @ ''s id '' @ fmt_dec (unat (n_id n))))
     else Ok ())"

definition check_volume_data_integrity ::
    "(bytes \<Rightarrow> u32) \<Rightarrow> fs \<Rightarrow> volume \<Rightarrow> ino \<Rightarrow> (unit, volume_error) result" where
  "check_volume_data_integrity crc s v index_file =
     rbind (verify_index_file_integrity (fs_data s index_file)) (\<lambda>index_size.
     if index_size = 0 then Ok ()
     else
       rbind (read_index_entry_at_offset (fs_data s index_file)
                (index_size - ucast NEEDLE_INDEX_SIZE)) (\<lambda>entry.
       rbind (read_index_entry entry) (\<lambda>(key, off, sz).
       if off_val off = 0 \<or> size_is_deleted sz then Ok ()
       else
         rbind (volume_data_file v) (\<lambda>file.
         verify_needle_integrity crc (fs_data s file) (volume_version v) key off sz))))"

subsection \<open>Loading\<close>

definition write_super_block :: "fs \<Rightarrow> volume \<Rightarrow> unit vol_result" where
  "write_super_block s v =
     rbind (map_err (\<lambda>e. (e, v, s)) (volume_data_file v)) (\<lambda>file.
     if metadata_len (fs_data s file) \<noteq> 0 then Ok ((), v, s)
     else
       rbind (map_err (\<lambda>(e, s). (VIo e, v, s))
         (write_all_at s file (super_block_as_bytes (v_super_block v)) 0)) (\<lambda>s.
       Ok ((), v\<lparr>v_no_write_or_delete := False, v_no_write_can_delete := False\<rparr>, s)))"

definition read_super_block :: "fs \<Rightarrow> volume \<Rightarrow> (super_block, volume_error) result" where
  "read_super_block s v =
     rbind (volume_data_file v) (\<lambda>file.
     rbind (map_err VIo (read_exact_at (fs_data s file) SUPER_BLOCK_SIZE 0)) super_block_parse)"

text \<open>The data file is found, or created when it is missing and that is asked for.\<close>

definition load_locate ::
    "u64 \<Rightarrow> fs \<Rightarrow> volume \<Rightarrow> bool \<Rightarrow> (ino \<times> bool \<times> fs, volume_error) result" where
  "load_locate now s v create_if_missing =
     (let name = data_filename v in
      case metadata s name of
        Ok i \<Rightarrow> Ok (i, of_nat SUPER_BLOCK_SIZE \<le> metadata_len (fs_data s i), s)
      | Err e \<Rightarrow>
          if e = NotFound \<and> create_if_missing then
            rbind (map_err VIo (open_create_truncate s name now)) (\<lambda>(s, _).
            rbind (map_err VIo (metadata s name)) (\<lambda>i. Ok (i, False, s)))
          else Err (VIo e)
      | Panic \<Rightarrow> Panic)"

definition load_open :: "fs \<Rightarrow> volume \<Rightarrow> ino \<Rightarrow> (volume, volume_error \<times> volume) result" where
  "load_open s v i =
     (let name = data_filename v in
      if fs_readonly s i then
        let v = v\<lparr>v_no_write_or_delete := True\<rparr> in
        rbind (map_err (\<lambda>e. (VIo e, v)) (open_read s name)) (\<lambda>f. Ok (v\<lparr>v_data_file := Some f\<rparr>))
      else
        let v = v\<lparr>v_last_modified := fs_mtime s i\<rparr> in
        rbind (map_err (\<lambda>e. (VIo e, v)) (open_write s name)) (\<lambda>f. Ok (v\<lparr>v_data_file := Some f\<rparr>)))"

definition load_index ::
    "(bytes \<Rightarrow> u32) \<Rightarrow> u64 \<Rightarrow> fs \<Rightarrow> volume \<Rightarrow> unit vol_result" where
  "load_index crc now s v =
     rbind (map_err (\<lambda>e. (VIo e, v, s))
        (if v_no_write_or_delete v then rbind (open_read s (index_filename v)) (\<lambda>i. Ok (s, i))
         else open_create_truncate s (index_filename v) now)) (\<lambda>(s, index_file).
     let checked = check_volume_data_integrity crc s v index_file;
         v = (case checked of Err _ \<Rightarrow> v\<lparr>v_no_write_or_delete := True\<rparr> | _ \<Rightarrow> v) in
     if checked = Panic then Panic
     else if v_no_write_or_delete v \<or> v_no_write_can_delete v then Panic
     else
       rbind (map_err (\<lambda>(e, _, s). (e, v, s))
         (load_index_file s (needle_mapper_new (v_id v)) index_file)) (\<lambda>(nm, s).
       Ok ((), v\<lparr>v_needle_mapper := Some nm\<rparr>, s)))"

definition volume_load ::
    "(bytes \<Rightarrow> u32) \<Rightarrow> u64 \<Rightarrow> fs \<Rightarrow> volume \<Rightarrow> bool \<Rightarrow> bool \<Rightarrow> unit vol_result" where
  "volume_load crc now s v create_if_missing with_index =
     (if v_data_file v \<noteq> None then Err (VHasLoaded (v_id v), v, s)
      else
        rbind (map_err (\<lambda>e. (e, v, s)) (load_locate now s v create_if_missing)) (\<lambda>(i, has_sb, s).
        rbind (map_err (\<lambda>(e, v). (e, v, s)) (load_open s v i)) (\<lambda>v.
        rbind (if has_sb then
                 rbind (map_err (\<lambda>e. (e, v, s)) (read_super_block s v)) (\<lambda>sb.
                 Ok ((), v\<lparr>v_super_block := sb\<rparr>, s))
               else write_super_block s v) (\<lambda>(_, v, s).
        if with_index then load_index crc now s v else Ok ((), v, s)))))"

text \<open>\<open>Volume::default()\<close>\<close>

definition volume_default :: volume where
  "volume_default =
     \<lparr>v_id = 0, v_dir = [], v_collection = [], v_data_file = None, v_needle_mapper = None,
      v_super_block = super_block_default, v_no_write_or_delete = False,
      v_no_write_can_delete = False, v_is_compacting = False, v_last_modified = 0,
      v_last_compact_index_offset = 0, v_last_compact_revision = 0\<rparr>"

definition volume_new ::
    "(bytes \<Rightarrow> u32) \<Rightarrow> u64 \<Rightarrow> fs \<Rightarrow> string \<Rightarrow> string \<Rightarrow> volume_id \<Rightarrow> replica_placement \<Rightarrow> ttl
      \<Rightarrow> unit vol_result" where
  "volume_new crc now s dir collection vid rp t =
     (let sb = super_block_default\<lparr>sb_replica_placement := rp, sb_ttl := t\<rparr>;
          v = volume_default\<lparr>v_id := vid, v_dir := dir, v_collection := collection,
                v_super_block := sb\<rparr>
      in volume_load crc now s v True True)"

definition load_volume_without_index ::
    "(bytes \<Rightarrow> u32) \<Rightarrow> u64 \<Rightarrow> fs \<Rightarrow> string \<Rightarrow> string \<Rightarrow> volume_id \<Rightarrow> unit vol_result" where
  "load_volume_without_index crc now s dirname collection vid =
     volume_load crc now s
       (volume_default\<lparr>v_dir := dirname, v_collection := collection, v_id := vid\<rparr>) False False"

definition volume_destroy :: "fs \<Rightarrow> volume \<Rightarrow> (fs, volume_error \<times> fs) result" where
  "volume_destroy s v =
     (if v_is_compacting v then Err (VCompacting (v_id v), s)
      else
        rbind (map_err (\<lambda>e. (VIo e, s)) (remove_file s (data_filename v))) (\<lambda>s.
        map_err (\<lambda>e. (VIo e, s)) (remove_file s (index_filename v))))"

subsection \<open>Expiry and reports\<close>

definition volume_expired :: "u64 \<Rightarrow> volume \<Rightarrow> u64 \<Rightarrow> bool" where
  "volume_expired now v volume_size_limit \<longleftrightarrow>
     volume_size_limit \<noteq> 0 \<and> volume_content_size v \<noteq> 0 \<and>
     ttl_minutes (sb_ttl (v_super_block v)) \<noteq> 0 \<and>
     v_last_modified v + ucast (ttl_minutes (sb_ttl (v_super_block v))) * 60 < now"

definition need_to_replicate :: "volume \<Rightarrow> bool" where
  "need_to_replicate v \<longleftrightarrow> 1 < copy_count (sb_replica_placement (v_super_block v))"

definition expired_long_enough :: "u64 \<Rightarrow> volume \<Rightarrow> u64 \<Rightarrow> bool" where
  "expired_long_enough now v max_delay_minutes \<longleftrightarrow>
     (let minutes = ucast (ttl_minutes (sb_ttl (v_super_block v))) :: u64 in
      if ttl_minutes (sb_ttl (v_super_block v)) = 0 then False
      else
        let delay = minutes div 10;
            delay = (if max_delay_minutes < delay then max_delay_minutes else delay)
        in (minutes + delay) * 60 + v_last_modified v < now)"

text \<open>\<open>storage/volume/volume_info.rs\<close>; the signed counters are read as integers.\<close>

record volume_info =
  vi_id :: volume_id
  vi_size :: u64
  vi_replica_placement :: replica_placement
  vi_ttl :: ttl
  vi_collection :: string
  vi_version :: version
  vi_file_count :: int
  vi_delete_count :: int
  vi_delete_bytes :: u64
  vi_read_only :: bool

definition get_volume_info :: "volume \<Rightarrow> volume_info" where
  "get_volume_info v =
     \<lparr>vi_id = v_id v, vi_size = volume_content_size v,
      vi_replica_placement = sb_replica_placement (v_super_block v), vi_ttl = sb_ttl (v_super_block v),
      vi_collection = v_collection v, vi_version = volume_version v,
      vi_file_count = sint (volume_file_count v), vi_delete_count = sint (volume_deleted_count v),
      vi_delete_bytes = volume_deleted_bytes v, vi_read_only = volume_readonly v\<rparr>"

text \<open>\<open>VolumeInformationMessage\<close> and \<open>VolumeShortInformationMessage\<close> of \<open>helyim.proto\<close>.\<close>

record volume_information_message =
  vim_id :: u32
  vim_size :: u64
  vim_collection :: string
  vim_file_count :: u64
  vim_delete_count :: u64
  vim_deleted_bytes :: u64
  vim_read_only :: bool
  vim_replica_placement :: u32
  vim_version :: u32
  vim_ttl :: u32

record volume_short_information_message =
  vsm_id :: u32
  vsm_collection :: string
  vsm_replica_placement :: u32
  vsm_version :: u32
  vsm_ttl :: u32

definition volume_info_new :: "volume_information_message \<Rightarrow> (volume_info, volume_error) result" where
  "volume_info_new m =
     rbind (rp_from_u8 (ucast (vim_replica_placement m))) (\<lambda>rp.
     rbind (map_err VTtl (ttl_from_u32 (vim_ttl m))) (\<lambda>t.
     Ok \<lparr>vi_id = vim_id m, vi_size = vim_size m, vi_replica_placement = rp, vi_ttl = t,
         vi_collection = vim_collection m, vi_version = ucast (vim_version m),
         vi_file_count = sint (vim_file_count m), vi_delete_count = sint (vim_delete_count m),
         vi_delete_bytes = vim_deleted_bytes m, vi_read_only = vim_read_only m\<rparr>))"

definition volume_info_new_from_short ::
    "volume_short_information_message \<Rightarrow> (volume_info, volume_error) result" where
  "volume_info_new_from_short m =
     rbind (rp_from_u8 (ucast (vsm_replica_placement m))) (\<lambda>rp.
     rbind (map_err VTtl (ttl_from_u32 (vsm_ttl m))) (\<lambda>t.
     Ok \<lparr>vi_id = vsm_id m, vi_size = 0, vi_replica_placement = rp, vi_ttl = t,
         vi_collection = vsm_collection m, vi_version = ucast (vsm_version m),
         vi_file_count = 0, vi_delete_count = 0, vi_delete_bytes = 0, vi_read_only = False\<rparr>))"

subsection \<open>Scanning a data file\<close>

text \<open>
  The loop of \<open>scan_volume_file\<close>: \<open>None\<close> when the fuel is exhausted. The visitor's state is
  \<open>'st\<close>; its errors other than an unexpected end of file are logged and skipped.
\<close>

type_synonym 'st visitor = "needle \<Rightarrow> u64 \<Rightarrow> 'st \<Rightarrow> ('st, volume_error \<times> 'st) result"

fun scan_loop ::
    "nat \<Rightarrow> (bytes \<Rightarrow> u32) \<Rightarrow> bytes \<Rightarrow> version \<Rightarrow> bool \<Rightarrow> 'st visitor \<Rightarrow> needle \<Rightarrow> u32 \<Rightarrow> u64 \<Rightarrow> 'st
      \<Rightarrow> ('st, volume_error \<times> 'st) result option" where
  "scan_loop 0 crc file version read_body visit n rest offset st = None"
| "scan_loop (Suc fuel) crc file version read_body visit n rest offset st =
     (let body = (if read_body
                  then read_needle_body crc n file (offset + ucast NEEDLE_ENTRY_SIZE) rest version
                  else Ok n);
          n = (case body of Ok n \<Rightarrow> n | Err (e, n) \<Rightarrow> n | Panic \<Rightarrow> n)
      in if body = Panic then Some Panic
      else
        let continue = (\<lambda>st.
          let offset = offset + ucast (NEEDLE_ENTRY_SIZE + rest) in
          case read_needle_header file version offset of
            Ok (n, blen) \<Rightarrow> scan_loop fuel crc file version read_body visit n blen offset st
          | Err (NIo UnexpectedEof) \<Rightarrow> Some (Ok st)
          | Err e \<Rightarrow> Some (Err (VNeedle e, st))
          | Panic \<Rightarrow> Some Panic)
        in case visit n offset st of
             Panic \<Rightarrow> Some Panic
           | Err (VNeedle (NIo UnexpectedEof), st) \<Rightarrow> Some (Ok st)
           | Err (_, st) \<Rightarrow> continue st
           | Ok st \<Rightarrow> continue st)"

definition scan_volume_file ::
    "nat \<Rightarrow> (bytes \<Rightarrow> u32) \<Rightarrow> u64 \<Rightarrow> fs \<Rightarrow> string \<Rightarrow> string \<Rightarrow> volume_id \<Rightarrow> bool
      \<Rightarrow> (super_block \<Rightarrow> 'st \<Rightarrow> ('st, volume_error \<times> 'st) result) \<Rightarrow> 'st visitor \<Rightarrow> 'st
      \<Rightarrow> ('st, volume_error \<times> 'st) result option" where
  "scan_volume_file fuel crc now s dirname collection vid read_body visit_super_block visit_needle st =
     (case load_volume_without_index crc now s dirname collection vid of
        Panic \<Rightarrow> Some Panic
      | Err (e, _) \<Rightarrow> Some (Err (e, st))
      | Ok (_, v, s) \<Rightarrow>
          (case visit_super_block (v_super_block v) st of
             Panic \<Rightarrow> Some Panic
           | Err e \<Rightarrow> Some (Err e)
           | Ok st \<Rightarrow>
               let version = volume_version v; offset = of_nat SUPER_BLOCK_SIZE in
               (case volume_data_file v of
                  Panic \<Rightarrow> Some Panic
                | Err e \<Rightarrow> Some (Err (e, st))
                | Ok file \<Rightarrow>
                    (case read_needle_header (fs_data s file) version offset of
                       Panic \<Rightarrow> Some Panic
                     | Err e \<Rightarrow> Some (Err (VNeedle e, st))
                     | Ok (n, rest) \<Rightarrow>
                         scan_loop fuel crc (fs_data s file) version read_body visit_needle n rest
                           offset st))))"

subsection \<open>The super block round trip\<close>

lemma rp_from_into_u8:
  assumes "rp_digits rp" and "unat (diff_data_center_count rp) * 100
    + unat (diff_rack_count rp) * 10 + unat (same_rack_count rp) < 256"
  shows "rp_from_u8 (rp_into_u8 rp) = Ok rp"
proof -
  let ?x = "unat (diff_data_center_count rp)" and ?y = "unat (diff_rack_count rp)"
    and ?z = "unat (same_rack_count rp)"
  have "rp_into_u8 rp = of_nat (?x * 100 + ?y * 10 + ?z)"
    by (simp add: rp_into_u8_def)
  then have u: "unat (rp_into_u8 rp) = ?x * 100 + ?y * 10 + ?z"
    using assms(2) unat_of_nat_small [where 'a = 8, of "?x * 100 + ?y * 10 + ?z"] by simp
  note d = digits_of_sum [of ?y ?z ?x]
  have "zero_pad 3 (fmt_dec (unat (rp_into_u8 rp))) = map digit_char [?x, ?y, ?z]"
    using zero_pad_three [of "unat (rp_into_u8 rp)"] assms d by (simp add: u rp_digits_def)
  then show ?thesis
    using rp_new_digits [of ?x ?y ?z] assms(1) by (simp add: rp_from_u8_def rp_digits_def)
qed

lemma length_super_block_as_bytes [simp, size_simps]: "length (super_block_as_bytes sb) = 8"
  by (simp add: super_block_as_bytes_def)

lemma super_block_parse_bytes:
  assumes "rp_from_u8 (rp_into_u8 (sb_replica_placement sb)) = Ok (sb_replica_placement sb)"
  shows "super_block_parse (super_block_as_bytes sb) = Ok sb"
  using assms
  by (simp add: super_block_parse_def super_block_as_bytes_def slice_def ttl_as_bytes_def
      ttl_from_as_bytes [unfolded ttl_as_bytes_def])

subsection \<open>Where a needle is appended\<close>

lemma append_needle_at_props:
  assumes "length f + 8 \<le> 2 ^ 64"
  shows "length f \<le> unat (append_needle_at f)" and "unat (append_needle_at f) < length f + 8"
    and "8 dvd unat (append_needle_at f)"
proof -
  let ?l = "metadata_len f"
  have l: "unat ?l = length f"
    unfolding metadata_len_def using assms by (intro unat_of_nat_small) simp
  have p: "(ucast NEEDLE_PADDING_SIZE :: u64) = 8"
    by (simp add: NEEDLE_PADDING_SIZE_def)
  have m: "unat (?l mod 8) = length f mod 8"
    by (simp add: unat_mod_distrib l)
  then have "unat (8 - ?l mod 8) = 8 - length f mod 8"
    by (subst unat_sub) (simp_all add: word_le_nat_alt less_imp_le)
  then have "unat (?l + (8 - ?l mod 8)) = length f + (8 - length f mod 8)"
    if "length f mod 8 \<noteq> 0"
  proof -
    have "length f + (8 - length f mod 8) < 2 ^ 64"
      using assms that by linarith
    then show ?thesis
      using unat_add_lem [of ?l "8 - ?l mod 8"] \<open>unat (8 - ?l mod 8) = _\<close> by (simp add: l)
  qed
  moreover have "?l mod 8 = 0 \<longleftrightarrow> length f mod 8 = 0"
    using m by (metis unat_eq_zero)
  ultimately have a: "unat (append_needle_at f) =
      (if length f mod 8 = 0 then length f else length f + (8 - length f mod 8))"
    by (simp add: append_needle_at_def Let_def p l)
  show "length f \<le> unat (append_needle_at f)" and "unat (append_needle_at f) < length f + 8"
    unfolding a by presburger+
  show "8 dvd unat (append_needle_at f)"
    unfolding a by presburger
qed

subsection \<open>A volume is a map from ids to needles\<close>

text \<open>
  The abstract state of a volume is the map \<open>A\<close> from needle ids to stored needles. \<open>vol_rel\<close>
  relates it to the concrete one: the needle map has the same keys, and each entry points at the
  record of the needle in the data file.
\<close>

definition holds_needle :: "(bytes \<Rightarrow> u32) \<Rightarrow> bytes \<Rightarrow> needle_value \<Rightarrow> needle \<Rightarrow> bool" where
  "holds_needle crc file nv n \<longleftrightarrow>
     sizes_ok n \<and> n_size n = nv_size nv \<and> off_val (nv_offset nv) \<noteq> 0 \<and>
     n_checksum n = crc (n_data n) \<and> record_at file (actual_offset (nv_offset nv)) n"

definition map_rel :: "(bytes \<Rightarrow> u32) \<Rightarrow> bytes \<Rightarrow> memory_map \<Rightarrow> (needle_id \<rightharpoonup> needle) \<Rightarrow> bool" where
  "map_rel crc file m A \<longleftrightarrow>
     (\<forall>k. case A k of
        None \<Rightarrow> m k = None
      | Some n \<Rightarrow> n_id n = k \<and> (\<exists>nv. m k = Some nv \<and> holds_needle crc file nv n))"

definition vol_rel :: "(bytes \<Rightarrow> u32) \<Rightarrow> fs \<Rightarrow> volume \<Rightarrow> (needle_id \<rightharpoonup> needle) \<Rightarrow> bool" where
  "vol_rel crc s v A \<longleftrightarrow>
     (\<exists>d nm x. v_data_file v = Some d \<and> v_needle_mapper v = Some nm \<and> nm_index_file nm = Some x \<and>
        d \<noteq> x \<and> volume_version v = CURRENT_VERSION \<and> SUPER_BLOCK_SIZE \<le> length (fs_data s d) \<and>
        metric_ok nm \<and> map_rel crc (fs_data s d) (nm_map nm) A)"

text \<open>The data file has room for one more record at an offset an \<open>Offset\<close> can hold.\<close>

definition has_room :: "fs \<Rightarrow> volume \<Rightarrow> bool" where
  "has_room s v \<longleftrightarrow>
     (case v_data_file v of Some d \<Rightarrow> length (fs_data s d) + 8 \<le> 2 ^ 32 | None \<Rightarrow> False)"

definition extends :: "bytes \<Rightarrow> bytes \<Rightarrow> bool" where
  "extends f' f \<longleftrightarrow> take (length f) f' = f"

lemma extends_length: "extends f' f \<Longrightarrow> length f \<le> length f'"
  by (metis extends_def length_take min.cobounded1 min_def nat_le_linear)

lemma extends_overwrite: "length f \<le> k \<Longrightarrow> extends (overwrite f k bs) f"
  by (simp add: extends_def take_overwrite_below)

lemma extends_refl [simp]: "extends f f"
  by (simp add: extends_def)

lemma extends_truncated:
  assumes "extends f' f" and "length f \<le> k"
  shows "extends (take k f' @ z) f"
  using assms extends_length [OF assms(1)] by (simp add: extends_def min_def)

lemma record_at_extends:
  assumes "extends f' f" and "record_at f off n"
  shows "record_at f' off n"
proof -
  let ?r = "needle_record n"
  have "take (length ?r) (drop (unat off) f') = take (length ?r) (drop (unat off) f)"
    by (rule take_take_drop_eq [where k = "length f"])
      (use assms in \<open>simp_all add: extends_def record_at_def\<close>)
  then show ?thesis
    using assms(2) extends_length [OF assms(1)] by (simp add: record_at_def)
qed

lemma map_rel_extends:
  assumes "map_rel crc f m A" and "extends f' f"
  shows "map_rel crc f' m A"
  unfolding map_rel_def
proof
  fix k
  show "case A k of None \<Rightarrow> m k = None
    | Some n \<Rightarrow> n_id n = k \<and> (\<exists>nv. m k = Some nv \<and> holds_needle crc f' nv n)"
    using assms(1) [unfolded map_rel_def, rule_format, of k] record_at_extends [OF assms(2)]
    by (auto simp: holds_needle_def split: option.splits)
qed

lemma map_rel_update:
  assumes "map_rel crc f m A" and "holds_needle crc f nv n"
  shows "map_rel crc f (m(n_id n \<mapsto> nv)) (A(n_id n \<mapsto> n))"
  unfolding map_rel_def
proof
  fix k
  show "case (A(n_id n \<mapsto> n)) k of None \<Rightarrow> (m(n_id n \<mapsto> nv)) k = None
    | Some n' \<Rightarrow> n_id n' = k \<and> (\<exists>nv'. (m(n_id n \<mapsto> nv)) k = Some nv' \<and> holds_needle crc f nv' n')"
    using assms(1) [unfolded map_rel_def, rule_format, of k] assms(2)
    by (cases "k = n_id n") (auto split: option.splits)
qed

lemma map_rel_remove:
  assumes "map_rel crc f m A"
  shows "map_rel crc f (m(k := None)) (A(k := None))"
  unfolding map_rel_def
proof
  fix j
  show "case (A(k := None)) j of None \<Rightarrow> (m(k := None)) j = None
    | Some n \<Rightarrow> n_id n = j \<and> (\<exists>nv. (m(k := None)) j = Some nv \<and> holds_needle crc f nv n)"
    using assms [unfolded map_rel_def, rule_format, of j]
    by (cases "j = k") (auto split: option.splits)
qed

lemma vol_rel_change:
  assumes "vol_rel crc s v A" and "v_data_file v = Some d"
    and "extends (fs_data s' d) (fs_data s d)"
  shows "vol_rel crc s' v A"
  using assms map_rel_extends [OF _ assms(3)] extends_length [OF assms(3)]
  by (auto simp: vol_rel_def)

lemma vol_rel_last_modified [simp]:
  "vol_rel crc s (if b then v\<lparr>v_last_modified := t\<rparr> else v) A = vol_rel crc s v A"
  by (simp add: vol_rel_def volume_version_def)

lemma needle_append_cases:
  fixes s f n off
  assumes "needle_fits n"
  defines "r \<equiv> needle_record (stored n)"
  shows "(\<exists>s'. needle_append s f n off CURRENT_VERSION = Ok (stored n, s') \<and>
        fs_data s' = (fs_data s)(f := overwrite (fs_data s f) (unat off) r)) \<or>
    (\<exists>s' bs. needle_append s f n off CURRENT_VERSION = Err (NIo WriteFailed, stored n, s') \<and>
        (fs_data s' = fs_data s \<or>
         fs_data s' = (fs_data s)(f := overwrite (fs_data s f) (unat off) bs)))"
  unfolding needle_append_def r_def append_buf_eq [OF assms(1)] write_all_at_def
  by (auto split: list.splits option.splits)

lemma set_index_cases:
  assumes "v_needle_mapper v = Some nm" and "nm_index_file nm = Some x"
  shows "(\<exists>old s'. set_index s v k nv =
        Ok (old, v\<lparr>v_needle_mapper := Some (nm_after_set nm k nv)\<rparr>, s') \<and>
        (\<forall>j. j \<noteq> x \<longrightarrow> fs_data s' j = fs_data s j)) \<or>
    (\<exists>e s'. set_index s v k nv =
        Err (VIo e, v\<lparr>v_needle_mapper := Some (nm_after_set nm k nv)\<rparr>, s') \<and>
        (\<forall>j. j \<noteq> x \<longrightarrow> fs_data s' j = fs_data s j))"
  using assms
  by (auto simp: set_index_def volume_needle_mapper_def nm_set_eq append_to_index_file_def
      write_all_at_def split: list.splits option.splits)

lemma delete_index_cases:
  assumes "v_needle_mapper v = Some nm" and "nm_index_file nm = Some x" and "nm_map nm k = Some nv"
  shows "(\<exists>old s'. delete_index s v k =
        Ok (old, v\<lparr>v_needle_mapper := Some (nm_after_delete nm k)\<rparr>, s') \<and>
        (\<forall>j. j \<noteq> x \<longrightarrow> fs_data s' j = fs_data s j)) \<or>
    (\<exists>e s'. delete_index s v k =
        Err (VIo e, v\<lparr>v_needle_mapper := Some (nm_after_delete nm k)\<rparr>, s') \<and>
        (\<forall>j. j \<noteq> x \<longrightarrow> fs_data s' j = fs_data s j))"
  using assms
  by (auto simp: delete_index_def volume_needle_mapper_def nm_delete_eq append_to_index_file_def
      write_all_at_def split: list.splits option.splits)

lemma stored_simps [simp]:
  "n_id (stored n) = n_id n" "n_data (stored n) = n_data n" "n_checksum (stored n) = n_checksum n"
  "n_cookie (stored n) = n_cookie n" "n_flags (stored n) = n_flags n"
  "n_last_modified (stored n) = n_last_modified n" "n_ttl (stored n) = n_ttl n"
  "n_name (stored n) = n_name n" "n_mime (stored n) = n_mime n" "n_pairs (stored n) = n_pairs n"
  by (simp_all add: stored_def Let_def)

lemma written_holds_needle:
  assumes "needle_fits n" and "n_checksum n = crc (n_data n)"
    and "SUPER_BLOCK_SIZE \<le> length f" and "length f + 8 \<le> 2 ^ 32"
  defines "off \<equiv> append_needle_at f"
  shows "holds_needle crc (overwrite f (unat off) (needle_record (stored n)))
    \<lparr>nv_offset = offset_from off, nv_size = n_size (stored n)\<rparr> (stored n)"
proof -
  note p = append_needle_at_props [of f, folded off_def]
  have b: "unat off < 2 ^ 32" and d: "8 dvd unat off" and l: "8 \<le> unat off"
    using p assms(3,4) by (simp_all add: SUPER_BLOCK_SIZE_def)
  have "unat (off_val (offset_from off)) = unat off div 8"
    using b by (simp add: unat_offset_from)
  then have "off_val (offset_from off) \<noteq> 0"
    using l by (auto simp: div_eq_0_iff dest: arg_cong [where f = unat])
  then show ?thesis
    using assms(1,2) sizes_ok_stored [OF assms(1)] actual_offset_from_aligned [OF b d]
    by (simp add: holds_needle_def record_at_overwrite)
qed

lemma extends_ftruncate:
  assumes "extends (fs_data s d) f" and "length f \<le> unat off"
  shows "extends (fs_data (ftruncate s d off) d) f"
  using extends_truncated [OF assms] by (simp add: ftruncate_def)

text \<open>The three outcomes of a write: stored, refused before the index, or stored with an error.\<close>

lemma write_needle_cases:
  assumes rel: "vol_rel crc s v A" and rw: "\<not> volume_readonly v" and room: "has_room s v"
    and fits: "needle_fits n" and sum: "n_checksum n = crc (n_data n)"
  shows "(\<exists>v' s'. write_needle s v n = Ok (length (n_data n), stored n, v', s')
        \<and> vol_rel crc s' v' (A(n_id n \<mapsto> stored n)))
    \<or> (\<exists>s'. write_needle s v n = Err (VNeedle (NIo WriteFailed), stored n, v, s')
        \<and> vol_rel crc s' v A)
    \<or> (\<exists>e v' s'. write_needle s v n = Err (VIo e, stored n, v', s')
        \<and> vol_rel crc s' v' (A(n_id n \<mapsto> stored n)))"
proof -
  obtain d nm x where v: "v_data_file v = Some d" "v_needle_mapper v = Some nm"
      "nm_index_file nm = Some x" "d \<noteq> x" "volume_version v = CURRENT_VERSION"
      "SUPER_BLOCK_SIZE \<le> length (fs_data s d)" "metric_ok nm"
      "map_rel crc (fs_data s d) (nm_map nm) A"
    using rel by (auto simp: vol_rel_def)
  let ?f = "fs_data s d" and ?o = "append_needle_at (fs_data s d)"
  let ?nv = "\<lparr>nv_offset = offset_from ?o, nv_size = n_size (stored n)\<rparr>"
  have len: "length ?f + 8 \<le> 2 ^ 32"
    using room v(1) by (simp add: has_room_def)
  then have ext: "extends (overwrite ?f (unat ?o) bs) ?f" for bs
    by (intro extends_overwrite append_needle_at_props) simp
  consider (ok) s1 where "needle_append s d n ?o CURRENT_VERSION = Ok (stored n, s1)"
      "fs_data s1 = (fs_data s)(d := overwrite ?f (unat ?o) (needle_record (stored n)))"
    | (err) s1 where "needle_append s d n ?o CURRENT_VERSION = Err (NIo WriteFailed, stored n, s1)"
      "extends (fs_data s1 d) ?f"
    using needle_append_cases [OF fits, of s d ?o] ext by fastforce
  then show ?thesis
  proof cases
    case ok
    have rel': "map_rel crc (fs_data s1 d) ((nm_map nm)(n_id n \<mapsto> ?nv)) (A(n_id n \<mapsto> stored n))"
      using map_rel_update [OF map_rel_extends [OF v(8) ext]
          written_holds_needle [of n crc ?f, OF fits sum v(6) len]]
      by (simp add: ok(2))
    have fin: "vol_rel crc s2 (v\<lparr>v_needle_mapper := Some (nm_after_set nm (n_id n) ?nv)\<rparr>)
        (A(n_id n \<mapsto> stored n))"
      if "\<forall>j. j \<noteq> x \<longrightarrow> fs_data s2 j = fs_data s1 j" for s2
      using that rel' v(1,3-6) metric_ok_after_set [OF v(7)]
      by (auto simp: vol_rel_def ok(2) volume_version_def SUPER_BLOCK_SIZE_def)
    show ?thesis
      using set_index_cases [OF v(2,3), of s1 "n_id n" ?nv] rw v(1,5) ok(1)
fin
      by (auto simp: write_needle_def volume_data_file_def data_size_def Let_def volume_version_def)
  next
    case err
    have "vol_rel crc (ftruncate s1 d ?o) v A"
      by (rule vol_rel_change [OF rel v(1)])
        (use err(2) len in \<open>auto intro!: extends_ftruncate append_needle_at_props\<close>)
    then show ?thesis
      using rw v(1,5) err(1) by (auto simp: write_needle_def volume_data_file_def)
  qed
qed

lemma write_needle_no_fault:
  assumes "vol_rel crc s v A" and "\<not> volume_readonly v" and "needle_fits n" and "fs_faults s = []"
  shows "\<exists>v' s'. write_needle s v n = Ok (length (n_data n), stored n, v', s')"
proof -
  obtain d nm x where "v_data_file v = Some d" "v_needle_mapper v = Some nm"
      "nm_index_file nm = Some x" "volume_version v = CURRENT_VERSION"
    using assms(1) by (auto simp: vol_rel_def)
  then show ?thesis
    using assms(2-4)
    by (simp add: write_needle_def volume_data_file_def needle_append_def append_buf_eq
        write_all_at_def set_index_def volume_needle_mapper_def nm_set_eq append_to_index_file_def
        data_size_def Let_def)
qed

text \<open>
  Deleting appends the needle once more and removes the map entry; the outcomes are: nothing to
  delete, deleted, refused before the index, or deleted with an error.
\<close>

lemma needle_append_extends:
  assumes "length (fs_data s d) + 8 \<le> 2 ^ 64" and "volume_version v = CURRENT_VERSION"
  defines "off \<equiv> append_needle_at (fs_data s d)"
  shows "(\<exists>s'. needle_append s d n off (volume_version v) = Ok (fst (append_buf n), s')
        \<and> extends (fs_data s' d) (fs_data s d))
    \<or> (\<exists>s'. needle_append s d n off (volume_version v)
          = Err (NIo WriteFailed, fst (append_buf n), s')
        \<and> extends (fs_data s' d) (fs_data s d))"
  using extends_overwrite [OF append_needle_at_props(1) [OF assms(1)]] assms(2)
  by (auto simp: needle_append_def off_def write_all_at_def split: prod.splits list.splits option.splits)

lemma append_buf_id: "n_id (fst (append_buf n)) = n_id n" "n_data (fst (append_buf n)) = n_data n"
  by (simp_all add: append_buf_def append_payload_eq Let_def split: prod.splits)

lemma delete_needle_cases:
  assumes rel: "vol_rel crc s v A" and rw: "\<not> volume_readonly v" and room: "has_room s v"
  shows "if A (n_id n) = None then delete_needle s v n = Ok (0, n, v, s)
    else (\<exists>n' v' s'. delete_needle s v n = Ok (length (n_data n), n', v', s')
        \<and> vol_rel crc s' v' (A(n_id n := None)))
    \<or> (\<exists>n' s'. delete_needle s v n = Err (VNeedle (NIo WriteFailed), n', v, s')
        \<and> vol_rel crc s' v A)
    \<or> (\<exists>e n' v' s'. delete_needle s v n = Err (VIo e, n', v', s')
        \<and> vol_rel crc s' v' (A(n_id n := None)))"
proof -
  obtain d nm x where v: "v_data_file v = Some d" "v_needle_mapper v = Some nm"
      "nm_index_file nm = Some x" "d \<noteq> x" "volume_version v = CURRENT_VERSION"
      "SUPER_BLOCK_SIZE \<le> length (fs_data s d)" "metric_ok nm"
      "map_rel crc (fs_data s d) (nm_map nm) A"
    using rel by (auto simp: vol_rel_def)
  let ?k = "n_id n" and ?o = "append_needle_at (fs_data s d)"
  note k = v(8) [unfolded map_rel_def, rule_format, of ?k]
  have g: "get_index v ?k = Ok (nm_map nm ?k)"
    by (simp add: get_index_def volume_needle_mapper_def v(2) nm_get_def')
  show ?thesis
  proof (cases "A ?k")
    case None
    then show ?thesis
      using k g rw by (simp add: delete_needle_def)
  next
    case (Some m)
    then obtain nv where nv: "nm_map nm ?k = Some nv"
      using k by auto
    have len: "length (fs_data s d) + 8 \<le> 2 ^ 64"
      using room v(1) by (simp add: has_room_def)
    consider (ok) s1 where "needle_append s d n ?o (volume_version v) = Ok (fst (append_buf n), s1)"
        "extends (fs_data s1 d) (fs_data s d)"
      | (err) s1 where "needle_append s d n ?o (volume_version v)
          = Err (NIo WriteFailed, fst (append_buf n), s1)" "extends (fs_data s1 d) (fs_data s d)"
      using needle_append_extends [OF len v(5), of n] by blast
    then show ?thesis
    proof cases
      case ok
      have fin: "vol_rel crc s2 (v\<lparr>v_needle_mapper := Some (nm_after_delete nm ?k)\<rparr>) (A(?k := None))"
        if "\<forall>j. j \<noteq> x \<longrightarrow> fs_data s2 j = fs_data s1 j" for s2
        using that map_rel_remove [OF map_rel_extends [OF v(8) ok(2)], of ?k] v(1,3-6)
          extends_length [OF ok(2)] metric_ok_after_delete [OF v(7)]
        by (auto simp: vol_rel_def volume_version_def)
      then show ?thesis
        using delete_index_cases [OF v(2,3) nv, of s1] Some g nv rw v(1) ok(1)
        by (auto simp: delete_needle_def volume_data_file_def data_size_def append_buf_id)
    next
      case err
      then show ?thesis
        using vol_rel_change [OF rel v(1) err(2)] Some g nv rw v(1)
        by (auto simp: delete_needle_def volume_data_file_def)
    qed
  qed
qed

lemma delete_needle_no_fault:
  assumes "vol_rel crc s v A" and "\<not> volume_readonly v" and "A (n_id n) \<noteq> None"
    and "fs_faults s = []"
  shows "\<exists>n' v' s'. delete_needle s v n = Ok (length (n_data n), n', v', s')"
proof -
  obtain d nm x where v: "v_data_file v = Some d" "v_needle_mapper v = Some nm"
      "nm_index_file nm = Some x" "volume_version v = CURRENT_VERSION"
      "map_rel crc (fs_data s d) (nm_map nm) A"
    using assms(1) by (auto simp: vol_rel_def)
  obtain nv where nv: "nm_map nm (n_id n) = Some nv"
    using v(5) [unfolded map_rel_def, rule_format, of "n_id n"] assms(3) by auto
  obtain m buf where b: "append_buf n = (m, buf)"
    by force
  then have "n_id m = n_id n" "n_data m = n_data n"
    using append_buf_id [of n] by simp_all
  then show ?thesis
    using v(1-4) nv b assms(2,4)
    by (simp add: delete_needle_def get_index_def nm_get_def' volume_data_file_def
        needle_append_def write_all_at_def delete_index_def volume_needle_mapper_def nm_delete_eq
        append_to_index_file_def data_size_def)
qed

subsection \<open>Reading\<close>

definition needle_expired :: "u64 \<Rightarrow> needle \<Rightarrow> bool" where
  "needle_expired now n \<longleftrightarrow>
     has_ttl n \<and> ttl_minutes (n_ttl n) \<noteq> 0 \<and> has_last_modified_date n \<and>
     n_last_modified n + ucast (ttl_minutes (n_ttl n)) * 60 \<le> now"

lemma read_needle_absent:
  assumes "vol_rel crc s v A" and "A (n_id m) = None"
  shows "read_needle crc now s v m = Err (VNeedle (NNotFound (n_id m)), m)"
proof -
  obtain d nm where "v_needle_mapper v = Some nm" and "map_rel crc (fs_data s d) (nm_map nm) A"
    using assms(1) by (auto simp: vol_rel_def)
  moreover from this have "nm_map nm (n_id m) = None"
    using assms(2) by (auto simp: map_rel_def split: option.splits dest: spec [of _ "n_id m"])
  ultimately show ?thesis
    by (simp add: read_needle_def get_index_def volume_needle_mapper_def nm_get_def')
qed

lemma read_needle_present:
  assumes "vol_rel crc s v A" and "A (n_id m) = Some n" and "n_data n = [] \<longrightarrow> n_data m = []"
  shows "read_needle crc now s v m =
    (if needle_expired now (read_back n m)
     then Err (VNeedle (NExpired (v_id v) (n_id m)), read_back n m)
     else Ok (length (n_data n), read_back n m))"
proof -
  obtain d nm where v: "v_data_file v = Some d" "v_needle_mapper v = Some nm"
      "volume_version v = VERSION2" "map_rel crc (fs_data s d) (nm_map nm) A"
    using assms(1) by (auto simp: vol_rel_def CURRENT_VERSION_def)
  obtain nv where nv: "nm_map nm (n_id m) = Some nv" "holds_needle crc (fs_data s d) nv n"
      "n_id n = n_id m"
    using v(4) [unfolded map_rel_def, rule_format, of "n_id m"] assms(2) by auto
  note h = nv(2) [unfolded holds_needle_def]
  have e: "n_data_size n = 0 \<longleftrightarrow> n_data n = []"
    using h by (metis length_0_conv sizes_ok_def unat_eq_zero)
  then have "crc (if n_data_size n = 0 then n_data m else n_data n) = n_checksum n"
    using h assms(3) by simp
  then have "read_data crc m (fs_data s d) (nv_offset nv) (nv_size nv) VERSION2 = Ok (read_back n m)"
    using read_data_record [of "fs_data s d" "nv_offset nv" n crc m] h by simp
  moreover have "data_size (read_back n m) = length (n_data n)"
    using e assms(3) by (simp add: data_size_def)
  ultimately show ?thesis
    using v(1-3) nv h size_ok_not_deleted [of n]
    by (auto simp: read_needle_def get_index_def volume_needle_mapper_def nm_get_def'
        volume_data_file_def Let_def needle_expired_def not_less)
qed

subsection \<open>Loading\<close>

lemma load_index_writable:
  assumes "\<not> v_no_write_or_delete v" and "\<not> v_no_write_can_delete v"
    and o: "open_create_truncate s (index_filename v) now = Ok (s1, x)"
  shows "\<exists>nm. load_index crc now s v = Ok ((), v\<lparr>v_needle_mapper := Some nm\<rparr>, s1)
    \<and> nm_map nm = Map.empty \<and> nm_index_file nm = Some x \<and> metric_ok nm"
proof -
  have x: "fs_data s1 x = index_bytes []"
    using o by (auto simp: open_create_truncate_def fs_alloc_def Let_def index_bytes_def
        split: option.splits if_splits)
  have c: "check_volume_data_integrity crc s1 v x = Ok ()"
    by (simp add: check_volume_data_integrity_def verify_index_file_integrity_def x
        index_bytes_def metadata_len_def)
  obtain nm where "load_index_file s1 (needle_mapper_new (v_id v)) x = Ok (nm, s1)"
      "nm_map nm = replay []" "nm_index_file nm = Some x" "metric_ok nm"
    using load_index_file_new [OF x] by blast
  then show ?thesis
    using assms c by (auto simp: load_index_def Let_def replay_def)
qed

lemma load_index_empties:
  assumes "load_index crc now s v = Ok (u, v', s')"
  shows "\<exists>nm. v_needle_mapper v' = Some nm \<and> nm_map nm = Map.empty"
proof -
  have w: "\<not> v_no_write_or_delete v" "\<not> v_no_write_can_delete v"
  proof -
    have "\<exists>v2. (\<exists>r. v2 = (case r of Err (_ :: volume_error) \<Rightarrow> v\<lparr>v_no_write_or_delete := True\<rparr>
          | (_ :: (unit, volume_error) result) \<Rightarrow> v))
        \<and> \<not> v_no_write_or_delete v2 \<and> \<not> v_no_write_can_delete v2"
      using assms by (auto simp: load_index_def Let_def rbind_Ok_iff split: if_splits)
    then show "\<not> v_no_write_or_delete v" "\<not> v_no_write_can_delete v"
      by (auto split: result.splits) (metis result.exhaust old.unit.exhaust)+
  qed
  then obtain s1 x where o: "open_create_truncate s (index_filename v) now = Ok (s1, x)"
    using assms
    by (cases "open_create_truncate s (index_filename v) now") (auto simp: load_index_def)
  show ?thesis
    using load_index_writable [OF w o, of crc] assms by auto
qed

lemma volume_load_empties:
  assumes "volume_load crc now s v create True = Ok (u, v', s')"
  shows "\<exists>nm. v_needle_mapper v' = Some nm \<and> nm_map nm = Map.empty"
proof -
  obtain v1 s1 where "load_index crc now s1 v1 = Ok (u, v', s')"
    using assms by (auto simp: volume_load_def rbind_Ok_iff split: if_splits)
  then show ?thesis
    using load_index_empties by blast
qed

text \<open>The paths of a volume's two files differ.\<close>

lemma data_index_filename: "data_filename v \<noteq> index_filename v"
  by (simp add: data_filename_def index_filename_def)

lemma filename_cong:
  assumes "v_id v = v_id w" and "v_dir v = v_dir w" and "v_collection v = v_collection w"
  shows "data_filename v = data_filename w" and "index_filename v = index_filename w"
  using assms by (simp_all add: data_filename_def index_filename_def volume_filename_def Let_def)

lemma load_created:
  fixes now :: u64
  assumes nf: "fs_faults s = []" and fresh: "fs_names s (data_filename v) = None"
    and v: "v_data_file v = None"
  defines "s1 \<equiv> fst (fs_alloc s (data_filename v) now)"
  defines "v1 \<equiv> v\<lparr>v_last_modified := now, v_data_file := Some (fs_next s),
      v_no_write_or_delete := False, v_no_write_can_delete := False\<rparr>"
  shows "volume_load crc now s v True with_index =
    (let s2 = fs_set s1 (fs_next s) (super_block_as_bytes (v_super_block v)) in
     if with_index then load_index crc now s2 v1 else Ok ((), v1, s2))"
proof -
  have l: "load_locate now s v True = Ok (fs_next s, False, s1)"
    using fresh
    by (simp add: load_locate_def metadata_def open_create_truncate_def fs_alloc_def s1_def Let_def)
  have a: "fs_readonly s1 (fs_next s) = False" "fs_mtime s1 (fs_next s) = now"
    "fs_names s1 (data_filename v) = Some (fs_next s)" "fs_data s1 (fs_next s) = []"
    "fs_faults s1 = []"
    using nf by (simp_all add: s1_def fs_alloc_def Let_def)
  let ?v = "v\<lparr>v_last_modified := now, v_data_file := Some (fs_next s)\<rparr>"
  have o: "load_open s1 v (fs_next s) = Ok ?v"
    using a filename_cong(1) [of "v\<lparr>v_last_modified := now\<rparr>" v]
    by (simp add: load_open_def open_write_def)
  have "overwrite [] 0 bs = bs" for bs
    using overwrite_at_end [of "[]" bs] by simp
  then have "write_super_block s1 ?v = Ok ((), v1,
      fs_set s1 (fs_next s) (super_block_as_bytes (v_super_block v)))"
    using a by (simp add: write_super_block_def volume_data_file_def metadata_len_def
        write_all_at_def v1_def)
  then show ?thesis
    using v l o by (simp add: volume_load_def Let_def)
qed

lemma volume_new_fresh:
  assumes wf: "fs_wf s" and nf: "fs_faults s = []"
    and v: "v = volume_default\<lparr>v_id := vid, v_dir := dir, v_collection := collection,
        v_super_block := super_block_default\<lparr>sb_replica_placement := rp, sb_ttl := t\<rparr>\<rparr>"
    and fresh: "fs_names s (data_filename v) = None"
    and idx: "\<And>i. fs_names s (index_filename v) = Some i \<Longrightarrow> \<not> fs_readonly s i"
  shows "\<exists>v' s'. volume_new crc now s dir collection vid rp t = Ok ((), v', s')
    \<and> vol_rel crc s' v' Map.empty \<and> \<not> volume_readonly v' \<and> has_room s' v'"
proof -
  let ?sb = "super_block_as_bytes (v_super_block v)" and ?i = "fs_next s"
  let ?s2 = "fs_set (fst (fs_alloc s (data_filename v) now)) ?i ?sb"
  let ?v1 = "v\<lparr>v_last_modified := now, v_data_file := Some ?i,
      v_no_write_or_delete := False, v_no_write_can_delete := False\<rparr>"
  have nm: "index_filename ?v1 = index_filename v"
    by (rule filename_cong) simp_all
  obtain s3 x where o: "open_create_truncate ?s2 (index_filename ?v1) now = Ok (s3, x)"
      and x: "x \<noteq> ?i" "fs_data s3 ?i = ?sb"
    using wf idx data_index_filename [of v] unfolding nm
    by (cases "fs_names s (index_filename v)")
      (fastforce simp: open_create_truncate_def fs_alloc_def Let_def fs_wf_def)+
  obtain nm where "load_index crc now ?s2 ?v1 = Ok ((), ?v1\<lparr>v_needle_mapper := Some nm\<rparr>, s3)"
      and n: "nm_map nm = Map.empty" "nm_index_file nm = Some x" "metric_ok nm"
    using load_index_writable [OF _ _ o, of crc] by auto
  moreover have "v_data_file v = None" "sb_version (v_super_block v) = CURRENT_VERSION"
    by (simp_all add: v volume_default_def super_block_default_def)
  ultimately have "volume_new crc now s dir collection vid rp t
      = Ok ((), ?v1\<lparr>v_needle_mapper := Some nm\<rparr>, s3)"
    using load_created [OF nf fresh, where now = now and crc = crc and with_index = True] by (simp add: volume_new_def v [symmetric] Let_def)
  moreover have "vol_rel crc s3 (?v1\<lparr>v_needle_mapper := Some nm\<rparr>) Map.empty"
    using n x \<open>sb_version (v_super_block v) = CURRENT_VERSION\<close>
    by (simp add: vol_rel_def volume_version_def SUPER_BLOCK_SIZE_def map_rel_def)
  ultimately show ?thesis
    using x(2) by (auto simp: volume_readonly_def has_room_def)
qed

subsection \<open>Scanning\<close>

definition header_needle :: "needle \<Rightarrow> needle" where
  "header_needle n = needle_default\<lparr>n_cookie := n_cookie n, n_id := n_id n, n_size := n_size n\<rparr>"

text \<open>The needle the visitor is given for the record of \<open>n\<close>.\<close>

definition scanned :: "(bytes \<Rightarrow> u32) \<Rightarrow> needle \<Rightarrow> needle" where
  "scanned crc n = (overlay n (header_needle n))\<lparr>n_checksum := crc (n_data n)\<rparr>"

text \<open>
  A record without data can be scanned when its checksum is that of no bytes: the reader takes the checksum for a
  length.
\<close>

definition scannable :: "needle \<Rightarrow> bool" where
  "scannable n \<longleftrightarrow> sizes_ok n \<and> (n_data n = [] \<longrightarrow> n_checksum n = 0)"

text \<open>The visitor goes from state to state by \<open>g\<close>, with or without an error that the scan passes over.\<close>

definition visits :: "'st visitor \<Rightarrow> (needle \<Rightarrow> u64 \<Rightarrow> 'st \<Rightarrow> 'st) \<Rightarrow> bool" where
  "visits visit g \<longleftrightarrow> (\<forall>m i st. visit m i st = Ok (g m i st) \<or>
     (\<exists>e. e \<noteq> VNeedle (NIo UnexpectedEof) \<and> visit m i st = Err (e, g m i st)))"

fun visit_records ::
    "(bytes \<Rightarrow> u32) \<Rightarrow> (needle \<Rightarrow> u64 \<Rightarrow> 'st \<Rightarrow> 'st) \<Rightarrow> u64 \<Rightarrow> needle list \<Rightarrow> 'st \<Rightarrow> 'st" where
  "visit_records crc g off [] st = st"
| "visit_records crc g off (n # ns) st =
     visit_records crc g (off + of_nat (length (needle_record n))) ns (g (scanned crc n) off st)"

lemma unat_body_len:
  assumes "sizes_ok n"
  shows "unat (body_len (header_needle n)) = length (payload n) + 4 + unat (padding_len (n_size n))"
proof -
  let ?z = "size_val (n_size n)" and ?p = "padding_len (n_size n)"
  have b: "length (payload n) + 28 < 2 ^ 31"
    using assms by (simp add: sizes_ok_def)
  have "unat (?z + 4) = length (payload n) + 4"
    using b unat_size_ok [OF assms] by (simp add: unat_word_ariths)
  then have "unat (?z + 4 + ?p) = length (payload n) + 4 + unat ?p"
    using b padding_len_range(2) [of "n_size n"] unat_add_lem [of "?z + 4" ?p] by simp
  then show ?thesis
    by (simp add: body_len_def header_needle_def NEEDLE_CHECKSUM_SIZE_def)
qed

lemma record_length_body_len:
  assumes "sizes_ok n"
  shows "length (needle_record n) = 16 + unat (body_len (header_needle n))"
  by (simp add: needle_record_def unat_body_len [OF assms])

lemma next_record_offset:
  assumes "sizes_ok n"
  shows "(ucast (NEEDLE_ENTRY_SIZE + body_len (header_needle n)) :: u64)
    = of_nat (length (needle_record n))"
proof -
  let ?b = "body_len (header_needle n)"
  have "16 + unat ?b < 2 ^ 32"
    using assms unat_body_len [OF assms] padding_len_range(2) [of "n_size n"]
    by (simp add: sizes_ok_def)
  then have "unat (16 + ?b) = 16 + unat ?b" and "16 + unat ?b < 2 ^ 32"
    using unat_add_lem [of 16 ?b] by simp_all
  moreover from this have "unat (of_nat (16 + unat ?b) :: u64) = 16 + unat ?b"
    by (intro unat_of_nat_small) simp
  ultimately have "unat (ucast (16 + ?b) :: u64) = unat (of_nat (16 + unat ?b) :: u64)"
    by (simp add: unat_ucast_mod)
  then show ?thesis
    by (simp add: record_length_body_len [OF assms] NEEDLE_ENTRY_SIZE_def word_unat_eq_iff)
qed

lemma read_header_record:
  assumes "drop (unat off) file = needle_record n @ post"
  shows "read_needle_header file VERSION2 off = Ok (header_needle n, body_len (header_needle n))"
proof -
  let ?h = "put_u32 (n_cookie n) @ put_u64 (n_id n) @ put_u32 (size_val (n_size n))"
  have "length file - unat off = length (needle_record n) + length post"
    using arg_cong [OF assms, of length] by simp
  then have "unat off + 16 \<le> length file"
    by (simp add: needle_record_def)
  moreover have "take 16 (drop (unat off) file) = ?h"
    by (simp add: assms needle_record_def)
  moreover have "parse_needle_header needle_default ?h
      = (Ok (header_needle n) :: (needle, needle_error) result)"
    using parse_needle_header_record [of needle_default "n_cookie n" "n_id n" "size_val (n_size n)" "[]"]
    by (simp add: header_needle_def)
  ultimately show ?thesis
    by (simp add: read_needle_header_def read_exact_at_def NEEDLE_ENTRY_SIZE_def)
qed

lemma read_header_end:
  assumes "drop (unat off) file = []"
  shows "read_needle_header file VERSION2 off = Err (NIo UnexpectedEof)"
  using assms by (simp add: read_needle_header_def read_exact_at_def NEEDLE_ENTRY_SIZE_def)

lemma case_not_eof:
  "e \<noteq> VNeedle (NIo UnexpectedEof) \<Longrightarrow> (case e of VNeedle (NIo UnexpectedEof) \<Rightarrow> a | _ \<Rightarrow> b) = b"
  by (simp split: volume_error.split needle_error_of.split io_error.split)

lemma read_empty_body:
  assumes "n_data_size m = 0" "n_data m = []" "n_flags m = 0"
  shows "read_needle_data m (0 # 0 # 0 # 0 # 0 # bs) = Ok m"
proof -
  have "get_u32 [0, 0, 0, 0] = (Ok (0, []) :: (u32 \<times> bytes, needle_error \<times> needle) result)"
    by code_simp
  then show ?thesis
    using assms
    by (simp add: read_needle_data_def read_data_part_def slice_def index_def read_name_part_def read_mime_part_def
      read_last_modified_part_def read_ttl_part_def read_pairs_part_def has_defs has_flag_def)
qed

lemma read_body_record:
  assumes "drop (unat off) file = needle_record n @ post" and "scannable n"
    and "unat off + 16 < 2 ^ 64"
  shows "read_needle_body crc (header_needle n) file (off + 16) (body_len (header_needle n)) VERSION2
    = Ok (scanned crc n)"
proof -
  have sz: "sizes_ok n"
    using assms(2) by (simp add: scannable_def)
  let ?t = "put_u32 (n_checksum n) @ replicate (unat (padding_len (n_size n))) 0"
  let ?b = "unat (body_len (header_needle n))"
  have o: "unat (off + 16) = unat off + 16"
    using assms(3) unat_add_lem [of off 16] by simp
  have "drop (unat off + 16) file = drop 16 (needle_record n @ post)"
    by (simp only: assms(1) [symmetric] drop_drop add.commute)
  then have d: "drop (unat off + 16) file = (payload n @ ?t) @ post"
    by (simp add: needle_record_def)
  have b: "?b = length (payload n @ ?t)"
    by (simp add: unat_body_len [OF sz])
  have "length file - (unat off + 16) = ?b + length post"
    using arg_cong [OF d, of length] b by simp
  moreover have "0 < ?b"
    using b by simp
  ultimately have "read_exact_at file ?b (off + 16) = Ok (payload n @ ?t)"
    using d b by (simp add: read_exact_at_def o)
  then have r: "read_needle_body crc (header_needle n) file (off + 16) (body_len (header_needle n)) VERSION2
      = rbind (read_needle_data (header_needle n) (payload n @ ?t)) (\<lambda>n. Ok (n\<lparr>n_checksum := crc (n_data n)\<rparr>))"
    using \<open>0 < ?b\<close> by (auto simp: read_needle_body_def)
  show ?thesis
  proof (cases "n_data_size n = 0")
    case True
    then have "n_data n = []" "payload n = []" "n_checksum n = 0"
      using assms(2) by (simp_all add: scannable_def sizes_ok_def payload_def)
    moreover have "put_u32 0 = [0, 0, 0, 0]"
      by code_simp
    moreover obtain k where "unat (padding_len (n_size n)) = Suc k"
      using padding_len_range(1) [of "n_size n"] by (cases "unat (padding_len (n_size n))") auto
    moreover have "n_data_size (header_needle n) = 0" "n_data (header_needle n) = []" "n_flags (header_needle n) = 0"
      by (simp_all add: header_needle_def needle_default_def)
    ultimately show ?thesis
      using True by (simp add: r read_empty_body scanned_def overlay_def)
  next
    case False
    then show ?thesis
      using read_needle_data_tail [OF sz False, of "header_needle n" ?t]
      by (simp add: r scanned_def overlay_data)
  qed
qed

lemma scan_loop_step:
  assumes "drop (unat off) file = needle_record n @ post" and "scannable n"
    and "length file < 2 ^ 63" and "visits visit g"
  defines "off' \<equiv> off + of_nat (length (needle_record n))"
  shows "scan_loop (Suc fuel) crc file VERSION2 True visit (header_needle n)
      (body_len (header_needle n)) off st =
    (case read_needle_header file VERSION2 off' of
       Ok (m, blen) \<Rightarrow> scan_loop fuel crc file VERSION2 True visit m blen off' (g (scanned crc n) off st)
     | Err (NIo UnexpectedEof) \<Rightarrow> Some (Ok (g (scanned crc n) off st))
     | Err e \<Rightarrow> Some (Err (VNeedle e, g (scanned crc n) off st))
     | Panic \<Rightarrow> Some Panic)"
    and "unat off' = unat off + length (needle_record n)"
proof -
  have l: "unat off + length (needle_record n) \<le> length file"
    using arg_cong [OF assms(1), of length] by (auto simp: needle_record_def)
  then have "unat off + 16 < 2 ^ 64"
    using assms(3) by (simp add: needle_record_def)
  note b = read_body_record [OF assms(1-2) this, of crc]
  have e: "(ucast NEEDLE_ENTRY_SIZE :: u64) = 16"
    by (simp add: NEEDLE_ENTRY_SIZE_def)
  show "scan_loop (Suc fuel) crc file VERSION2 True visit (header_needle n)
      (body_len (header_needle n)) off st =
    (case read_needle_header file VERSION2 off' of
       Ok (m, blen) \<Rightarrow> scan_loop fuel crc file VERSION2 True visit m blen off' (g (scanned crc n) off st)
     | Err (NIo UnexpectedEof) \<Rightarrow> Some (Ok (g (scanned crc n) off st))
     | Err e \<Rightarrow> Some (Err (VNeedle e, g (scanned crc n) off st))
     | Panic \<Rightarrow> Some Panic)"
    using assms(4) [unfolded visits_def, rule_format, of "scanned crc n" off st] assms(2)
    by (auto simp: e b next_record_offset scannable_def off'_def [symmetric] Let_def case_not_eof)
  have "unat (of_nat (length (needle_record n)) :: u64) = length (needle_record n)"
    using l assms(3) by (intro unat_of_nat_small) simp
  then show "unat off' = unat off + length (needle_record n)"
    unfolding off'_def using l assms(3) unat_add_lem [of off "of_nat (length (needle_record n))"]
    by simp
qed

lemma scan_loop_records:
  assumes "drop (unat off) file = concat (map needle_record (n # ns))"
    and "\<forall>m \<in> set (n # ns). scannable m"
    and "length file < 2 ^ 63" and "length ns < fuel"
    and "visits visit g"
  shows "scan_loop fuel crc file VERSION2 True visit (header_needle n) (body_len (header_needle n)) off st
    = Some (Ok (visit_records crc g off (n # ns) st))"
  using assms(1,2,4)
proof (induction ns arbitrary: fuel n off st)
  case Nil
  then obtain f where f: "fuel = Suc f"
    by (cases fuel) auto
  have d: "drop (unat off) file = needle_record n @ []"
    using Nil by simp
  note step = scan_loop_step [where visit = visit and g = g, OF d _ assms(3,5)]
  have "drop (unat off + length (needle_record n)) file = []"
    using arg_cong [OF d, of "drop (length (needle_record n))"] by (simp add: add.commute)
  then show ?case
    using step(1) [where fuel = f and crc = crc and st = st] step(2) Nil(2) read_header_end
    by (simp add: f del: scan_loop.simps)
next
  case (Cons m ns)
  then obtain f where f: "fuel = Suc f" and "length ns < f"
    by (cases fuel) auto
  have d: "drop (unat off) file = needle_record n @ concat (map needle_record (m # ns))"
    using Cons.prems by simp
  note step = scan_loop_step [where visit = visit and g = g, OF d _ assms(3,5)]
  let ?o = "off + of_nat (length (needle_record n))"
  have "drop (unat off + length (needle_record n)) file = concat (map needle_record (m # ns))"
    using arg_cong [OF d, of "drop (length (needle_record n))"] by (simp add: add.commute)
  then have d': "drop (unat ?o) file = concat (map needle_record (m # ns))"
    using step(2) Cons.prems(2) by simp
  then have "read_needle_header file VERSION2 ?o = Ok (header_needle m, body_len (header_needle m))"
    by (intro read_header_record) simp
  then show ?case
    using step(1) [where fuel = f and crc = crc and st = st] Cons.prems(2) Cons.IH [OF d' _ \<open>length ns < f\<close>]
    by (simp add: f del: scan_loop.simps)
qed

text \<open>
  A header whose size field makes the record length wrap to zero stops the scan from advancing:
  no amount of fuel is enough.
\<close>

lemma scan_loop_stuck:
  assumes "NEEDLE_ENTRY_SIZE + rest = 0" and "read_needle_header file version off = Ok (n, rest)"
    and "\<And>m i st. visit m i st = Ok (g m i st)"
  shows "scan_loop fuel crc file version False visit n rest off st = None"
  using assms by (induction fuel arbitrary: st) (simp_all add: Let_def)

subsection \<open>Properties\<close>

text \<open>A volume of one file for concrete evaluations.\<close>

definition sample_crc :: "bytes \<Rightarrow> u32" where
  "sample_crc bs = of_nat (length bs)"

definition sample_needle :: needle where
  "sample_needle = needle_default\<lparr>n_id := 7, n_cookie := 9, n_data := [1, 2, 3], n_checksum := 3\<rparr>"

definition sample_fs :: fs where
  "sample_fs =
     \<lparr>fs_names = [''v/1.dat'' \<mapsto> 0, ''v/1.idx'' \<mapsto> 1],
      fs_data = (\<lambda>i. if i = 0 then super_block_as_bytes super_block_default else []),
      fs_readonly = (\<lambda>_. False), fs_mtime = (\<lambda>_. 0), fs_next = 2, fs_faults = []\<rparr>"

definition sample_volume :: volume where
  "sample_volume = volume_default\<lparr>v_id := 1, v_dir := ''v'', v_data_file := Some 0,
     v_needle_mapper := Some ((needle_mapper_new 1)\<lparr>nm_index_file := Some 1\<rparr>)\<rparr>"

definition sample_fs1 :: fs where
  "sample_fs1 = fs_set sample_fs 0
     (overwrite (fs_data sample_fs 0) (unat (append_needle_at (fs_data sample_fs 0)))
       (needle_record (stored sample_needle)))"

definition sample_volume1 :: volume where
  "sample_volume1 = sample_volume\<lparr>v_needle_mapper := Some (nm_after_set
     ((needle_mapper_new 1)\<lparr>nm_index_file := Some 1\<rparr>) 7
     \<lparr>nv_offset = offset_from (append_needle_at (fs_data sample_fs 0)),
      nv_size = n_size (stored sample_needle)\<rparr>)\<rparr>"

lemma sample_rel: "vol_rel crc sample_fs sample_volume Map.empty"
  using metric_ok_new [of 1]
  by (simp add: vol_rel_def sample_fs_def sample_volume_def volume_default_def volume_version_def
      super_block_default_def SUPER_BLOCK_SIZE_def map_rel_def needle_mapper_new_def
      memory_map_new_def metric_ok_def)

lemma sample_needle_fits: "needle_fits sample_needle"
  by (simp add: needle_fits_def sample_needle_def needle_default_def has_defs has_flag_def)

lemma sample_checksum: "n_checksum sample_needle = sample_crc (n_data sample_needle)"
  by (simp add: sample_needle_def needle_default_def sample_crc_def)

lemma sample_writable: "\<not> volume_readonly sample_volume" "has_room sample_fs sample_volume"
  by (simp_all add: sample_volume_def volume_default_def volume_readonly_def has_room_def
      sample_fs_def)

lemma sample_sizes:
  "length (fs_data sample_fs 0) = 8" "unat (append_needle_at (fs_data sample_fs 0)) = 8"
  "length (needle_record (stored sample_needle)) = 32"
  by code_simp+

lemma sample_rel1: "vol_rel sample_crc sample_fs1 sample_volume1 [7 \<mapsto> stored sample_needle]"
proof -
  let ?f = "fs_data sample_fs 0"
  have l: "SUPER_BLOCK_SIZE \<le> length ?f" "length ?f + 8 \<le> 2 ^ 32"
    by (simp_all add: sample_fs_def SUPER_BLOCK_SIZE_def)
  have "map_rel sample_crc (fs_data sample_fs1 0) Map.empty Map.empty"
    by (simp add: map_rel_def)
  from map_rel_update [OF this, where n = "stored sample_needle"]
  have "map_rel sample_crc (fs_data sample_fs1 0)
      [7 \<mapsto> \<lparr>nv_offset = offset_from (append_needle_at ?f), nv_size = n_size (stored sample_needle)\<rparr>]
      [7 \<mapsto> stored sample_needle]"
    using written_holds_needle [of sample_needle sample_crc ?f, OF sample_needle_fits sample_checksum l]
    by (simp add: sample_fs1_def sample_needle_def)
  moreover have "metric_ok ((needle_mapper_new 1)\<lparr>nm_index_file := Some 1\<rparr>)"
    using metric_ok_new [of 1] by (simp add: metric_ok_def)
  ultimately show ?thesis
    using l metric_ok_after_set
    by (simp add: vol_rel_def sample_volume1_def sample_volume_def volume_default_def
        volume_version_def super_block_default_def sample_fs1_def needle_mapper_new_def
        memory_map_new_def)
qed

text \<open>
  C1: writing a needle to a writable volume with room refines an update of the abstract map.
  Either it succeeds and the map is updated; or the write of the record fails, the data file is
  cut back, and the map is unchanged; or the write of the index entry fails after the update. No
  other needle is touched in any case, and the counters keep their invariant.
\<close>

theorem write_needle_refines:
  assumes "vol_rel crc s v A" and "\<not> volume_readonly v" and "has_room s v"
    and "needle_fits n" and "n_checksum n = crc (n_data n)"
  shows "case write_needle s v n of
      Ok (k, n', v', s') \<Rightarrow> k = length (n_data n) \<and> n' = stored n
        \<and> vol_rel crc s' v' (A(n_id n \<mapsto> stored n))
    | Err (VNeedle e, n', v', s') \<Rightarrow> e = NIo WriteFailed \<and> v' = v \<and> vol_rel crc s' v A
    | Err (e, n', v', s') \<Rightarrow> vol_rel crc s' v' (A(n_id n \<mapsto> stored n))
    | Panic \<Rightarrow> False"
  using write_needle_cases [OF assms] by auto

theorem write_needle_refines_witness:
  "\<exists>v' s'. write_needle sample_fs sample_volume sample_needle = Ok (3, stored sample_needle, v', s')
     \<and> vol_rel sample_crc s' v' [7 \<mapsto> stored sample_needle]"
proof -
  have "n_id sample_needle = 7" "length (n_data sample_needle) = 3" "fs_faults sample_fs = []"
    by (simp_all add: sample_needle_def sample_fs_def)
  then show ?thesis
    using write_needle_refines [of sample_crc sample_fs sample_volume Map.empty sample_needle,
        OF sample_rel sample_writable sample_needle_fits sample_checksum]
      write_needle_no_fault [OF sample_rel sample_writable(1) sample_needle_fits]
    by auto
qed

text \<open>
  C2: reading refines a lookup. An id the abstract map does not have is reported as not found;
  otherwise the stored needle is read back (data, flags, cookie and the optional fields its flags
  announce) and returned, unless its time to live has passed.
\<close>

theorem read_needle_refines:
  assumes "vol_rel crc s v A"
    and "\<And>n. A (n_id m) = Some n \<Longrightarrow> n_data n = [] \<Longrightarrow> n_data m = []"
  shows "read_needle crc now s v m =
    (case A (n_id m) of
       None \<Rightarrow> Err (VNeedle (NNotFound (n_id m)), m)
     | Some n \<Rightarrow>
         if needle_expired now (read_back n m)
         then Err (VNeedle (NExpired (v_id v) (n_id m)), read_back n m)
         else Ok (length (n_data n), read_back n m))"
  using assms read_needle_absent [OF assms(1)] read_needle_present [OF assms(1)]
  by (cases "A (n_id m)") auto

theorem read_needle_refines_witness:
  "read_needle sample_crc 0 sample_fs1 sample_volume1 (needle_default\<lparr>n_id := 7\<rparr>) =
     Ok (3, read_back (stored sample_needle) (needle_default\<lparr>n_id := 7\<rparr>))"
proof -
  let ?m = "needle_default\<lparr>n_id := 7\<rparr>"
  have "\<not> needle_expired 0 (read_back (stored sample_needle) ?m)"
    by (simp add: needle_expired_def has_defs has_flag_def sample_needle_def needle_default_def)
  then show ?thesis
    using read_needle_refines [OF sample_rel1, of ?m 0]
    by (simp add: sample_needle_def needle_default_def)
qed

text \<open>
  C3: deleting refines the removal of an id from the abstract map; deleting an id the map does not
  have changes nothing. A failed write of the record leaves the map as it was, a failed write of
  the index entry comes after the removal.
\<close>

theorem delete_needle_refines:
  assumes "vol_rel crc s v A" and "\<not> volume_readonly v" and "has_room s v"
  shows "if A (n_id n) = None then delete_needle s v n = Ok (0, n, v, s)
    else case delete_needle s v n of
        Ok (k, n', v', s') \<Rightarrow> k = length (n_data n) \<and> vol_rel crc s' v' (A(n_id n := None))
      | Err (VNeedle e, n', v', s') \<Rightarrow> e = NIo WriteFailed \<and> v' = v \<and> vol_rel crc s' v A
      | Err (e, n', v', s') \<Rightarrow> vol_rel crc s' v' (A(n_id n := None))
      | Panic \<Rightarrow> False"
  using delete_needle_cases [OF assms, of n] by (auto split: if_splits)

theorem delete_needle_refines_witness:
  "\<exists>n' v' s'. delete_needle sample_fs1 sample_volume1 sample_needle = Ok (3, n', v', s')
     \<and> vol_rel sample_crc s' v' Map.empty"
proof -
  have w: "\<not> volume_readonly sample_volume1" "has_room sample_fs1 sample_volume1"
    by (simp_all add: sample_volume1_def volume_readonly_def has_room_def sample_fs1_def
        sample_volume_def volume_default_def sample_sizes)
  have n: "n_id sample_needle = 7" "length (n_data sample_needle) = 3" "fs_faults sample_fs1 = []"
    by (simp_all add: sample_needle_def sample_fs1_def sample_fs_def)
  have "[7 \<mapsto> stored sample_needle] (7 := None) = Map.empty"
    by simp
  moreover obtain n' v' s' where
      "delete_needle sample_fs1 sample_volume1 sample_needle = Ok (3, n', v', s')"
    using delete_needle_no_fault [OF sample_rel1 w(1), of sample_needle] n by auto
  ultimately show ?thesis
    using delete_needle_refines [OF sample_rel1 w, of sample_needle] n by auto
qed

text \<open>
  A write to a volume whose files accept every write succeeds.
\<close>

theorem write_needle_succeeds:
  assumes "vol_rel crc s v A" and "\<not> volume_readonly v" and "needle_fits n" and "fs_faults s = []"
  shows "\<exists>v' s'. write_needle s v n = Ok (length (n_data n), stored n, v', s')"
  using write_needle_no_fault [OF assms] .

theorem write_needle_succeeds_witness:
  "\<exists>v' s'. write_needle sample_fs sample_volume sample_needle
     = Ok (length (n_data sample_needle), stored sample_needle, v', s')"
  by (rule write_needle_succeeds [OF sample_rel sample_writable(1) sample_needle_fits])
    (simp add: sample_fs_def)

text \<open>
  C28: creating a volume where no data file exists yields a writable volume whose abstract map is
  empty, with its super block in the data file.
\<close>

theorem volume_new_creates:
  assumes "fs_wf s" and "fs_faults s = []"
    and "fs_names s (data_filename (volume_default\<lparr>v_id := vid, v_dir := dir,
        v_collection := collection\<rparr>)) = None"
    and "\<And>i. fs_names s (index_filename (volume_default\<lparr>v_id := vid, v_dir := dir,
        v_collection := collection\<rparr>)) = Some i \<Longrightarrow> \<not> fs_readonly s i"
  shows "\<exists>v s'. volume_new crc now s dir collection vid rp t = Ok ((), v, s')
    \<and> vol_rel crc s' v Map.empty \<and> \<not> volume_readonly v \<and> has_room s' v"
proof -
  let ?w = "volume_default\<lparr>v_id := vid, v_dir := dir, v_collection := collection\<rparr>"
  let ?v = "?w\<lparr>v_super_block := super_block_default\<lparr>sb_replica_placement := rp, sb_ttl := t\<rparr>\<rparr>"
  have "data_filename ?v = data_filename ?w" "index_filename ?v = index_filename ?w"
    by (rule filename_cong; simp)+
  then show ?thesis
    using volume_new_fresh [OF assms(1,2) refl, where vid = vid and dir = dir and collection = collection
        and rp = rp and t = t and crc = crc and now = now] assms(3,4) by simp
qed

theorem volume_new_creates_witness:
  "\<exists>v s'. volume_new sample_crc 100 (sample_fs\<lparr>fs_names := Map.empty\<rparr>) ''v'' '''' 1 rp_default
        ttl_default = Ok ((), v, s')
    \<and> vol_rel sample_crc s' v Map.empty \<and> \<not> volume_readonly v \<and> has_room s' v"
  by (rule volume_new_creates) (simp_all add: fs_wf_def sample_fs_def)

text \<open>
  C32: whatever a volume held, after loading it with its index every read reports its needle as not
  found: the index file of a writable volume is opened with \<open>truncate(true)\<close>, so the needle map is
  always loaded from an empty file.
\<close>

theorem volume_load_forgets:
  assumes "volume_load crc now s v create True = Ok ((), v', s')"
  shows "read_needle crc now' s' v' m = Err (VNeedle (NNotFound (n_id m)), m)"
  using volume_load_empties [OF assms]
  by (auto simp: read_needle_def get_index_def volume_needle_mapper_def nm_get_def')

theorem volume_load_forgets_witness:
  "case volume_load sample_crc 0 sample_fs1 (sample_volume\<lparr>v_data_file := None\<rparr>) False True of
     Ok (u, v', s') \<Rightarrow> read_needle sample_crc 0 s' v' (needle_default\<lparr>n_id := 7\<rparr>)
       = Err (VNeedle (NNotFound 7), needle_default\<lparr>n_id := 7\<rparr>)
   | _ \<Rightarrow> False"
proof -
  have "is_ok (volume_load sample_crc 0 sample_fs1 (sample_volume\<lparr>v_data_file := None\<rparr>) False True)"
    by code_simp
  then obtain v' s' where
      l: "volume_load sample_crc 0 sample_fs1 (sample_volume\<lparr>v_data_file := None\<rparr>) False True
        = Ok ((), v', s')"
    by (cases "volume_load sample_crc 0 sample_fs1 (sample_volume\<lparr>v_data_file := None\<rparr>) False True")
      auto
  show ?thesis
    using volume_load_forgets [OF l, of 0 "needle_default\<lparr>n_id := 7\<rparr>"] by (simp add: l)
qed


text \<open>
  C29: scanning the file of a volume visits every record, in file order, at its offset, with the
  needle that was stored, whether or not the visitor fails on some of them; a record without data
  needs the checksum of no bytes. Fuel for one step per record is enough, so the scan ends.
\<close>

theorem scan_visits_records:
  assumes "drop (unat off) file = concat (map needle_record (n # ns))"
    and "\<forall>m \<in> set (n # ns). scannable m"
    and "length file < 2 ^ 63" and "length ns < fuel"
    and "visits visit g"
  shows "\<exists>h b. read_needle_header file VERSION2 off = Ok (h, b) \<and>
    scan_loop fuel crc file VERSION2 True visit h b off st
      = Some (Ok (visit_records crc g off (n # ns) st))"
proof -
  have "read_needle_header file VERSION2 off = Ok (header_needle n, body_len (header_needle n))"
    by (rule read_header_record) (use assms(1) in simp)
  then show ?thesis
    using scan_loop_records [OF assms] by simp
qed

theorem scan_visits_records_witness:
  "\<exists>h b. read_needle_header (fs_data sample_fs1 0) VERSION2 8 = Ok (h, b) \<and>
    scan_loop 1 sample_crc (fs_data sample_fs1 0) VERSION2 True (\<lambda>m i st. Ok ((n_data m, i) # st)) h b 8 []
      = Some (Ok [([1, 2, 3], 8)])"
proof -
  have d: "drop (unat (8 :: u64)) (fs_data sample_fs1 0)
      = concat (map needle_record [stored sample_needle])"
    by code_simp
  have l: "length (fs_data sample_fs1 0) < 2 ^ 63"
    by (simp add: sample_fs1_def sample_sizes)
  have "\<forall>m \<in> set [stored sample_needle]. scannable m"
    using sizes_ok_stored [OF sample_needle_fits] by (simp add: scannable_def sample_needle_def)
  from scan_visits_records [OF d this l, of 1 "\<lambda>m i st. Ok ((n_data m, i) # st)"
      "\<lambda>m i st. (n_data m, i) # st" sample_crc "[]"]
  have "\<exists>h b. read_needle_header (fs_data sample_fs1 0) VERSION2 8 = Ok (h, b) \<and>
    scan_loop 1 sample_crc (fs_data sample_fs1 0) VERSION2 True (\<lambda>m i st. Ok ((n_data m, i) # st)) h b 8 []
      = Some (Ok (visit_records sample_crc (\<lambda>m i st. (n_data m, i) # st) 8 [stored sample_needle] []))"
    by (simp add: visits_def)
  moreover have "visit_records sample_crc (\<lambda>m i st. (n_data m, i) # st) 8 [stored sample_needle] []
      = [([1, 2, 3], 8)]"
    by code_simp
  ultimately show ?thesis
    by simp
qed



end
