(* ===== verification/Sequence.thy ===== *)
theory Sequence
  imports Prelude
begin

section \<open>File id sequences\<close>

text \<open>
  \<open>sequence/mod.rs\<close>, \<open>memory.rs\<close> and \<open>snowflake.rs\<close>: the source of needle keys. The generator of
  the \<open>sonyflake\<close> crate is the parameter \<open>flake_next\<close>, a function of its state. \<open>id_source\<close> is
  what a caller relies on: a reservation starts at or above everything reserved before.
\<close>

record memory_sequencer =
  counter :: u64

definition memory_sequencer_new :: memory_sequencer where
  "memory_sequencer_new = \<lparr>counter = 1\<rparr>"

definition memory_next_file_id :: "memory_sequencer \<Rightarrow> u64 \<Rightarrow> u64 \<times> memory_sequencer" where
  "memory_next_file_id s count = (counter s, s\<lparr>counter := counter s + count\<rparr>)"

definition memory_set_max :: "memory_sequencer \<Rightarrow> u64 \<Rightarrow> memory_sequencer" where
  "memory_set_max s seen_value =
     (if counter s \<le> seen_value then s\<lparr>counter := seen_value\<rparr> else s)"

type_synonym ('f, 'e) flake_next = "'f \<Rightarrow> ('e + u64) \<times> 'f"

definition snowflake_next_file_id ::
    "('f, 'e) flake_next \<Rightarrow> 'f \<Rightarrow> u64 \<Rightarrow> (u64 \<times> 'f, 'e \<times> 'f) result" where
  "snowflake_next_file_id flake_next s count =
     (case flake_next s of (Inr i, s') \<Rightarrow> Ok (i, s') | (Inl e, s') \<Rightarrow> Err (e, s'))"

definition snowflake_set_max :: "'f \<Rightarrow> u64 \<Rightarrow> 'f" where
  "snowflake_set_max s seen_value = s"

datatype sequencer_type = MemoryType | SnowflakeType

datatype 'f sequencer = Memory memory_sequencer | Snowflake 'f

definition sequencer_new ::
    "('f, 'e) result \<Rightarrow> sequencer_type \<Rightarrow> ('f sequencer, 'e) result" where
  "sequencer_new flake_new typ =
     (case typ of
        SnowflakeType \<Rightarrow> rbind flake_new (\<lambda>f. Ok (Snowflake f))
      | MemoryType \<Rightarrow> Ok (Memory memory_sequencer_new))"

definition sequencer_next_file_id ::
    "('f, 'e) flake_next \<Rightarrow> 'f sequencer \<Rightarrow> u64 \<Rightarrow> (u64 \<times> 'f sequencer, 'e \<times> 'f sequencer) result" where
  "sequencer_next_file_id flake_next s count =
     (case s of
        Memory m \<Rightarrow> (case memory_next_file_id m count of (i, m') \<Rightarrow> Ok (i, Memory m'))
      | Snowflake f \<Rightarrow>
          (case snowflake_next_file_id flake_next f count of
             Ok (i, f') \<Rightarrow> Ok (i, Snowflake f')
           | Err (e, f') \<Rightarrow> Err (e, Snowflake f')
           | Panic \<Rightarrow> Panic))"

fun sequencer_set_max :: "'f sequencer \<Rightarrow> u64 \<Rightarrow> 'f sequencer" where
  "sequencer_set_max (Memory m) v = Memory (memory_set_max m v)"
| "sequencer_set_max (Snowflake f) v = Snowflake (snowflake_set_max f v)"

subsection \<open>Reservations\<close>

text \<open>The reservations a sequence of requests obtains: the first id and the number of ids.\<close>

fun reserve :: "('s \<Rightarrow> u64 \<Rightarrow> u64 \<times> 's) \<Rightarrow> 's \<Rightarrow> u64 list \<Rightarrow> (nat \<times> nat) list \<times> 's" where
  "reserve next_id s [] = ([], s)"
| "reserve next_id s (c # cs) =
     (case next_id s c of (i, s') \<Rightarrow>
      case reserve next_id s' cs of (rs, t) \<Rightarrow> ((unat i, unat c) # rs, t))"

fun disjoint_ranges :: "(nat \<times> nat) list \<Rightarrow> bool" where
  "disjoint_ranges [] \<longleftrightarrow> True"
| "disjoint_ranges ((i, w) # rs) \<longleftrightarrow>
     list_all (\<lambda>(j, _). i + w \<le> j) rs \<and> disjoint_ranges rs"

locale id_source =
  fixes next_id :: "'s \<Rightarrow> u64 \<Rightarrow> u64 \<times> 's"
    and bound :: "'s \<Rightarrow> nat"
  assumes fresh: "bound s + unat c < 2 ^ 64 \<Longrightarrow> next_id s c = (i, s') \<Longrightarrow>
      unat i = bound s \<and> bound s' = bound s + unat c"
begin

lemma reserve_above:
  assumes "bound s + sum_list (map unat cs) < 2 ^ 64"
  shows "disjoint_ranges (fst (reserve next_id s cs)) \<and>
    list_all (\<lambda>(j, _). bound s \<le> j) (fst (reserve next_id s cs)) \<and>
    bound (snd (reserve next_id s cs)) = bound s + sum_list (map unat cs)"
  using assms
proof (induction cs arbitrary: s)
  case (Cons c cs)
  obtain i s' where n: "next_id s c = (i, s')"
    by force
  have f: "unat i = bound s" "bound s' = bound s + unat c"
    using fresh [OF _ n] Cons.prems by auto
  have "bound s' + sum_list (map unat cs) < 2 ^ 64"
    using Cons.prems f by simp
  then show ?case
    using Cons.IH [of s'] n f
    by (auto simp: list_all_iff split: prod.splits) fastforce+
qed simp

end

interpretation mem_source: id_source memory_next_file_id "\<lambda>s. unat (counter s)"
proof
  fix s c i s'
  assume "unat (counter s) + unat c < 2 ^ 64" and "memory_next_file_id s c = (i, s')"
  then show "unat i = unat (counter s) \<and> unat (counter s') = unat (counter s) + unat c"
    by (auto simp: memory_next_file_id_def unat_word_ariths)
qed

subsection \<open>Properties\<close>

text \<open>
  C27: the key ranges the in-memory sequencer reserves for a list of requests are pairwise disjoint and
  above everything reserved before, as long as the counter does not wrap.
\<close>

theorem memory_reservations_disjoint:
  assumes "unat (counter s) + sum_list (map unat cs) < 2 ^ 64"
  shows "disjoint_ranges (fst (reserve memory_next_file_id s cs)) \<and>
    list_all (\<lambda>(j, _). unat (counter s) \<le> j) (fst (reserve memory_next_file_id s cs))"
  using mem_source.reserve_above [OF assms] by simp

theorem memory_reservations_disjoint_witness:
  "disjoint_ranges (fst (reserve memory_next_file_id memory_sequencer_new [1, 10, 3])) \<and>
    list_all (\<lambda>(j, _). unat (counter memory_sequencer_new) \<le> j)
      (fst (reserve memory_next_file_id memory_sequencer_new [1, 10, 3]))"
  by (rule memory_reservations_disjoint) (simp add: memory_sequencer_new_def)

text \<open>
  After \<open>set_max\<close> with a key that is in use, the next reservation starts at that very key: the
  counter is set to the seen value instead of the value after it.
\<close>

theorem set_max_reissues_seen_key:
  assumes "counter s \<le> seen"
  shows "fst (memory_next_file_id (memory_set_max s seen) count) = seen"
  using assms by (simp add: memory_next_file_id_def memory_set_max_def)

theorem set_max_reissues_seen_key_witness:
  "fst (memory_next_file_id (memory_set_max memory_sequencer_new 41) 1) = 41"
  by (rule set_max_reissues_seen_key) (simp add: memory_sequencer_new_def)

end
