(* ===== verification/EcIndex.thy ===== *)
theory EcIndex
  imports NeedleMap
begin

section \<open>The sorted index of an erasure-coded volume\<close>

text \<open>
  \<open>storage/erasure_coding/mod.rs\<close>, the index half of \<open>volume.rs\<close> and \<open>encoder.rs\<close>: writing the
  sorted index (\<open>.ecx\<close>) of a volume from its index file, the binary search in it, and the marks
  and the journal (\<open>.ecj\<close>) of deletions. The search bounds are at most a sixteenth of a file
  length, so their arithmetic cannot wrap and they are natural numbers.
\<close>

subsection \<open>Writing the index\<close>

text \<open>\<open>write_all\<close> on a file that is only ever appended to through this handle.\<close>

definition write_all :: "fs \<Rightarrow> ino \<Rightarrow> bytes \<Rightarrow> (fs, io_error \<times> fs) result" where
  "write_all s i bs = write_all_at s i bs (metadata_len (fs_data s i))"

definition write_sorted_file_from_index ::
    "fs \<Rightarrow> u64 \<Rightarrow> string \<Rightarrow> string \<Rightarrow> (fs, volume_error \<times> fs) result" where
  "write_sorted_file_from_index s now base_filename ext =
     rbind (map_err (\<lambda>e. (e, s)) (sorted_map_load_from_index s (base_filename @ ''.idx''))) (\<lambda>nm.
     rbind (map_err (\<lambda>e. (VIo e, s)) (open_create_truncate s (base_filename @ ext) now)) (\<lambda>(s, ecx_file).
     map_err (\<lambda>(e, s). (VNeedle e, s))
       (snd (ascending_visit
          (\<lambda>key value s. map_err (\<lambda>(e, s). (NIo e, s)) (write_all s ecx_file (nv_as_bytes value key)))
          nm s))))"

subsection \<open>Searching\<close>

function search_loop ::
    "bytes \<Rightarrow> needle_id \<Rightarrow> nat \<Rightarrow> nat \<Rightarrow> (nat \<times> needle_value, needle_error) result" where
  "search_loop ecx_file needle_id low high =
     (if low < high then
        let middle = (low + high) div 2 in
        rbind (map_err NIo (read_exact_at ecx_file 16 (of_nat (middle * 16)))) (\<lambda>buf.
        rbind (read_index_entry buf) (\<lambda>(key, off, sz).
        if key = needle_id then Ok (middle, \<lparr>nv_offset = off, nv_size = sz\<rparr>)
        else if key < needle_id then search_loop ecx_file needle_id (middle + 1) high
        else search_loop ecx_file needle_id low middle))
      else Err (NNotFound needle_id))"
  by pat_completeness auto
termination
  by (relation "measure (\<lambda>(_, _, low, high). high - low)") auto

declare search_loop.simps [simp del]

type_synonym process_needle = "fs \<Rightarrow> ino \<Rightarrow> u64 \<Rightarrow> (fs, needle_error \<times> fs) result"

definition search_needle_from_sorted_index ::
    "fs \<Rightarrow> ino \<Rightarrow> u64 \<Rightarrow> needle_id \<Rightarrow> process_needle option
      \<Rightarrow> (needle_value \<times> fs, needle_error \<times> fs) result" where
  "search_needle_from_sorted_index s ecx_file ecx_filesize needle_id process =
     rbind (map_err (\<lambda>e. (e, s))
       (search_loop (fs_data s ecx_file) needle_id 0 (unat (ecx_filesize div ucast NEEDLE_ENTRY_SIZE))))
       (\<lambda>(middle, value).
     case process of
       Some f \<Rightarrow> rbind (f s ecx_file (of_nat middle * ucast NEEDLE_HEADER_SIZE)) (\<lambda>s. Ok (value, s))
     | None \<Rightarrow> Ok (value, s))"

subsection \<open>Deletions\<close>

text \<open>\<open>vec![0u8; 4]\<close> followed by \<open>put_i32\<close>: eight bytes.\<close>

definition mark_needle_deleted :: process_needle where
  "mark_needle_deleted s file offset =
     map_err (\<lambda>(e, s). (NIo e, s))
       (write_all_at s file (replicate 4 0 @ put_u32 TOMBSTONE_FILE_SIZE) (offset + 8 + 4))"

text \<open>The loop of \<open>rebuild_ecx_file\<close> over the ids of the journal, given as what is left of it.\<close>

fun rebuild_loop ::
    "nat \<Rightarrow> bytes \<Rightarrow> fs \<Rightarrow> ino \<Rightarrow> u64 \<Rightarrow> (fs, needle_error \<times> fs) result" where
  "rebuild_loop 0 ecj s ecx_file ecx_filesize = Ok s"
| "rebuild_loop (Suc k) ecj s ecx_file ecx_filesize =
     (if length ecj < 8 then Ok s
      else
        rbind (get_u64 (take 8 ecj)) (\<lambda>(needle_id, _).
        case search_needle_from_sorted_index s ecx_file ecx_filesize needle_id
            (Some mark_needle_deleted) of
          Ok (_, s) \<Rightarrow> rebuild_loop k (drop 8 ecj) s ecx_file ecx_filesize
        | Err (NNotFound _, s) \<Rightarrow> rebuild_loop k (drop 8 ecj) s ecx_file ecx_filesize
        | Err e \<Rightarrow> Err e
        | Panic \<Rightarrow> Panic))"

definition rebuild_ecx_file :: "fs \<Rightarrow> string \<Rightarrow> (fs, needle_error \<times> fs) result" where
  "rebuild_ecx_file s base_filename =
     (let ecj_filename = base_filename @ ''.ecj'' in
      rbind (map_err (\<lambda>e. (NIo e, s)) (file_exists s ecj_filename)) (\<lambda>ex.
      if \<not> ex then Ok s
      else
        rbind (map_err (\<lambda>e. (NIo e, s)) (open_write s (base_filename @ ''.ecx''))) (\<lambda>ecx_file.
        let ecx_filesize = metadata_len (fs_data s ecx_file) in
        rbind (map_err (\<lambda>e. (NIo e, s)) (open_write s ecj_filename)) (\<lambda>ecj_file.
        let ecj = fs_data s ecj_file in
        rbind (rebuild_loop (Suc (length ecj)) ecj s ecx_file ecx_filesize) (\<lambda>s.
        map_err (\<lambda>e. (NIo e, s)) (remove_file s ecj_filename))))))"

definition to_ext :: "u8 \<Rightarrow> string" where
  "to_ext ec_idx = ''.ec'' @ zero_pad 2 (fmt_dec (unat ec_idx))"

subsection \<open>The search is a lookup\<close>

lemma read_entry_at:
  assumes "i < length es" and "16 * length es < 2 ^ 64"
  shows "read_exact_at (index_bytes es) 16 (of_nat (i * 16)) = Ok (entry_bytes (es ! i))"
proof -
  have u: "unat (of_nat (i * 16) :: u64) = i * 16"
    using assms by (intro unat_of_nat_small) simp
  have "take 16 (drop (i * 16) (index_bytes es)) = entry_bytes (es ! i)"
    using assms(1)
  proof (induction es arbitrary: i)
    case (Cons e es)
    then show ?case
      by (cases i) (simp_all add: index_bytes_Cons)
  qed simp
  then show ?thesis
    using assms(1) u by (simp add: read_exact_at_def del: of_nat_mult)
qed

definition entry_key :: "entry \<Rightarrow> needle_id" where
  "entry_key = fst"

lemma search_loop_found:
  assumes "sorted (map entry_key es)" and "distinct (map entry_key es)"
    and "16 * length es < 2 ^ 64" and "high \<le> length es"
    and "\<forall>j < length es. entry_key (es ! j) = k \<longrightarrow> low \<le> j \<and> j < high"
  shows "case search_loop (index_bytes es) k low high of
      Ok (j, v) \<Rightarrow> j < length es \<and> es ! j = (k, nv_offset v, nv_size v)
    | Err e \<Rightarrow> e = NNotFound k \<and> k \<notin> entry_key ` set es
    | Panic \<Rightarrow> False"
  using assms(4,5)
proof (induction "index_bytes es" k low high rule: search_loop.induct)
  case (1 k low high)
  show ?case
  proof (cases "low < high")
    case False
    then have "k \<notin> entry_key ` set es"
      using 1(4) by (force simp: in_set_conv_nth)
    then show ?thesis
      using False by (subst search_loop.simps) simp
  next
    case True
    let ?m = "(low + high) div 2"
    have m: "?m < length es" "low \<le> ?m" "?m < high"
      using True 1(3) by auto
    obtain key off sz where e: "es ! ?m = (key, off, sz)"
      by (cases "es ! ?m")
    have key: "entry_key (es ! ?m) = key"
      by (simp add: e entry_key_def)
    have mono: "entry_key (es ! i) \<le> entry_key (es ! j)" if "i \<le> j" "j < length es" for i j
      using sorted_nth_mono [OF assms(1), of i j] that by simp
    have step: "search_loop (index_bytes es) k low high =
        (if key = k then Ok (?m, \<lparr>nv_offset = off, nv_size = sz\<rparr>)
         else if key < k then search_loop (index_bytes es) k (?m + 1) high
         else search_loop (index_bytes es) k low ?m)"
      using True read_entry_at [OF m(1) assms(3)] e
      by (subst search_loop.simps) (simp add: Let_def read_index_entry_bytes)
    consider "key = k" | "key < k" | "k < key"
      by (meson linorder_neqE)
    then show ?thesis
    proof cases
      case 1
      then show ?thesis
        using step e m(1) by simp
    next
      case 2
      have "?m + 1 \<le> j" if "j < length es" "entry_key (es ! j) = k" for j
        using mono [of j ?m] that 2 key m(1) by (metis Suc_eq_plus1 leD not_less_eq_eq)
      then show ?thesis
        using 1(1) [OF True refl less_imp_neq [OF 2] 2] 1(3,4) 2 step by auto
    next
      case 3
      have "j < ?m" if "j < length es" "entry_key (es ! j) = k" for j
        using mono [of ?m j] that 3 key by (metis leD not_le)
      then show ?thesis
        using 1(2) [OF True refl less_imp_neq [OF 3, symmetric]] 1(3,4) 3 step m by auto
    qed
  qed
qed


lemma write_all_no_faults:
  assumes "fs_faults s = []" and "length (fs_data s i) < 2 ^ 64"
  shows "write_all s i bs = Ok (fs_set s i (fs_data s i @ bs))"
proof -
  have "unat (metadata_len (fs_data s i)) = length (fs_data s i)"
    unfolding metadata_len_def using assms(2) by (intro unat_of_nat_small) simp
  then show ?thesis
    using assms(1) by (simp add: write_all_def write_all_at_def overwrite_at_end)
qed

definition map_entries :: "sorted_index_map \<Rightarrow> entry list" where
  "map_entries m = map (\<lambda>(k, v). (k, nv_offset v, nv_size v)) m"

lemma visit_all_writes:
  assumes "fs_faults s = []" and "length (fs_data s i) + 16 * length m < 2 ^ 64"
  shows "visit_all (\<lambda>key value s. map_err (\<lambda>(e, s). (NIo e, s)) (write_all s i (nv_as_bytes value key))) m s
    = Ok (fs_set s i (fs_data s i @ index_bytes (map_entries m)))"
  using assms
proof (induction m arbitrary: s)
  case Nil
  then show ?case
    by (simp add: map_entries_def index_bytes_def fs_set_def)
next
  case (Cons kv m)
  obtain k v where kv: "kv = (k, v)"
    by (cases kv)
  have "entry_bytes (k, nv_offset v, nv_size v) = nv_as_bytes v k"
    by (simp add: entry_bytes_def)
  moreover have "length (nv_as_bytes v k) = 16"
    by (simp add: nv_as_bytes_def)
  ultimately show ?case
    using Cons.prems Cons.IH [of "fs_set s i (fs_data s i @ nv_as_bytes v k)"]
    by (simp add: kv write_all_no_faults map_entries_def index_bytes_Cons)
qed

lemma length_replay_map:
  assumes "distinct (map fst m)" and "map_of m = replay es"
  shows "length m \<le> length es"
proof -
  have "dom (foldl replay_step m0 es) \<subseteq> dom m0 \<union> fst ` set es" for m0
  proof (induction es arbitrary: m0)
    case (Cons e es)
    have "dom (replay_step m0 e) \<subseteq> dom m0 \<union> {fst e}"
      by (cases e) (auto simp: replay_step_def)
    then show ?case
      using Cons [of "replay_step m0 e"] by (simp, blast)
  qed simp
  from this [of Map.empty] have "fst ` set m \<subseteq> fst ` set es"
    using assms(2) dom_map_of_conv_image_fst [of m] by (simp add: replay_def)
  then have "card (fst ` set m) \<le> length es"
    by (meson card_image_le card_length card_mono finite_imageI finite_set le_trans)
  moreover have "card (fst ` set m) = length m"
    using assms(1) distinct_card [of "map fst m"] by simp
  ultimately show ?thesis
    by simp
qed

lemma search_index_bytes:
  assumes "sorted (map fst m)" and "distinct (map fst m)" and "16 * length m < 2 ^ 64"
    and "fs_data s i = index_bytes (map_entries m)"
  shows "search_needle_from_sorted_index s i (metadata_len (fs_data s i)) k None =
    (case map_of m k of Some v \<Rightarrow> Ok (v, s) | None \<Rightarrow> Err (NNotFound k, s))"
proof -
  let ?es = "map_entries m"
  have keys: "map entry_key ?es = map fst m" "length ?es = length m"
    by (auto simp: map_entries_def entry_key_def)
  have "unat (metadata_len (fs_data s i)) = 16 * length m"
    unfolding metadata_len_def using assms(3,4) keys(2) by (subst unat_of_nat_small) auto
  then have hi: "unat (metadata_len (fs_data s i) div ucast NEEDLE_ENTRY_SIZE) = length m"
    by (simp add: unat_div NEEDLE_ENTRY_SIZE_def)
  have found: "case search_loop (index_bytes ?es) k 0 (length m) of
      Ok (j, v) \<Rightarrow> j < length ?es \<and> ?es ! j = (k, nv_offset v, nv_size v)
    | Err e \<Rightarrow> e = NNotFound k \<and> k \<notin> entry_key ` set ?es
    | Panic \<Rightarrow> False"
    using assms(1-3) keys by (intro search_loop_found) auto
  show ?thesis
  proof (cases "search_loop (index_bytes ?es) k 0 (length m)")
    case (Ok jv)
    obtain j v where jv: "jv = (j, v)"
      by (cases jv)
    have "j < length m" "m ! j = (k, v)"
      using found Ok jv keys by (auto simp: map_entries_def split: prod.splits)
    then have "map_of m k = Some v"
      using assms(2) by (metis map_of_eq_Some_iff nth_mem)
    then show ?thesis
      using Ok jv hi assms(4) by (simp add: search_needle_from_sorted_index_def)
  next
    case (Err e)
    then have "map_of m k = None"
      using found keys(1) by (simp add: map_of_eq_None_iff) (metis list.set_map)
    then show ?thesis
      using Err found hi assms(4) by (simp add: search_needle_from_sorted_index_def)
  qed (use found in simp)
qed

text \<open>
  C11: after the sorted index of a volume is written from its index file, the binary search in the
  sorted index answers every key as replaying the index file does: the last live value of the key,
  and "not found" for a key that was never written or was deleted.
\<close>

theorem ecx_search_is_replay:
  assumes "fs_names s (base @ ''.idx'') = Some i" and "fs_data s i = index_bytes es"
    and "16 * length es < 2 ^ 64" and "fs_faults s = []"
    and "\<forall>x. fs_names s (base @ ext) = Some x \<longrightarrow> \<not> fs_readonly s x"
  shows "\<exists>s' x. write_sorted_file_from_index s now base ext = Ok s' \<and>
    fs_names s' (base @ ext) = Some x \<and>
    (\<forall>k. search_needle_from_sorted_index s' x (metadata_len (fs_data s' x)) k None =
       (case replay es k of Some v \<Rightarrow> Ok (v, s') | None \<Rightarrow> Err (NNotFound k, s')))"
proof -
  obtain m where m: "sorted_map_load_from_index s (base @ ''.idx'') = Ok m"
      "distinct (map fst m)" "map_of m = replay es"
    using sorted_map_load_from_index_eq [OF assms(1,2)] by (auto simp: sorted_map_wf_def)
  obtain s1 x where o1: "open_create_truncate s (base @ ext) now = Ok (s1, x)"
      "fs_names s1 (base @ ext) = Some x" "fs_data s1 x = []" "fs_faults s1 = []"
    using assms(4,5)
    by (cases "fs_names s (base @ ext)") (auto simp: open_create_truncate_def fs_alloc_def Let_def)
  let ?m = "sort_key fst m"
  let ?s = "fs_set s1 x (index_bytes (map_entries ?m))"
  have d: "distinct (map fst ?m)" "sorted (map fst ?m)" "map_of ?m = replay es"
    using m(2,3) map_of_inject_set [of ?m m] by (simp_all add: distinct_map)
  have len: "16 * length ?m < 2 ^ 64"
    using length_replay_map [OF m(2,3)] assms(3) by simp
  have w: "write_sorted_file_from_index s now base ext = Ok ?s"
    using m(1) o1 visit_all_writes [of s1 x ?m] len
    by (simp add: write_sorted_file_from_index_def ascending_visit_def Let_def)
  show ?thesis
    using w o1(2) search_index_bytes [OF d(2,1) len, of ?s x] d(3)
    by (intro exI [of _ ?s] exI [of _ x]) simp
qed


definition ecx_example_fs :: fs where
  "ecx_example_fs = example_fs\<lparr>fs_names := [''v.idx'' \<mapsto> 0], fs_next := 1,
     fs_data := \<lambda>_. index_bytes [(5, Offset 1, Size 9), (3, Offset 4, Size 2), (5, Offset 0, Size 0)],
     fs_faults := []\<rparr>"

theorem ecx_search_is_replay_witness:
  "\<exists>s' x. write_sorted_file_from_index ecx_example_fs 0 ''v'' ''.ecx'' = Ok s' \<and>
    fs_names s' (''v'' @ ''.ecx'') = Some x \<and>
    (\<forall>k. search_needle_from_sorted_index s' x (metadata_len (fs_data s' x)) k None =
       (case replay [(5, Offset 1, Size 9), (3, Offset 4, Size 2), (5, Offset 0, Size 0)] k of
          Some v \<Rightarrow> Ok (v, s') | None \<Rightarrow> Err (NNotFound k, s')))"
  by (rule ecx_search_is_replay [where i = 0]) (simp_all add: ecx_example_fs_def)

subsection \<open>What a deletion does to the index\<close>

lemma put_u64_high_ones:
  "put_u64 (k OR push_bit 32 (mask 32)) = put_u32 TOMBSTONE_FILE_SIZE @ drop 4 (put_u64 k)"
  by (auto simp: put_u64_def put_u32_def TOMBSTONE_FILE_SIZE_def intro!: bit_word_eqI)
    (auto simp: bit_simps)

lemma overwrite_middle:
  assumes "length ys = length ys'" and "n = length xs"
  shows "overwrite (xs @ ys @ zs) n ys' = xs @ ys' @ zs"
  using assms by (simp add: overwrite_def)

text \<open>
  C39: marking the entry of a needle in the sorted index as deleted does not mark it. The eight bytes
  written at the size field set the size to zero, which is not the tombstone, and run into the next
  entry, whose key gets its upper half overwritten with ones.
\<close>

theorem mark_needle_deleted_breaks_next:
  assumes "fs_data s i = index_bytes (es1 @ (k, off, sz) # (k2, off2, sz2) # es2)"
    and "fs_faults s = []" and "16 * length es1 + 16 < 2 ^ 64"
  shows "\<exists>s'. mark_needle_deleted s i (of_nat (16 * length es1)) = Ok s' \<and>
    fs_data s' i = index_bytes (es1 @ (k, off, Size 0) # (k2 OR push_bit 32 (mask 32), off2, sz2) # es2)
    \<and> \<not> size_is_deleted (Size 0)"
proof -
  let ?mark = "replicate 4 0 @ put_u32 TOMBSTONE_FILE_SIZE"
  define pre where "pre = index_bytes es1 @ put_u64 k @ put_u32 (off_val off)"
  obtain hi lo where k2: "put_u64 k2 = hi @ lo" "length hi = 4"
    using that [of "take 4 (put_u64 k2)" "drop 4 (put_u64 k2)"] by simp
  define post where "post = lo @ put_u32 (off_val off2) @ put_u32 (size_val sz2) @ index_bytes es2"
  have "unat (of_nat (16 * length es1) + 8 + 4 :: u64) = length pre"
  proof -
    have "of_nat (16 * length es1) + 8 + 4 = (of_nat (length pre) :: u64)"
      by (simp add: pre_def)
    moreover have "length pre < 2 ^ 64"
      using assms(3) by (simp add: pre_def)
    ultimately show ?thesis
      using unat_of_nat_small [where 'a = 64, of "length pre"] by simp
  qed
  moreover have "fs_data s i = pre @ (put_u32 (size_val sz) @ hi) @ post"
    unfolding assms(1)
    by (simp add: pre_def post_def index_bytes_def entry_bytes_def nv_as_bytes_def k2)
  moreover have "overwrite (pre @ (put_u32 (size_val sz) @ hi) @ post) (length pre) ?mark
    = pre @ ?mark @ post"
    by (rule overwrite_middle) (simp_all add: k2)
  moreover have "put_u32 0 = replicate 4 0"
    by (simp add: put_u32_def numeral_eq_Suc)
  then have "index_bytes (es1 @ (k, off, Size 0) # (k2 OR push_bit 32 (mask 32), off2, sz2) # es2)
    = pre @ ?mark @ post"
    by (simp add: pre_def post_def index_bytes_def entry_bytes_def nv_as_bytes_def put_u64_high_ones k2)
  ultimately show ?thesis
    using assms(2)
    by (simp add: mark_needle_deleted_def write_all_at_def size_is_deleted_def TOMBSTONE_FILE_SIZE_def)
qed

theorem mark_needle_deleted_breaks_next_witness:
  "\<exists>s'. mark_needle_deleted
      (example_fs\<lparr>fs_data := \<lambda>_. index_bytes [(3, Offset 1, Size 9), (5, Offset 4, Size 2)], fs_faults := []\<rparr>)
      0 (of_nat (16 * length ([] :: entry list))) = Ok s' \<and>
    fs_data s' 0 = index_bytes ([] @ (3, Offset 1, Size 0) # (5 OR push_bit 32 (mask 32), Offset 4, Size 2) # [])
    \<and> \<not> size_is_deleted (Size 0)"
  by (rule mark_needle_deleted_breaks_next) simp_all

end
