(* ===== verification/EcLocate.thy ===== *)
theory EcLocate
  imports Prelude
begin

section \<open>Locating data in erasure-coded shards\<close>

text \<open>
  \<open>storage/erasure_coding/locate.rs\<close>: a volume is cut into rows of ten large blocks followed by
  rows of ten small blocks; block \<open>i\<close> of a row goes to shard \<open>i\<close>. \<open>locate_data\<close> returns the
  intervals of the shard files that hold a range of the volume. \<open>block_addr\<close> is the layout itself:
  the shard and the offset in it of a byte of the volume, for a given number of large rows.
\<close>

definition DATA_SHARDS_COUNT :: u32 where "DATA_SHARDS_COUNT = 10"
definition PARITY_SHARDS_COUNT :: u32 where "PARITY_SHARDS_COUNT = 4"
definition TOTAL_SHARDS_COUNT :: u32 where
  "TOTAL_SHARDS_COUNT = DATA_SHARDS_COUNT + PARITY_SHARDS_COUNT"
definition ERASURE_CODING_LARGE_BLOCK_SIZE :: u64 where
  "ERASURE_CODING_LARGE_BLOCK_SIZE = 1024 * 1024 * 1024"
definition ERASURE_CODING_SMALL_BLOCK_SIZE :: u64 where
  "ERASURE_CODING_SMALL_BLOCK_SIZE = 1024 * 1024"

abbreviation data_shards :: u64 where "data_shards \<equiv> ucast DATA_SHARDS_COUNT"

type_synonym shard_id = u8

record interval =
  iv_block_index :: u64
  iv_inner_block_offset :: u64
  iv_size :: u64
  iv_is_large_block :: bool
  iv_large_block_rows :: u64

definition interval_shard_id :: "interval \<Rightarrow> shard_id" where
  "interval_shard_id iv = ucast (iv_block_index iv mod data_shards)"

definition interval_offset :: "interval \<Rightarrow> u64 \<Rightarrow> u64 \<Rightarrow> u64" where
  "interval_offset iv large_block_size small_block_size =
     (let row_index = iv_block_index iv div data_shards in
      if iv_is_large_block iv then iv_inner_block_offset iv + row_index * large_block_size
      else iv_inner_block_offset iv
        + (iv_large_block_rows iv * large_block_size + row_index * small_block_size))"

text \<open>Division by zero panics.\<close>

definition locate_offset_within_blocks :: "u64 \<Rightarrow> u64 \<Rightarrow> (u64 \<times> u64, 'e) result" where
  "locate_offset_within_blocks block_len off =
     (if block_len = 0 then Panic else Ok (off div block_len, off mod block_len))"

definition locate_offset :: "u64 \<Rightarrow> u64 \<Rightarrow> u64 \<Rightarrow> u64 \<Rightarrow> (u64 \<times> bool \<times> u64, 'e) result" where
  "locate_offset large_block_len small_block_len dsize off =
     (let large_row_size = large_block_len * data_shards in
      if large_row_size = 0 then Panic
      else
        let large_block_rows = dsize div large_row_size in
        if off < large_block_rows * large_row_size then
          rbind (locate_offset_within_blocks large_block_len off) (\<lambda>(idx, inner).
          Ok (idx, True, inner))
        else
          rbind (locate_offset_within_blocks small_block_len (off - large_block_rows * large_row_size))
            (\<lambda>(idx, inner). Ok (idx, False, inner)))"

text \<open>The loop, \<open>None\<close> when the fuel is exhausted; \<open>ivs\<close> are the intervals pushed so far.\<close>

fun locate_loop ::
    "nat \<Rightarrow> u64 \<Rightarrow> u64 \<Rightarrow> u64 \<Rightarrow> u64 \<Rightarrow> bool \<Rightarrow> u64 \<Rightarrow> u64 \<Rightarrow> interval list \<Rightarrow> interval list option" where
  "locate_loop 0 large small rows idx is_large inner sz ivs = None"
| "locate_loop (Suc fuel) large small rows idx is_large inner sz ivs =
     (if sz = 0 then Some ivs
      else
        let block_remaining = (if is_large then large - inner else small - inner);
            iv = \<lparr>iv_block_index = idx, iv_inner_block_offset = inner, iv_size = sz,
                  iv_is_large_block = is_large, iv_large_block_rows = rows\<rparr>
        in if sz \<le> block_remaining then Some (ivs @ [iv])
        else
          let idx' = idx + 1;
              switch = is_large \<and> idx' = rows * data_shards
          in locate_loop fuel large small rows (if switch then 0 else idx') (is_large \<and> \<not> switch) 0
               (sz - block_remaining) (ivs @ [iv\<lparr>iv_size := block_remaining\<rparr>]))"

definition locate_data ::
    "nat \<Rightarrow> u64 \<Rightarrow> u64 \<Rightarrow> u64 \<Rightarrow> u64 \<Rightarrow> u64 \<Rightarrow> (interval list option, 'e) result" where
  "locate_data fuel large_block_len small_block_len dsize off sz =
     rbind (locate_offset large_block_len small_block_len dsize off) (\<lambda>(idx, is_large, inner).
     let large_block_rows = (dsize + small_block_len * data_shards) div (large_block_len * data_shards)
     in Ok (locate_loop fuel large_block_len small_block_len large_block_rows idx is_large inner sz []))"

subsection \<open>The layout\<close>

definition block_addr :: "nat \<Rightarrow> nat \<Rightarrow> nat \<Rightarrow> nat \<Rightarrow> nat \<times> nat" where
  "block_addr rows large small p =
     (if p < rows * (10 * large)
      then (p div large mod 10, p div large div 10 * large + p mod large)
      else let q = p - rows * (10 * large) in
        (q div small mod 10, rows * large + q div small div 10 * small + q mod small))"

text \<open>
  The intervals cover \<open>n\<close> bytes of the volume from \<open>p\<close> on: each starts where the layout puts its
  first byte and stays inside one block, so all its bytes are where the layout puts them.
\<close>

definition block_rest :: "nat \<Rightarrow> nat \<Rightarrow> nat \<Rightarrow> nat \<Rightarrow> nat" where
  "block_rest rows large small p =
     (if p < rows * (10 * large) then large - p mod large
      else small - (p - rows * (10 * large)) mod small)"

fun covers :: "nat \<Rightarrow> u64 \<Rightarrow> u64 \<Rightarrow> nat \<Rightarrow> interval list \<Rightarrow> nat \<Rightarrow> bool" where
  "covers rows large small p [] n \<longleftrightarrow> n = 0"
| "covers rows large small p (iv # ivs) n \<longleftrightarrow>
     0 < unat (iv_size iv) \<and> unat (iv_size iv) \<le> n \<and>
     unat (iv_size iv) \<le> block_rest rows (unat large) (unat small) p \<and>
     (unat (interval_shard_id iv), unat (interval_offset iv large small))
       = block_addr rows (unat large) (unat small) p \<and>
     covers rows large small (p + unat (iv_size iv)) ivs (n - unat (iv_size iv))"

text \<open>The loop's variables describe position \<open>p\<close>.\<close>

definition at_pos :: "nat \<Rightarrow> u64 \<Rightarrow> u64 \<Rightarrow> nat \<Rightarrow> u64 \<Rightarrow> bool \<Rightarrow> u64 \<Rightarrow> bool" where
  "at_pos rows large small p idx is_large inner \<longleftrightarrow>
     (is_large \<longleftrightarrow> p < rows * (10 * unat large)) \<and>
     (if is_large then unat idx = p div unat large \<and> unat inner = p mod unat large
      else unat idx = (p - rows * (10 * unat large)) div unat small \<and>
           unat inner = (p - rows * (10 * unat large)) mod unat small)"

lemma data_shards_10: "(data_shards :: u64) = 10"
  by (simp add: DATA_SHARDS_COUNT_def)

lemma unat_mult_small: "unat a * unat b < 2 ^ 64 \<Longrightarrow> unat (a * b :: u64) = unat a * unat b"
  using unat_mult_lem [of a b] by simp

lemma unat_add_small: "unat a + unat b < 2 ^ 64 \<Longrightarrow> unat (a + b :: u64) = unat a + unat b"
  using unat_add_lem [of a b] by simp

lemma unat_shard_id: "unat (interval_shard_id iv) = unat (iv_block_index iv) mod 10"
proof -
  have "unat (iv_block_index iv) mod 10 < 256"
    by (rule less_trans [OF mod_less_divisor]) simp_all
  then show ?thesis
    by (simp add: interval_shard_id_def data_shards_10 unat_ucast_mod unat_mod_distrib)
qed

lemma row_offset_le: "i mod k + i div k div 10 * k \<le> (i :: nat)"
proof -
  have "i div k div 10 * k \<le> i div k * k"
    by (rule mult_le_mono1) simp
  then show ?thesis
    using mod_div_mult_eq [of i k] by linarith
qed

lemma unat_row_offset:
  fixes inner len idx :: u64
  assumes "unat inner = i mod unat len" and "unat idx = i div unat len" and "i < 2 ^ 64"
  shows "unat (inner + idx div 10 * len) = i div unat len div 10 * unat len + i mod unat len"
    and "unat (idx div 10 * len) = i div unat len div 10 * unat len"
proof -
  note le = row_offset_le [of i "unat len"]
  have d: "unat (idx div 10) = i div unat len div 10"
    by (simp add: unat_div_distrib assms(2))
  show m: "unat (idx div 10 * len) = i div unat len div 10 * unat len"
    using unat_mult_small [of "idx div 10" len] le assms(3) by (simp add: d)
  show "unat (inner + idx div 10 * len) = i div unat len div 10 * unat len + i mod unat len"
    using unat_add_small [of inner "idx div 10 * len"] le assms(1,3) by (simp add: m)
qed

lemma at_pos_addr:
  fixes sz :: u64
  assumes "at_pos rows large small p idx is_large inner" and "p < 2 ^ 64" and "rows = unat r"
  defines "iv \<equiv> \<lparr>iv_block_index = idx, iv_inner_block_offset = inner, iv_size = sz,
      iv_is_large_block = is_large, iv_large_block_rows = r\<rparr>"
  shows "(unat (interval_shard_id iv), unat (interval_offset iv large small))
      = block_addr rows (unat large) (unat small) p"
proof (cases is_large)
  case True
  then have "p < rows * (10 * unat large)" "unat idx = p div unat large"
      "unat inner = p mod unat large"
    using assms(1) by (auto simp: at_pos_def)
  then show ?thesis
    using unat_row_offset(1) [of inner p large idx] assms(2) True
    by (simp add: block_addr_def unat_shard_id iv_def interval_offset_def data_shards_10 Let_def)
next
  case False
  let ?q = "p - rows * (10 * unat large)"
  have a: "\<not> p < rows * (10 * unat large)" "unat idx = ?q div unat small"
      "unat inner = ?q mod unat small"
    using assms(1) False by (auto simp: at_pos_def)
  have r: "unat (r * large) = rows * unat large"
    using unat_mult_small [of r large] a(1) assms(2,3) by simp
  note le = row_offset_le [of ?q "unat small"]
  have "?q < 2 ^ 64"
    using assms(2) by simp
  note m = unat_row_offset(2) [OF a(3,2) this]
  have s1: "unat (r * large + idx div 10 * small) = rows * unat large + ?q div unat small div 10 * unat small"
    using unat_add_small [of "r * large" "idx div 10 * small"] le a(1) assms(2) by (simp add: r m)
  have "unat (inner + (r * large + idx div 10 * small))
      = ?q mod unat small + (rows * unat large + ?q div unat small div 10 * unat small)"
    using unat_add_small [of inner "r * large + idx div 10 * small"] le a(1,3) assms(2)
    by (simp add: s1)
  then show ?thesis
    using a False
    by (simp add: block_addr_def unat_shard_id iv_def interval_offset_def data_shards_10 Let_def)
qed

lemma at_pos_rest:
  assumes "at_pos rows large small p idx is_large inner" and "0 < unat large" and "0 < unat small"
  shows "unat (if is_large then large - inner else small - inner)
      = block_rest rows (unat large) (unat small) p"
    and "0 < block_rest rows (unat large) (unat small) p"
proof -
  have "unat inner \<le> unat (if is_large then large else small)"
    using assms by (auto simp: at_pos_def less_imp_le)
  then show "unat (if is_large then large - inner else small - inner)
      = block_rest rows (unat large) (unat small) p"
    using assms(1) unat_sub [of inner large] unat_sub [of inner small]
    by (auto simp: at_pos_def block_rest_def word_le_nat_alt split: if_splits)
  show "0 < block_rest rows (unat large) (unat small) p"
    using assms(2,3) by (simp add: block_rest_def)
qed

lemma next_block:
  assumes "0 < (k :: nat)"
  shows "i + (k - i mod k) = k * (i div k + 1)"
proof -
  have "k * (i div k) + i mod k = i" and "i mod k < k"
    using assms by simp_all
  then show ?thesis
    by (simp only: distrib_left mult_1_right)
qed

lemma at_pos_next:
  assumes "at_pos rows large small p idx is_large inner" and "0 < unat large" and "0 < unat small"
    and "rows = unat r" and "p + block_rest rows (unat large) (unat small) p < 2 ^ 64"
    and "rows * (10 * unat large) < 2 ^ 64"
  defines "switch \<equiv> is_large \<and> idx + 1 = r * data_shards"
  shows "at_pos rows large small (p + block_rest rows (unat large) (unat small) p)
    (if switch then 0 else idx + 1) (is_large \<and> \<not> switch) 0"
proof (cases is_large)
  case True
  let ?l = "unat large" and ?p = "p + block_rest rows (unat large) (unat small) p"
  have a: "p < rows * (10 * ?l)" "unat idx = p div ?l"
    using assms(1) True by (auto simp: at_pos_def)
  have p: "?p = ?l * (p div ?l + 1)"
    using next_block [OF assms(2), of p] a(1) by (simp add: block_rest_def)
  have "p div ?l + 1 \<le> ?p"
    unfolding p using assms(2) by (cases ?l) auto
  then have i: "unat (idx + 1) = p div ?l + 1"
    using unat_add_small [of idx 1] a(2) assms(5) by simp
  have "rows * 10 \<le> rows * (10 * ?l)"
    using assms(2) by simp
  then have lt: "rows * 10 < 2 ^ 64"
    using assms(6) by linarith
  have "unat (r * 10) = unat r * unat (10 :: u64)"
    by (rule unat_mult_small) (use lt assms(4) in simp)
  then have r: "unat (r * data_shards) = rows * 10"
    using assms(4) by (simp add: data_shards_10)
  have sw: "switch \<longleftrightarrow> p div ?l + 1 = rows * 10"
    using True i r by (simp add: switch_def word_unat_eq_iff)
  have "p div ?l < rows * 10"
    using a(1) by (simp add: less_mult_imp_div_less mult.assoc)
  then have "switch \<or> p div ?l + 1 < rows * 10"
    using sw by auto
  then have "switch \<or> ?l * (p div ?l + 1) < ?l * (rows * 10)"
    using mult_less_mono2 [OF _ assms(2)] by blast
  then show ?thesis
    using sw i True assms(2) unfolding p
    by (cases switch) (auto simp: at_pos_def algebra_simps)
next
  case False
  let ?R = "rows * (10 * unat large)" and ?s = "unat small"
  let ?q = "p - ?R" and ?p = "p + block_rest rows (unat large) (unat small) p"
  have a: "?R \<le> p" "unat idx = ?q div ?s"
    using assms(1) False by (auto simp: at_pos_def)
  have p: "?p - ?R = ?s * (?q div ?s + 1)" "?R \<le> ?p"
    using next_block [OF assms(3), of ?q] a(1) by (simp_all add: block_rest_def)
  have "?q div ?s + 1 \<le> ?p - ?R"
    unfolding p(1) using assms(3) by (cases ?s) auto
  then have i: "unat (idx + 1) = ?q div ?s + 1"
    using unat_add_small [of idx 1] a(2) assms(5) by simp
  have "(?p - ?R) div ?s = ?q div ?s + 1" "(?p - ?R) mod ?s = 0"
    unfolding p(1) using assms(3) by simp_all
  then show ?thesis
    using False i p(2) by (simp add: at_pos_def switch_def)
qed

lemma locate_loop_covers:
  assumes "at_pos rows large small p idx is_large inner" and "0 < unat large" and "0 < unat small"
    and "rows = unat r" and "p + unat sz < 2 ^ 64" and "rows * (10 * unat large) < 2 ^ 64"
    and "unat sz < fuel"
  shows "\<exists>jvs. locate_loop fuel large small r idx is_large inner sz ivs = Some (ivs @ jvs)
    \<and> covers rows large small p jvs (unat sz)"
  using assms(1,5,7)
proof (induction fuel arbitrary: p idx is_large inner sz ivs)
  case (Suc fuel)
  let ?b = "block_rest rows (unat large) (unat small) p"
  let ?w = "if is_large then large - inner else small - inner"
  have b: "unat ?w = ?b" "0 < ?b"
    using at_pos_rest [OF Suc.prems(1) assms(2,3)] by simp_all
  have p: "p < 2 ^ 64"
    using Suc.prems(2) by simp
  note addr = at_pos_addr [OF Suc.prems(1) p assms(4)]
  consider "sz = 0" | "sz \<noteq> 0" "sz \<le> ?w" | "sz \<noteq> 0" "\<not> sz \<le> ?w"
    by blast
  then show ?case
  proof cases
    case 2
    then have "0 < unat sz" "unat sz \<le> ?b"
      using b(1) by (simp_all add: word_le_nat_alt unat_gt_0)
    then show ?thesis
      using 2 addr [of sz] by (simp add: Let_def)
  next
    case 3
    then have lt: "?b < unat sz"
      using b(1) by (simp add: word_le_nat_alt)
    let ?sz = "sz - ?w" and ?switch = "is_large \<and> idx + 1 = r * data_shards"
    have u: "unat ?sz = unat sz - ?b"
      using lt b(1) by (subst unat_sub) (simp_all add: word_le_nat_alt)
    have at: "at_pos rows large small (p + ?b) (if ?switch then 0 else idx + 1)
        (is_large \<and> \<not> ?switch) 0"
      by (rule at_pos_next [OF Suc.prems(1) assms(2-4) _ assms(6)]) (use lt Suc.prems(2) in simp)
    let ?iv = "\<lparr>iv_block_index = idx, iv_inner_block_offset = inner, iv_size = ?w,
        iv_is_large_block = is_large, iv_large_block_rows = r\<rparr>"
    have "\<exists>jvs. locate_loop fuel large small r (if ?switch then 0 else idx + 1)
          (is_large \<and> \<not> ?switch) 0 ?sz (ivs @ [?iv]) = Some ((ivs @ [?iv]) @ jvs)
        \<and> covers rows large small (p + ?b) jvs (unat ?sz)"
      by (rule Suc.IH [OF at]) (use lt u b(2) Suc.prems(2,3) in simp_all)
    then show ?thesis
      using 3 lt b addr [of ?w] u by (auto simp: Let_def)
  qed simp
qed simp

lemma locate_offset_at_pos:
  assumes "0 < unat large" and "0 < unat small" and "10 * unat large < 2 ^ 64"
    and "off < dsize"
  defines "rows \<equiv> unat dsize div (10 * unat large)"
  shows "\<exists>idx is_large inner. locate_offset large small dsize off = Ok (idx, is_large, inner) \<and>
    at_pos rows large small (unat off) idx is_large inner"
proof -
  let ?row = "large * data_shards" and ?r = "dsize div (large * data_shards)"
  have row: "unat ?row = 10 * unat large"
    using unat_mult_small [of large 10] assms(3) by (simp add: data_shards_10 mult.commute)
  have r: "unat ?r = rows"
    by (simp add: unat_div_distrib row rows_def)
  have le: "rows * (10 * unat large) \<le> unat dsize"
    by (simp add: rows_def)
  then have rr: "unat (?r * ?row) = rows * (10 * unat large)"
    using unat_mult_small [of ?r ?row] unat_less_power(4) [of dsize] by (simp add: r row)
  have nz: "large \<noteq> 0" "small \<noteq> 0" "?row \<noteq> 0"
    using assms(1,2) row by auto
  show ?thesis
  proof (cases "off < ?r * ?row")
    case True
    then show ?thesis
      using nz rr
      by (auto simp: locate_offset_def locate_offset_within_blocks_def Let_def at_pos_def
          word_less_nat_alt unat_div_distrib unat_mod_distrib)
  next
    case False
    then have "unat (off - ?r * ?row) = unat off - rows * (10 * unat large)"
      using rr by (subst unat_sub) (simp_all add: word_le_nat_alt not_less)
    then show ?thesis
      using False nz rr
      by (auto simp: locate_offset_def locate_offset_within_blocks_def Let_def at_pos_def
          word_less_nat_alt unat_div_distrib unat_mod_distrib)
  qed
qed


subsection \<open>Properties\<close>




end
