(* ===== verification/EcShards.thy ===== *)
theory EcShards
  imports EcIndex EcLocate "HOL-Library.Product_Lexorder"
begin

section \<open>Shards and erasure-coded volumes\<close>

text \<open>
  \<open>storage/erasure_coding\<close>: the bit set of shard ids (\<open>volume_info.rs\<close>), a shard file
  (\<open>shard.rs\<close>), an erasure-coded volume with its mounted shards, its index and its deletion
  journal (\<open>volume.rs\<close>), and the volume information file (\<open>proto/mod.rs\<close>), whose JSON encoding is
  a pair of parameters. A \<open>ShardBits\<close> is a shared cell: an operation that stores into it returns
  what it leaves in the cell.
\<close>

subsection \<open>Bit sets of shards\<close>

datatype shard_bits = ShardBits (sb_value: u32)

text \<open>\<open>1 << id\<close>: without overflow checks the shift amount is taken modulo the width.\<close>

definition shard_bit :: "shard_id \<Rightarrow> u32" where
  "shard_bit i = push_bit (unat i mod 32) 1"

definition sb_add_shard_id :: "shard_bits \<Rightarrow> shard_id \<Rightarrow> shard_bits" where
  "sb_add_shard_id b i = ShardBits (sb_value b OR shard_bit i)"

definition sb_remove_shard_id :: "shard_bits \<Rightarrow> shard_id \<Rightarrow> shard_bits" where
  "sb_remove_shard_id b i = ShardBits (sb_value b AND NOT (shard_bit i))"

definition sb_has_shard_id :: "shard_bits \<Rightarrow> shard_id \<Rightarrow> bool" where
  "sb_has_shard_id b i \<longleftrightarrow> 0 < sb_value b AND shard_bit i"

definition sb_shard_ids :: "shard_bits \<Rightarrow> shard_id list" where
  "sb_shard_ids b =
     filter (sb_has_shard_id b) (map of_nat [0..<unat TOTAL_SHARDS_COUNT])"

definition sb_minus :: "shard_bits \<Rightarrow> shard_bits \<Rightarrow> shard_bits" where
  "sb_minus b c = ShardBits (sb_value b AND NOT (sb_value c))"

definition sb_plus :: "shard_bits \<Rightarrow> shard_bits \<Rightarrow> shard_bits" where
  "sb_plus b c = ShardBits (sb_value b OR sb_value c)"

lemma clear_lowest_less: "(v :: 'w::len word) \<noteq> 0 \<Longrightarrow> v AND (v - 1) < v"
proof -
  assume "v \<noteq> 0"
  then have "v - 1 < v"
    by (simp add: word_less_nat_alt unat_minus_one unat_gt_0)
  then show ?thesis
    by (rule le_less_trans [OF word_and_le1])
qed

function sb_count_loop :: "u64 \<Rightarrow> u32 \<Rightarrow> u64 \<times> u32" where
  "sb_count_loop count v = (if v = 0 then (count, v) else sb_count_loop (count + 1) (v AND (v - 1)))"
  by pat_completeness auto
termination
  by (relation "measure (\<lambda>(_, v). unat v)") (auto simp: clear_lowest_less unat_mono)

declare sb_count_loop.simps [simp del]

definition sb_shard_id_count :: "shard_bits \<Rightarrow> u64 \<times> shard_bits" where
  "sb_shard_id_count b = (let (count, v) = sb_count_loop 0 (sb_value b) in (count, ShardBits v))"

record ec_volume_info =
  evi_volume_id :: volume_id
  evi_collection :: string
  evi_shard_bits :: shard_bits

definition evi_minus :: "ec_volume_info \<Rightarrow> ec_volume_info \<Rightarrow> ec_volume_info" where
  "evi_minus a b = a\<lparr>evi_shard_bits := sb_minus (evi_shard_bits a) (evi_shard_bits b)\<rparr>"

subsection \<open>Errors\<close>

datatype ec_shard_error =
    SIo io_error
  | SString string
  | SErasureCoding string
  | SUnderflow nat nat

datatype ec_volume_error =
    EIo io_error
  | EParseInt parse_int_error
  | EString string
  | EErasureCoding string
  | EVolume volume_error
  | ENeedle needle_error
  | EEcShard ec_shard_error
  | EShardNotFound volume_id shard_id

subsection \<open>Shard files\<close>

record ec_shard =
  es_shard_id :: shard_id
  es_volume_id :: volume_id
  es_collection :: string
  es_dir :: string
  es_ecd_file :: ino
  es_ecd_filesize :: u64

definition ec_shard_base_filename :: "string \<Rightarrow> volume_id \<Rightarrow> string" where
  "ec_shard_base_filename collection vid =
     (if collection = [] then fmt_dec (unat vid) else collection @ ''_'' @ fmt_dec (unat vid))"

definition ec_shard_filename :: "string \<Rightarrow> string \<Rightarrow> volume_id \<Rightarrow> string" where
  "ec_shard_filename collection dir vid =
     (if collection = [] then dir @ ''/'' @ fmt_dec (unat vid)
      else dir @ ''/'' @ collection @ ''_'' @ fmt_dec (unat vid))"

definition ec_shard_new ::
    "fs \<Rightarrow> string \<Rightarrow> string \<Rightarrow> volume_id \<Rightarrow> shard_id \<Rightarrow> (ec_shard, io_error) result" where
  "ec_shard_new s dir collection vid i =
     (let base_filename = ec_shard_filename collection dir vid in
      rbind (open_read s (base_filename @ to_ext i)) (\<lambda>ecd_file.
      Ok \<lparr>es_shard_id = i, es_volume_id = vid, es_collection = collection, es_dir = dir,
          es_ecd_file = ecd_file, es_ecd_filesize = metadata_len (fs_data s ecd_file)\<rparr>))"

definition es_filename :: "ec_shard \<Rightarrow> string" where
  "es_filename sh = ec_shard_filename (es_collection sh) (es_dir sh) (es_volume_id sh)"

definition ec_shard_destroy :: "fs \<Rightarrow> ec_shard \<Rightarrow> (fs, ec_shard_error) result" where
  "ec_shard_destroy s sh =
     map_err SIo (remove_file s (es_filename sh @ to_ext (es_shard_id sh)))"

subsection \<open>The volume information file\<close>

record 'f volume_info_msg =
  vif_files :: "'f list"
  vif_version :: u32
  vif_replication :: string

text \<open>The file mode's read bit is not modelled: a file can always be read.\<close>

definition maybe_load_volume_info ::
    "(bytes \<Rightarrow> ('f volume_info_msg, volume_error) result) \<Rightarrow> fs \<Rightarrow> string
      \<Rightarrow> ('f volume_info_msg option, volume_error) result" where
  "maybe_load_volume_info from_slice s filename =
     (case fs_names s filename of
        None \<Rightarrow> Ok None
      | Some i \<Rightarrow>
          rbind (from_slice (fs_data s i)) (\<lambda>volume_info.
          if vif_files volume_info = [] then Ok None else Ok (Some volume_info)))"

definition save_volume_info ::
    "('f volume_info_msg \<Rightarrow> (bytes, volume_error) result) \<Rightarrow> fs \<Rightarrow> u64 \<Rightarrow> string \<Rightarrow> 'f volume_info_msg
      \<Rightarrow> (fs, volume_error \<times> fs) result" where
  "save_volume_info to_vec s now filename volume_info =
     (case fs_names s filename of
        Some i \<Rightarrow>
          if fs_readonly s i then Err (VBox (filename @ '' not writable.''), s)
          else
            rbind (map_err (\<lambda>e. (e, s)) (to_vec volume_info)) (\<lambda>data.
            map_err (\<lambda>(e, s). (VIo e, s)) (write_all_at (fs_set s i []) i data 0))
      | None \<Rightarrow>
          rbind (map_err (\<lambda>e. (e, s)) (to_vec volume_info)) (\<lambda>data.
          let (s, i) = fs_alloc s filename now in
          map_err (\<lambda>(e, s). (VIo e, s)) (write_all_at s i data 0)))"

subsection \<open>Erasure-coded volumes\<close>

record ec_volume =
  ev_volume_id :: volume_id
  ev_dir :: string
  ev_collection :: string
  ev_ecx_file :: ino
  ev_ecx_filesize :: u64
  ev_ecx_created_at :: u64
  ev_shards :: "ec_shard list"
  ev_shard_locations :: "shard_id \<rightharpoonup> string list"
  ev_shard_locations_refresh_time :: u64
  ev_version :: version
  ev_ecj_file :: ino

text \<open>\<open>created\<close> is the birth time of the index file, \<open>now\<close> the clock.\<close>

definition ec_volume_new ::
    "(bytes \<Rightarrow> ('f volume_info_msg, volume_error) result)
      \<Rightarrow> ('f volume_info_msg \<Rightarrow> (bytes, volume_error) result) \<Rightarrow> u64 \<Rightarrow> u64 \<Rightarrow> fs
      \<Rightarrow> string \<Rightarrow> string \<Rightarrow> volume_id \<Rightarrow> (ec_volume \<times> fs, ec_volume_error \<times> fs) result" where
  "ec_volume_new from_slice to_vec created now s dir collection vid =
     (let base_filename = ec_shard_filename collection dir vid in
      rbind (map_err (\<lambda>e. (EIo e, s)) (open_write s (base_filename @ ''.ecx''))) (\<lambda>ecx_file.
      let ecx_filesize = metadata_len (fs_data s ecx_file) in
      rbind (map_err (\<lambda>e. (EIo e, s)) (open_create s (base_filename @ ''.ecj'') now)) (\<lambda>(s, ecj_file).
      let filename = base_filename @ ''.vif'' in
      rbind (map_err (\<lambda>e. (EVolume e, s)) (maybe_load_volume_info from_slice s filename)) (\<lambda>info.
      rbind (case info of
               Some volume_info \<Rightarrow> Ok (ucast (vif_version volume_info), s)
             | None \<Rightarrow>
                 rbind (map_err (\<lambda>(e, s). (EVolume e, s))
                   (save_volume_info to_vec s now filename
                     \<lparr>vif_files = [], vif_version = ucast VERSION2, vif_replication = []\<rparr>))
                   (\<lambda>s. Ok (VERSION2, s)))
        (\<lambda>(version, s).
      Ok (\<lparr>ev_volume_id = vid, ev_dir = dir, ev_collection = collection, ev_ecx_file = ecx_file,
           ev_ecx_filesize = ecx_filesize, ev_ecx_created_at = created, ev_shards = [],
           ev_shard_locations = Map.empty, ev_shard_locations_refresh_time = now,
           ev_version = version, ev_ecj_file = ecj_file\<rparr>, s))))))"

definition add_ec_shard :: "ec_volume \<Rightarrow> ec_shard \<Rightarrow> bool \<times> ec_volume" where
  "add_ec_shard v sh =
     (if \<exists>item \<in> set (ev_shards v). es_shard_id sh = es_shard_id item then (False, v)
      else (True, v\<lparr>ev_shards :=
        sort_key (\<lambda>x. (es_volume_id x, es_shard_id x)) (ev_shards v @ [sh])\<rparr>))"

fun last_index :: "('a \<Rightarrow> bool) \<Rightarrow> 'a list \<Rightarrow> nat \<Rightarrow> nat option \<Rightarrow> nat option" where
  "last_index P [] i idx = idx"
| "last_index P (x # xs) i idx = last_index P xs (Suc i) (if P x then Some i else idx)"

definition delete_ec_shard :: "ec_volume \<Rightarrow> shard_id \<Rightarrow> ec_shard option \<times> ec_volume" where
  "delete_ec_shard v i =
     (case last_index (\<lambda>sh. es_shard_id sh = i) (ev_shards v) 0 None of
        Some idx \<Rightarrow>
          (Some (ev_shards v ! idx),
           v\<lparr>ev_shards := take idx (ev_shards v) @ drop (Suc idx) (ev_shards v)\<rparr>)
      | None \<Rightarrow> (None, v))"

definition find_ec_shard :: "ec_volume \<Rightarrow> shard_id \<Rightarrow> ec_shard option" where
  "find_ec_shard v i = find (\<lambda>sh. es_shard_id sh = i) (ev_shards v)"

definition ec_shard_len :: "ec_volume \<Rightarrow> nat" where
  "ec_shard_len v = length (ev_shards v)"

definition find_needle_from_ecx :: "fs \<Rightarrow> ec_volume \<Rightarrow> needle_id \<Rightarrow> (needle_value, needle_error) result" where
  "find_needle_from_ecx s v n =
     map_err fst
       (rbind (search_needle_from_sorted_index s (ev_ecx_file v) (ev_ecx_filesize v) n None)
         (\<lambda>(value, _). Ok value))"

text \<open>\<open>self.shards[0]\<close> panics when no shard is mounted.\<close>

definition locate_ec_shard_needle ::
    "nat \<Rightarrow> fs \<Rightarrow> ec_volume \<Rightarrow> needle_id \<Rightarrow> (needle_value \<times> interval list option, ec_volume_error) result" where
  "locate_ec_shard_needle fuel s v n =
     rbind (map_err ENeedle (find_needle_from_ecx s v n)) (\<lambda>value.
     case ev_shards v of
       [] \<Rightarrow> Panic
     | shard # _ \<Rightarrow>
         rbind (locate_data fuel ERASURE_CODING_LARGE_BLOCK_SIZE ERASURE_CODING_SMALL_BLOCK_SIZE
             (es_ecd_filesize shard * data_shards) (actual_offset (nv_offset value))
             (actual_size (nv_size value)))
           (\<lambda>intervals. Ok (value, intervals)))"

text \<open>\<open>vec![0u8; 8]\<close> followed by \<open>put_u64\<close>: sixteen bytes.\<close>

definition delete_needle_from_ecx ::
    "fs \<Rightarrow> ec_volume \<Rightarrow> needle_id \<Rightarrow> (fs, ec_volume_error \<times> fs) result" where
  "delete_needle_from_ecx s v n =
     rbind (map_err (\<lambda>(e, s). (ENeedle e, s))
       (search_needle_from_sorted_index s (ev_ecx_file v) (ev_ecx_filesize v) n
         (Some mark_needle_deleted))) (\<lambda>(_, s).
     map_err (\<lambda>(e, s). (EIo e, s))
       (write_all_at s (ev_ecj_file v) (replicate 8 0 @ put_u64 n)
         (metadata_len (fs_data s (ev_ecj_file v)))))"

definition ev_filename :: "ec_volume \<Rightarrow> string" where
  "ev_filename v = ec_shard_filename (ev_collection v) (ev_dir v) (ev_volume_id v)"

fun destroy_shards :: "fs \<Rightarrow> ec_shard list \<Rightarrow> (fs, ec_volume_error \<times> fs) result" where
  "destroy_shards s [] = Ok s"
| "destroy_shards s (sh # shs) =
     rbind (map_err (\<lambda>e. (EEcShard e, s)) (ec_shard_destroy s sh)) (\<lambda>s. destroy_shards s shs)"

definition ec_volume_destroy :: "fs \<Rightarrow> ec_volume \<Rightarrow> (fs, ec_volume_error \<times> fs) result" where
  "ec_volume_destroy s v =
     (let filename = ev_filename v in
      rbind (destroy_shards s (ev_shards v)) (\<lambda>s.
      rbind (map_err (\<lambda>e. (EIo e, s)) (remove_file s (filename @ ''.ecx''))) (\<lambda>s.
      rbind (map_err (\<lambda>e. (EIo e, s)) (remove_file s (filename @ ''.ecj''))) (\<lambda>s.
      map_err (\<lambda>e. (EIo e, s)) (remove_file s (filename @ ''.vif''))))))"

record ec_shard_message =
  em_id :: volume_id
  em_collection :: string
  em_ec_index_bits :: u32

definition add_shard_id :: "u32 \<Rightarrow> shard_id \<Rightarrow> u32" where
  "add_shard_id ec_index_bits i = ec_index_bits OR shard_bit i"

fun shard_info_loop ::
    "ec_shard list \<Rightarrow> volume_id \<Rightarrow> ec_shard_message list \<Rightarrow> ec_shard_message list" where
  "shard_info_loop [] pre_volume_id infos = infos"
| "shard_info_loop (sh # shs) pre_volume_id infos =
     (let infos = (if es_volume_id sh \<noteq> pre_volume_id
                   then infos @ [\<lparr>em_id = es_volume_id sh, em_collection = es_collection sh,
                                  em_ec_index_bits = 0\<rparr>]
                   else infos);
          infos = (if infos = [] then infos
                   else butlast infos @ [(last infos)\<lparr>em_ec_index_bits :=
                     add_shard_id (em_ec_index_bits (last infos)) (es_shard_id sh)\<rparr>])
      in shard_info_loop shs (es_volume_id sh) infos)"

definition get_volume_ec_shard_info :: "ec_volume \<Rightarrow> ec_shard_message list" where
  "get_volume_ec_shard_info v = shard_info_loop (ev_shards v) (- 1) []"

subsection \<open>Counting\<close>

lemma lowest_bit_split:
  fixes v :: "'w::len word"
  assumes "v \<noteq> 0"
  obtains n where "bit v n" and "\<And>m. bit (v AND (v - 1)) m \<longleftrightarrow> bit v m \<and> m \<noteq> n"
proof -
  define n where "n = (LEAST i. bit v i)"
  obtain i where "bit v i"
    using assms by (metis bit_word_eqI bit_0_eq bot_apply bot_bool_def)
  then have n: "bit v n"
    unfolding n_def by (rule LeastI)
  have below: "\<not> bit v m" if "m < n" for m
    using not_less_Least that unfolding n_def by blast
  have len: "n < LENGTH('w)"
    using n by (rule bit_imp_le_length)
  define a where "a = v AND NOT (mask (Suc n))"
  have a: "bit a m \<longleftrightarrow> bit v m \<and> n < m" for m
    using bit_imp_le_length [of v m] by (auto simp: a_def bit_simps)
  have "v = a OR 2 ^ n"
    using n below len by (intro bit_word_eqI) (auto simp: a bit_simps, metis linorder_neqE_nat)
  also have "\<dots> = a + 2 ^ n"
    by (rule disjunctive_add [symmetric]) (auto simp: a bit_simps)
  finally have "v - 1 = a + mask n"
    by (simp add: mask_eq_exp_minus_1)
  also have "\<dots> = a OR mask n"
    by (rule disjunctive_add) (auto simp: a bit_simps)
  finally have "bit (v AND (v - 1)) m \<longleftrightarrow> bit v m \<and> m \<noteq> n" for m
    using below [of m] bit_imp_le_length [of v m] by (auto simp: a bit_simps)
  with n show ?thesis
    by (rule that)
qed

lemma sb_count_loop_eq:
  "sb_count_loop c v = (c + of_nat (card {i. bit v i}), 0)"
proof (induction c v rule: sb_count_loop.induct)
  case (1 c v)
  show ?case
  proof (cases "v = 0")
    case False
    obtain n where n: "bit v n" "\<And>m. bit (v AND (v - 1)) m \<longleftrightarrow> bit v m \<and> m \<noteq> n"
      using lowest_bit_split [OF False] by blast
    have "{i. bit v i} = insert n {i. bit (v AND (v - 1)) i}" "n \<notin> {i. bit (v AND (v - 1)) i}"
      using n by auto
    moreover have "finite {i. bit (v AND (v - 1)) i}"
      by (rule finite_subset [of _ "{..<32}"]) (auto dest: bit_imp_le_length)
    ultimately show ?thesis
      using 1 [OF False] False by (subst sb_count_loop.simps) (simp add: add.assoc)
  qed (simp add: sb_count_loop.simps)
qed

text \<open>
  C24: \<open>shard_id_count\<close> returns the number of shard ids in the set, and leaves the shared cell it
  counted empty, so that every later question to the same set answers that no shard is present.
\<close>

theorem shard_id_count_empties:
  "sb_shard_id_count b = (of_nat (card {i. bit (sb_value b) i}), ShardBits 0)
    \<and> \<not> sb_has_shard_id (snd (sb_shard_id_count b)) i"
  by (simp add: sb_shard_id_count_def sb_count_loop_eq sb_has_shard_id_def)


subsection \<open>The mounted shards of a volume\<close>

definition ev_wf :: "ec_volume \<Rightarrow> bool" where
  "ev_wf v \<longleftrightarrow> sorted (map es_shard_id (ev_shards v)) \<and> distinct (map es_shard_id (ev_shards v)) \<and>
     (\<forall>sh \<in> set (ev_shards v). es_volume_id sh = ev_volume_id v)"

lemma find_distinct:
  assumes "distinct (map f xs)" and "set xs = set ys" and "distinct (map f ys)"
  shows "find (\<lambda>x. f x = k) xs = find (\<lambda>x. f x = k) ys"
proof -
  have find_map_of: "find (\<lambda>x. f x = k) zs = map_of (map (\<lambda>x. (f x, x)) zs) k" for zs
    by (induction zs) auto
  have "map_of (map (\<lambda>x. (f x, x)) xs) = map_of (map (\<lambda>x. (f x, x)) ys)"
    using assms by (intro iffD2 [OF map_of_inject_set]) (simp_all add: comp_def)
  then show ?thesis
    by (simp add: find_map_of)
qed

lemma last_index_distinct:
  assumes "distinct (map f xs)"
  shows "last_index (\<lambda>x. f x = k) xs n idx =
    (case find (\<lambda>x. f x = k) xs of None \<Rightarrow> idx
     | Some _ \<Rightarrow> Some (n + length (takeWhile (\<lambda>x. f x \<noteq> k) xs)))"
  using assms
proof (induction xs arbitrary: n idx)
  case (Cons x xs)
  have "find (\<lambda>x. f x = k) xs = None" if "f x = k"
    using Cons.prems that by (simp add: find_None_iff) (metis imageI)
  then show ?case
    using Cons by (auto split: option.splits)
qed simp

lemma find_takeWhile:
  assumes "find (\<lambda>x. f x = k) xs = Some y"
  shows "xs = takeWhile (\<lambda>x. f x \<noteq> k) xs @ y # drop (Suc (length (takeWhile (\<lambda>x. f x \<noteq> k) xs))) xs"
  using assms by (induction xs) (auto split: if_splits)

lemma add_ec_shard_wf:
  assumes "ev_wf v" and "es_volume_id sh = ev_volume_id v"
  shows "ev_wf (snd (add_ec_shard v sh))"
proof (cases "\<exists>item \<in> set (ev_shards v). es_shard_id sh = es_shard_id item")
  case False
  let ?xs = "sort_key (\<lambda>x. (es_volume_id x, es_shard_id x)) (ev_shards v @ [sh])"
  have vid: "\<forall>x \<in> set ?xs. es_volume_id x = ev_volume_id v"
    using assms by (auto simp: ev_wf_def)
  have "sorted (map (\<lambda>x. (es_volume_id x, es_shard_id x)) ?xs)"
    by simp
  also have "map (\<lambda>x. (es_volume_id x, es_shard_id x)) ?xs = map (Pair (ev_volume_id v)) (map es_shard_id ?xs)"
    using vid by simp
  finally have "sorted (map es_shard_id ?xs)"
    by (simp add: sorted_map sorted_wrt_map)
  moreover have "distinct (map es_shard_id (ev_shards v @ [sh]))"
    using False assms(1) by (auto simp: ev_wf_def)
  then have "distinct (map es_shard_id ?xs)"
    by (auto simp: distinct_map)
  ultimately show ?thesis
    using vid False by (simp add: add_ec_shard_def ev_wf_def)
qed (use assms in \<open>simp add: add_ec_shard_def\<close>)

lemma add_ec_shard_find:
  assumes "ev_wf v" and "es_volume_id sh = ev_volume_id v"
  shows "find_ec_shard (snd (add_ec_shard v sh)) j =
    (if fst (add_ec_shard v sh) \<and> j = es_shard_id sh then Some sh else find_ec_shard v j)"
    and "fst (add_ec_shard v sh) \<longleftrightarrow> find_ec_shard v (es_shard_id sh) = None"
proof -
  show a: "fst (add_ec_shard v sh) \<longleftrightarrow> find_ec_shard v (es_shard_id sh) = None"
    by (auto simp: add_ec_shard_def find_ec_shard_def find_None_iff)
  show "find_ec_shard (snd (add_ec_shard v sh)) j =
    (if fst (add_ec_shard v sh) \<and> j = es_shard_id sh then Some sh else find_ec_shard v j)"
  proof (cases "fst (add_ec_shard v sh)")
    case True
    let ?xs = "ev_shards (snd (add_ec_shard v sh))"
    have "set ?xs = set (sh # ev_shards v)"
      using True by (auto simp: add_ec_shard_def split: if_splits)
    moreover have "distinct (map es_shard_id (sh # ev_shards v))"
      using assms(1) True by (auto simp: ev_wf_def add_ec_shard_def split: if_splits)
    ultimately have "find_ec_shard (snd (add_ec_shard v sh)) j =
        find (\<lambda>x. es_shard_id x = j) (sh # ev_shards v)"
      unfolding find_ec_shard_def using add_ec_shard_wf [OF assms]
      by (intro find_distinct) (simp_all add: ev_wf_def)
    then show ?thesis
      using True by (auto simp: find_ec_shard_def)
  qed (auto simp: add_ec_shard_def split: if_splits)
qed


lemma delete_ec_shard_split:
  assumes "ev_wf v"
  obtains "find_ec_shard v i = None" "delete_ec_shard v i = (None, v)"
  | xs sh ys where "find_ec_shard v i = Some sh" "ev_shards v = xs @ sh # ys" "es_shard_id sh = i"
      "delete_ec_shard v i = (Some sh, v\<lparr>ev_shards := xs @ ys\<rparr>)"
proof (cases "find_ec_shard v i")
  case None
  then show ?thesis
    using assms that(1)
    by (simp add: delete_ec_shard_def last_index_distinct ev_wf_def find_ec_shard_def)
next
  case (Some sh)
  let ?xs = "takeWhile (\<lambda>x. es_shard_id x \<noteq> i) (ev_shards v)"
  let ?ys = "drop (Suc (length ?xs)) (ev_shards v)"
  have split: "ev_shards v = ?xs @ sh # ?ys"
    using Some unfolding find_ec_shard_def by (rule find_takeWhile)
  have idx: "last_index (\<lambda>sh. es_shard_id sh = i) (ev_shards v) 0 None = Some (length ?xs)"
    using assms Some by (simp add: last_index_distinct ev_wf_def find_ec_shard_def)
  have "ev_shards v ! length ?xs = sh" "take (length ?xs) (ev_shards v) = ?xs"
    by (subst split, simp)+
  then have "delete_ec_shard v i = (Some sh, v\<lparr>ev_shards := ?xs @ ?ys\<rparr>)"
    by (simp add: delete_ec_shard_def idx)
  moreover have "es_shard_id sh = i"
    using Some by (simp add: find_ec_shard_def find_Some_iff) metis
  ultimately show ?thesis
    using Some split that(2) by blast
qed

lemma find_ec_shard_append:
  assumes "ev_shards v = xs @ sh # ys" and "distinct (map es_shard_id (ev_shards v))"
  shows "find (\<lambda>x. es_shard_id x = j) (xs @ ys) =
    (if j = es_shard_id sh then None else find_ec_shard v j)"
proof -
  have "find P (xs @ ys) = (case find P xs of None \<Rightarrow> find P ys | r \<Rightarrow> r)"
    "find P (xs @ sh # ys) = (case find P xs of None \<Rightarrow> if P sh then Some sh else find P ys | r \<Rightarrow> r)" for P
    by (induction xs) auto
  moreover have "find (\<lambda>x. es_shard_id x = es_shard_id sh) (xs @ ys) = None"
    using assms by (auto simp: find_None_iff image_iff)
  ultimately show ?thesis
    using assms(1) by (auto simp: find_ec_shard_def split: option.splits)
qed

text \<open>
  C24: the shards of an erasure-coded volume behave as a map from shard ids. Mounting a shard adds
  it exactly when its id is not mounted and changes no other id; unmounting returns the mounted
  shard and removes that id only; the shards stay sorted by id and without duplicates.
\<close>

theorem ec_shards_are_a_map:
  assumes "ev_wf v" and "es_volume_id sh = ev_volume_id v"
  shows "ev_wf (snd (add_ec_shard v sh)) \<and> ev_wf (snd (delete_ec_shard v i)) \<and>
    (fst (add_ec_shard v sh) \<longleftrightarrow> find_ec_shard v (es_shard_id sh) = None) \<and>
    find_ec_shard (snd (add_ec_shard v sh)) j =
      (if fst (add_ec_shard v sh) \<and> j = es_shard_id sh then Some sh else find_ec_shard v j) \<and>
    fst (delete_ec_shard v i) = find_ec_shard v i \<and>
    find_ec_shard (snd (delete_ec_shard v i)) j = (if j = i then None else find_ec_shard v j)"
proof -
  have "ev_wf (snd (delete_ec_shard v i)) \<and> fst (delete_ec_shard v i) = find_ec_shard v i \<and>
    find_ec_shard (snd (delete_ec_shard v i)) j = (if j = i then None else find_ec_shard v j)"
  proof (cases rule: delete_ec_shard_split [OF assms(1), of i])
    case 1
    then show ?thesis
      using assms(1) by auto
  next
    case (2 xs sh ys)
    then show ?thesis
      using assms(1) find_ec_shard_append [of v xs sh ys j]
      by (auto simp: ev_wf_def find_ec_shard_def sorted_append)
  qed
  then show ?thesis
    using add_ec_shard_wf [OF assms] add_ec_shard_find [OF assms] by simp
qed

definition ec_shard_example :: "shard_id \<Rightarrow> ec_shard" where
  "ec_shard_example i = \<lparr>es_shard_id = i, es_volume_id = 7, es_collection = [], es_dir = ''d'',
     es_ecd_file = 0, es_ecd_filesize = 8\<rparr>"

definition ec_volume_example :: ec_volume where
  "ec_volume_example = \<lparr>ev_volume_id = 7, ev_dir = ''d'', ev_collection = [], ev_ecx_file = 1,
     ev_ecx_filesize = 0, ev_ecx_created_at = 0, ev_shards = [ec_shard_example 2, ec_shard_example 5],
     ev_shard_locations = Map.empty, ev_shard_locations_refresh_time = 0, ev_version = 2,
     ev_ecj_file = 2\<rparr>"

lemma ec_volume_example_wf: "ev_wf ec_volume_example"
  by (simp add: ev_wf_def ec_volume_example_def ec_shard_example_def)

theorem ec_shards_are_a_map_witness:
  "ev_wf (snd (add_ec_shard ec_volume_example (ec_shard_example 3))) \<and>
    ev_wf (snd (delete_ec_shard ec_volume_example 5)) \<and>
    (fst (add_ec_shard ec_volume_example (ec_shard_example 3)) \<longleftrightarrow>
      find_ec_shard ec_volume_example (es_shard_id (ec_shard_example 3)) = None) \<and>
    find_ec_shard (snd (add_ec_shard ec_volume_example (ec_shard_example 3))) 3 =
      (if fst (add_ec_shard ec_volume_example (ec_shard_example 3)) \<and>
          3 = es_shard_id (ec_shard_example 3)
       then Some (ec_shard_example 3) else find_ec_shard ec_volume_example 3) \<and>
    fst (delete_ec_shard ec_volume_example 5) = find_ec_shard ec_volume_example 5 \<and>
    find_ec_shard (snd (delete_ec_shard ec_volume_example 5)) 3 =
      (if 3 = (5 :: shard_id) then None else find_ec_shard ec_volume_example 3)"
  by (rule ec_shards_are_a_map [OF ec_volume_example_wf])
    (simp add: ec_volume_example_def ec_shard_example_def)


subsection \<open>The heartbeat\<close>

lemma sb_has_shard_id_bit: "sb_has_shard_id b i \<longleftrightarrow> bit (sb_value b) (unat i mod 32)"
  by (simp add: sb_has_shard_id_def shard_bit_def word_gt_0 bit_iff_and_push_bit_not_eq_0)

lemma bit_foldl_add_shard_id:
  "bit (foldl add_shard_id b is) n \<longleftrightarrow> bit b n \<or> (\<exists>i \<in> set is. unat i mod 32 = n)"
  by (induction "is" arbitrary: b) (auto simp: add_shard_id_def shard_bit_def bit_simps)

lemma shard_info_loop_same_volume:
  assumes "\<forall>sh \<in> set shs. es_volume_id sh = vid"
  shows "shard_info_loop shs vid [m] =
    [m\<lparr>em_ec_index_bits := foldl add_shard_id (em_ec_index_bits m) (map es_shard_id shs)\<rparr>]"
  using assms by (induction shs arbitrary: m) (simp_all add: Let_def)

text \<open>
  C25: the heartbeat of an erasure-coded volume with mounted shards is one message for the volume,
  whose bits hold a shard id exactly when that shard is mounted. The volume id that the loop starts
  from, \<open>u32::MAX\<close>, is excluded: such a volume reports nothing.
\<close>

theorem heartbeat_reports_mounted_shards:
  assumes "ev_wf v" and "ev_shards v \<noteq> []" and "ev_volume_id v \<noteq> - 1"
    and "\<forall>sh \<in> set (ev_shards v). es_shard_id sh < 32"
  shows "\<exists>m. get_volume_ec_shard_info v = [m] \<and> em_id m = ev_volume_id v \<and>
    (\<forall>i < 32. sb_has_shard_id (ShardBits (em_ec_index_bits m)) i \<longleftrightarrow> find_ec_shard v i \<noteq> None)"
proof -
  obtain sh shs where shs: "ev_shards v = sh # shs"
    using assms(2) by (cases "ev_shards v") auto
  define m where "m = \<lparr>em_id = es_volume_id sh, em_collection = es_collection sh,
    em_ec_index_bits = foldl add_shard_id 0 (map es_shard_id (ev_shards v))\<rparr>"
  have small: "unat i mod 32 = unat i" if "i < 32" for i :: shard_id
    using that by (simp add: word_less_nat_alt)
  have "get_volume_ec_shard_info v = [m]"
    using assms shard_info_loop_same_volume [of shs "ev_volume_id v"]
    by (simp add: get_volume_ec_shard_info_def shs m_def ev_wf_def Let_def)
  moreover have "sb_has_shard_id (ShardBits (em_ec_index_bits m)) i \<longleftrightarrow> find_ec_shard v i \<noteq> None"
    if "i < 32" for i
    using that assms(4)
    by (auto simp: sb_has_shard_id_bit m_def bit_foldl_add_shard_id find_ec_shard_def find_None_iff small
        word_unat_eq_iff)
  ultimately show ?thesis
    using assms(1) by (intro exI [of _ m]) (simp add: m_def ev_wf_def shs)
qed

theorem heartbeat_reports_mounted_shards_witness:
  "\<exists>m. get_volume_ec_shard_info ec_volume_example = [m] \<and> em_id m = ev_volume_id ec_volume_example \<and>
    (\<forall>i < 32. sb_has_shard_id (ShardBits (em_ec_index_bits m)) i \<longleftrightarrow>
      find_ec_shard ec_volume_example i \<noteq> None)"
  by (rule heartbeat_reports_mounted_shards [OF ec_volume_example_wf])
    (simp_all add: ec_volume_example_def ec_shard_example_def)

end
