(* ===== verification/EcEncode.thy ===== *)
theory EcEncode
  imports EcShards
begin

section \<open>Encoding a volume into shards\<close>

text \<open>
  \<open>storage/erasure_coding/encoder.rs\<close>: cutting the data file of a volume into the fourteen shard
  files and rebuilding missing shard files. The Reed--Solomon library is the parameter \<open>rs\<close>: its
  constructor, its encoder and its reconstruction. \<open>rs_law\<close> is the documented behaviour of the
  encoder: on fourteen non-empty buffers of one length it succeeds, leaves the ten data buffers as
  they are and returns four parity buffers of that length. An \<open>i64\<close> is a 64-bit word read with
  \<^term>\<open>sint\<close>. A loop that the code does not bound has fuel and is \<^term>\<open>None\<close> when the fuel runs
  out; the theorems give a fuel that is enough. The lemmas follow the nesting of the code: a batch,
  the batches of a row, the rows of a loop, the two loops, the whole operation.
\<close>

record 'r reed_solomon =
  rs_new :: "nat \<Rightarrow> nat \<Rightarrow> ('r, string) result"
  rs_encode :: "'r \<Rightarrow> bytes list \<Rightarrow> (bytes list, string) result"
  rs_reconstruct :: "'r \<Rightarrow> bytes option list \<Rightarrow> (bytes option list, string) result"

abbreviation total_shards :: nat where "total_shards \<equiv> unat TOTAL_SHARDS_COUNT"

subsection \<open>Encoding\<close>

fun open_ec_files_from ::
    "fs \<Rightarrow> u64 \<Rightarrow> string \<Rightarrow> bool \<Rightarrow> nat list \<Rightarrow> ino list \<Rightarrow> (ino list \<times> fs, ec_shard_error \<times> fs) result" where
  "open_ec_files_from s now base_filename readonly [] files = Ok (files, s)"
| "open_ec_files_from s now base_filename readonly (i # is) files =
     (let filename = base_filename @ to_ext (of_nat i) in
      rbind (map_err (\<lambda>e. (SIo e, s))
        (if readonly then rbind (open_read s filename) (\<lambda>file. Ok (s, file))
         else open_create_truncate s filename now)) (\<lambda>(s, file).
      open_ec_files_from s now base_filename readonly is (files @ [file])))"

definition open_ec_files ::
    "fs \<Rightarrow> u64 \<Rightarrow> string \<Rightarrow> bool \<Rightarrow> (ino list \<times> fs, ec_shard_error \<times> fs) result" where
  "open_ec_files s now base_filename readonly =
     open_ec_files_from s now base_filename readonly [0..<total_shards] []"

text \<open>\<open>read_at\<close> into the buffer, the rest of it set to zero.\<close>

definition fill_buf :: "bytes \<Rightarrow> bytes \<Rightarrow> u64 \<Rightarrow> bytes" where
  "fill_buf content buf off =
     (let r = read_at content (length buf) off in r @ replicate (length buf - length r) 0)"

fun write_bufs :: "fs \<Rightarrow> ino list \<Rightarrow> bytes list \<Rightarrow> (fs, ec_shard_error \<times> fs) result" where
  "write_bufs s [] bufs = Ok s"
| "write_bufs s (out # outs) [] = Panic"
| "write_bufs s (out # outs) (buf # bufs) =
     rbind (map_err (\<lambda>(e, s). (SIo e, s)) (write_all s out buf)) (\<lambda>s. write_bufs s outs bufs)"

definition encode_data_one_batch ::
    "'r reed_solomon \<Rightarrow> 'r \<Rightarrow> ino \<Rightarrow> u64 \<Rightarrow> u64 \<Rightarrow> ino list \<Rightarrow> bytes list \<Rightarrow> fs
      \<Rightarrow> (bytes list \<times> fs, ec_shard_error \<times> fs) result" where
  "encode_data_one_batch rs r data_file start_offset block_size outputs bufs s =
     (if length bufs \<noteq> length outputs \<or> length bufs \<noteq> total_shards then Panic
      else
        let bufs = map (\<lambda>(i, buf).
              if i < unat DATA_SHARDS_COUNT
              then fill_buf (fs_data s data_file) buf (start_offset + block_size * of_nat i)
              else buf) (enumerate 0 bufs)
        in rbind (map_err (\<lambda>e. (SErasureCoding e, s)) (rs_encode rs r bufs)) (\<lambda>bufs.
           rbind (write_bufs s outputs bufs) (\<lambda>s. Ok (bufs, s))))"

fun encode_batches ::
    "'r reed_solomon \<Rightarrow> 'r \<Rightarrow> ino \<Rightarrow> u64 \<Rightarrow> u64 \<Rightarrow> u64 \<Rightarrow> ino list \<Rightarrow> nat list \<Rightarrow> bytes list \<Rightarrow> fs
      \<Rightarrow> (bytes list \<times> fs, ec_shard_error \<times> fs) result" where
  "encode_batches rs r data_file start_offset block_size buf_size outputs [] bufs s = Ok (bufs, s)"
| "encode_batches rs r data_file start_offset block_size buf_size outputs (i # is) bufs s =
     rbind (encode_data_one_batch rs r data_file (start_offset + of_nat i * buf_size) block_size
         outputs bufs s)
       (\<lambda>(bufs, s). encode_batches rs r data_file start_offset block_size buf_size outputs is bufs s)"

text \<open>\<open>bufs[0]\<close> panics without buffers, and the division panics on empty ones.\<close>

definition encode_data ::
    "'r reed_solomon \<Rightarrow> 'r \<Rightarrow> ino \<Rightarrow> u64 \<Rightarrow> u64 \<Rightarrow> ino list \<Rightarrow> bytes list \<Rightarrow> fs
      \<Rightarrow> (bytes list \<times> fs, ec_shard_error \<times> fs) result" where
  "encode_data rs r data_file start_offset block_size outputs bufs s =
     (case bufs of
        [] \<Rightarrow> Panic
      | buf # _ \<Rightarrow>
          let buf_size = of_nat (length buf) :: u64 in
          if buf_size = 0 then Panic
          else if block_size mod buf_size \<noteq> 0
          then Err (SString (''unexpected block size '' @ fmt_dec (unat block_size)
                     @ '', buffer size '' @ fmt_dec (unat buf_size)), s)
          else encode_batches rs r data_file start_offset block_size buf_size outputs
                 [0..<unat (block_size div buf_size)] bufs s)"

text \<open>Both loops of \<open>encode_data_file\<close>: \<open>bound\<close> is a large row for the first and zero for the second.\<close>

fun encode_rows ::
    "nat \<Rightarrow> 'r reed_solomon \<Rightarrow> 'r \<Rightarrow> ino \<Rightarrow> u64 \<Rightarrow> u64 \<Rightarrow> ino list \<Rightarrow> u64 \<Rightarrow> u64 \<Rightarrow> bytes list \<Rightarrow> fs
      \<Rightarrow> (u64 \<times> u64 \<times> bytes list \<times> fs, ec_shard_error \<times> fs) result option" where
  "encode_rows 0 rs r data_file bound block_size outputs remaining processed_size bufs s = None"
| "encode_rows (Suc fuel) rs r data_file bound block_size outputs remaining processed_size bufs s =
     (if sint remaining > sint bound then
        case encode_data rs r data_file processed_size block_size outputs bufs s of
          Ok (bufs, s) \<Rightarrow>
            encode_rows fuel rs r data_file bound block_size outputs
              (remaining - block_size * data_shards) (processed_size + block_size * data_shards) bufs s
        | Err e \<Rightarrow> Some (Err e)
        | Panic \<Rightarrow> Some Panic
      else Some (Ok (remaining, processed_size, bufs, s)))"

definition encode_data_file ::
    "nat \<Rightarrow> 'r reed_solomon \<Rightarrow> u64 \<Rightarrow> u64 \<Rightarrow> string \<Rightarrow> u64 \<Rightarrow> u64 \<Rightarrow> u64 \<Rightarrow> ino \<Rightarrow> fs
      \<Rightarrow> (fs, ec_shard_error \<times> fs) result option" where
  "encode_data_file fuel rs now remaining base_filename buf_size large_block_size small_block_size
     data_file s =
     (case rs_new rs (unat DATA_SHARDS_COUNT) (unat PARITY_SHARDS_COUNT) of
        Err e \<Rightarrow> Some (Err (SErasureCoding e, s))
      | Panic \<Rightarrow> Some Panic
      | Ok r \<Rightarrow>
          (case open_ec_files s now base_filename False of
             Err e \<Rightarrow> Some (Err e)
           | Panic \<Rightarrow> Some Panic
           | Ok (outputs, s) \<Rightarrow>
               (case encode_rows fuel rs r data_file (large_block_size * data_shards) large_block_size
                   outputs remaining 0 (replicate total_shards (replicate (unat buf_size) 0)) s of
                  None \<Rightarrow> None
                | Some (Err e) \<Rightarrow> Some (Err e)
                | Some Panic \<Rightarrow> Some Panic
                | Some (Ok (remaining, processed_size, bufs, s)) \<Rightarrow>
                    map_option (\<lambda>res. rbind res (\<lambda>(_, _, _, s). Ok s))
                      (encode_rows fuel rs r data_file 0 small_block_size outputs remaining
                        processed_size bufs s))))"

definition generate_ec_files ::
    "nat \<Rightarrow> 'r reed_solomon \<Rightarrow> u64 \<Rightarrow> string \<Rightarrow> u64 \<Rightarrow> u64 \<Rightarrow> u64 \<Rightarrow> fs
      \<Rightarrow> (fs, ec_shard_error \<times> fs) result option" where
  "generate_ec_files fuel rs now base_filename buf_size large_block_size small_block_size s =
     (case open_read s (base_filename @ ''.dat'') of
        Err e \<Rightarrow> Some (Err (SIo e, s))
      | Panic \<Rightarrow> Some Panic
      | Ok data_file \<Rightarrow>
          encode_data_file fuel rs now (metadata_len (fs_data s data_file)) base_filename buf_size
            large_block_size small_block_size data_file s)"

definition write_ec_files ::
    "nat \<Rightarrow> 'r reed_solomon \<Rightarrow> u64 \<Rightarrow> string \<Rightarrow> fs \<Rightarrow> (fs, ec_shard_error \<times> fs) result option" where
  "write_ec_files fuel rs now base_filename s =
     generate_ec_files fuel rs now base_filename (256 * 1024) ERASURE_CODING_LARGE_BLOCK_SIZE
       ERASURE_CODING_SMALL_BLOCK_SIZE s"


subsection \<open>Rebuilding missing shard files\<close>

fun open_or_create_shards ::
    "fs \<Rightarrow> u64 \<Rightarrow> string \<Rightarrow> nat list
      \<Rightarrow> (bool list \<times> ino option list \<times> ino option list \<times> u32 list \<times> fs, ec_shard_error \<times> fs) result" where
  "open_or_create_shards s now base_filename [] = Ok ([], [], [], [], s)"
| "open_or_create_shards s now base_filename (i # is) =
     (let shard_filename = base_filename @ to_ext (of_nat i) in
      rbind (map_err (\<lambda>e. (SIo e, s)) (file_exists s shard_filename)) (\<lambda>ex.
      if ex then
        rbind (map_err (\<lambda>e. (SIo e, s)) (open_read s shard_filename)) (\<lambda>input.
        rbind (open_or_create_shards s now base_filename is) (\<lambda>(has, ins, outs, shards, s).
        Ok (True # has, Some input # ins, None # outs, shards, s)))
      else
        rbind (map_err (\<lambda>e. (SIo e, s)) (open_create_truncate s shard_filename now)) (\<lambda>(s, out).
        rbind (open_or_create_shards s now base_filename is) (\<lambda>(has, ins, outs, shards, s).
        Ok (False # has, None # ins, Some out # outs, of_nat i # shards, s)))))"

text \<open>One \<open>write_at\<close> may write less than the buffer, and returns how much.\<close>

definition write_at :: "fs \<Rightarrow> ino \<Rightarrow> bytes \<Rightarrow> u64 \<Rightarrow> (nat \<times> fs, io_error \<times> fs) result" where
  "write_at s i bs off =
     (case fs_faults s of
        Some (Suc k) # fl \<Rightarrow>
          let w = take (Suc k) bs in
          Ok (length w, (fs_set s i (overwrite (fs_data s i) (unat off) w))\<lparr>fs_faults := fl\<rparr>)
      | _ \<Rightarrow> rbind (write_all_at s i bs off) (\<lambda>s. Ok (length bs, s)))"

text \<open>
  Reading the next piece of every present shard: the buffers and the size of the piece, or
  \<^term>\<open>None\<close> when a shard is at its end, where the source returns.
\<close>

fun rebuild_read ::
    "fs \<Rightarrow> u64 \<Rightarrow> (bool \<times> ino option \<times> bytes option) list \<Rightarrow> nat
      \<Rightarrow> ((bytes option list \<times> nat) option, ec_shard_error) result" where
  "rebuild_read s start_offset [] piece_size = Ok (Some ([], piece_size))"
| "rebuild_read s start_offset ((has, input, buf) # rest) piece_size =
     (case (has, buf, input) of
        (False, _, _) \<Rightarrow>
          rbind (rebuild_read s start_offset rest piece_size) (\<lambda>res.
          Ok (map_option (\<lambda>(bufs, n). (None # bufs, n)) res))
      | (True, Some b, Some i) \<Rightarrow>
          let r = read_at (fs_data s i) (length b) start_offset; n = length r in
          if n = 0 then Ok None
          else
            let piece_size = (if piece_size = 0 then n else piece_size) in
            if piece_size \<noteq> n
            then Err (SString (''ec shard size expected '' @ fmt_dec piece_size
                   @ '' but actually is '' @ fmt_dec n))
            else
              rbind (rebuild_read s start_offset rest piece_size) (\<lambda>res.
              Ok (map_option (\<lambda>(bufs, n). (Some (r @ drop n b) # bufs, n)) res))
      | _ \<Rightarrow>
          rbind (rebuild_read s start_offset rest piece_size) (\<lambda>res.
          Ok (map_option (\<lambda>(bufs, n). (buf # bufs, n)) res)))"

fun rebuild_write ::
    "fs \<Rightarrow> u64 \<Rightarrow> nat \<Rightarrow> (bool \<times> bytes option \<times> ino option) list \<Rightarrow> (fs, ec_shard_error \<times> fs) result" where
  "rebuild_write s start_offset piece_size [] = Ok s"
| "rebuild_write s start_offset piece_size ((has, buf, out) # rest) =
     (case (has, buf, out) of
        (False, Some b, Some i) \<Rightarrow>
          rbind (slice b 0 piece_size) (\<lambda>piece.
          rbind (map_err (\<lambda>(e, s). (SIo e, s)) (write_at s i piece start_offset)) (\<lambda>(n, s).
          if piece_size \<noteq> n then Err (SString ''failed to reconstruct data file.'', s)
          else rebuild_write s start_offset piece_size rest))
      | _ \<Rightarrow> rebuild_write s start_offset piece_size rest)"

fun rebuild_pieces ::
    "nat \<Rightarrow> 'r reed_solomon \<Rightarrow> 'r \<Rightarrow> bool list \<Rightarrow> ino option list \<Rightarrow> ino option list
      \<Rightarrow> bytes option list \<Rightarrow> u64 \<Rightarrow> nat \<Rightarrow> fs \<Rightarrow> (fs, ec_shard_error \<times> fs) result option" where
  "rebuild_pieces 0 rs r has ins outs bufs start_offset piece_size s = None"
| "rebuild_pieces (Suc fuel) rs r has ins outs bufs start_offset piece_size s =
     (case rebuild_read s start_offset (zip has (zip ins bufs)) piece_size of
        Err e \<Rightarrow> Some (Err (e, s))
      | Panic \<Rightarrow> Some Panic
      | Ok None \<Rightarrow> Some (Ok s)
      | Ok (Some (bufs, piece_size)) \<Rightarrow>
          (case rs_reconstruct rs r bufs of
             Err e \<Rightarrow> Some (Err (SErasureCoding e, s))
           | Panic \<Rightarrow> Some Panic
           | Ok bufs \<Rightarrow>
               (case rebuild_write s start_offset piece_size (zip has (zip bufs outs)) of
                  Err e \<Rightarrow> Some (Err e)
                | Panic \<Rightarrow> Some Panic
                | Ok s \<Rightarrow>
                    rebuild_pieces fuel rs r has ins outs bufs (start_offset + of_nat piece_size)
                      piece_size s)))"

definition rebuild_ec_files_inner ::
    "nat \<Rightarrow> 'r reed_solomon \<Rightarrow> bool list \<Rightarrow> ino option list \<Rightarrow> ino option list \<Rightarrow> fs
      \<Rightarrow> (fs, ec_shard_error \<times> fs) result option" where
  "rebuild_ec_files_inner fuel rs has ins outs s =
     (case rs_new rs (unat DATA_SHARDS_COUNT) (unat PARITY_SHARDS_COUNT) of
        Err e \<Rightarrow> Some (Err (SErasureCoding e, s))
      | Panic \<Rightarrow> Some Panic
      | Ok r \<Rightarrow>
          if \<exists>(h, i, out) \<in> set (zip has (zip ins outs)). (h \<and> i = None) \<or> (\<not> h \<and> out = None)
          then Some Panic
          else rebuild_pieces fuel rs r has ins outs
                 (map (\<lambda>h. if h then Some (replicate (unat ERASURE_CODING_SMALL_BLOCK_SIZE) 0) else None) has)
                 0 0 s)"

definition generate_missing_ec_files ::
    "nat \<Rightarrow> 'r reed_solomon \<Rightarrow> u64 \<Rightarrow> string \<Rightarrow> fs \<Rightarrow> (u32 list \<times> fs, ec_shard_error \<times> fs) result option" where
  "generate_missing_ec_files fuel rs now base_filename s =
     (case open_or_create_shards s now base_filename [0..<total_shards] of
        Err e \<Rightarrow> Some (Err e)
      | Panic \<Rightarrow> Some Panic
      | Ok (has, ins, outs, shards, s) \<Rightarrow>
          map_option (\<lambda>res. rbind res (\<lambda>s. Ok (shards, s)))
            (rebuild_ec_files_inner fuel rs has ins outs s))"


subsection \<open>The layout of the shard files\<close>

text \<open>The data file continued with zeros, a segment of it, and what \<open>r\<close> rows give to shard \<open>i\<close>.\<close>

definition padded :: "bytes \<Rightarrow> nat \<Rightarrow> u8" where
  "padded d p = (if p < length d then d ! p else 0)"

definition seg :: "bytes \<Rightarrow> nat \<Rightarrow> nat \<Rightarrow> bytes" where
  "seg d off n = map (padded d) [off..<off + n]"

fun rows_seg :: "bytes \<Rightarrow> nat \<Rightarrow> nat \<Rightarrow> nat \<Rightarrow> nat \<Rightarrow> bytes" where
  "rows_seg d p block i 0 = []"
| "rows_seg d p block i (Suc r) = seg d (p + block * i) block @ rows_seg d (p + 10 * block) block i r"

definition shard_content :: "bytes \<Rightarrow> nat \<Rightarrow> nat \<Rightarrow> nat \<Rightarrow> nat \<Rightarrow> nat \<Rightarrow> bytes" where
  "shard_content d large small rows small_rows i =
     rows_seg d 0 large i rows @ rows_seg d (rows * (10 * large)) small i small_rows"

lemma length_seg [simp]: "length (seg d off n) = n"
  by (simp add: seg_def)

lemma seg_append: "seg d a m @ seg d (a + m) n = seg d a (m + n)"
  using upt_add_eq_append [of a "a + m" n] by (simp add: seg_def add.assoc flip: map_append)

lemma seg_0 [simp]: "seg d a 0 = []"
  by (simp add: seg_def)

lemma length_rows_seg [simp]: "length (rows_seg d p block i r) = r * block"
  by (induction r arbitrary: p) simp_all

lemma fill_buf_seg: "fill_buf d buf off = seg d (unat off) (length buf)"
  by (rule nth_equalityI)
    (auto simp: fill_buf_def read_at_def seg_def padded_def nth_append Let_def)

subsection \<open>What encoding writes\<close>

definition rs_law :: "'r reed_solomon \<Rightarrow> 'r \<Rightarrow> bool" where
  "rs_law rs r \<longleftrightarrow> (\<forall>bufs n. length bufs = 14 \<and> 0 < n \<and> (\<forall>b \<in> set bufs. length b = n) \<longrightarrow>
     (\<exists>ps. rs_encode rs r bufs = Ok (take 10 bufs @ ps) \<and> length ps = 4 \<and> (\<forall>b \<in> set ps. length b = n)))"

text \<open>
  The state between two batches: the data file holds \<open>d\<close>, the data shard \<open>i\<close> holds \<open>f i\<close>, all
  fourteen shard files have length \<open>len\<close>, and the buffers have length \<open>n\<close>.
\<close>

definition enc_inv ::
    "ino \<Rightarrow> ino list \<Rightarrow> bytes \<Rightarrow> nat \<Rightarrow> (nat \<Rightarrow> bytes) \<Rightarrow> nat \<Rightarrow> bytes list \<Rightarrow> fs \<Rightarrow> bool" where
  "enc_inv df outs d n f len bufs s \<longleftrightarrow>
     fs_faults s = [] \<and> fs_data s df = d \<and> length outs = 14 \<and> distinct outs \<and> df \<notin> set outs \<and>
     (\<forall>i < 10. fs_data s (outs ! i) = f i) \<and> (\<forall>out \<in> set outs. length (fs_data s out) = len) \<and>
     length bufs = 14 \<and> (\<forall>b \<in> set bufs. length b = n)"

definition names_kept :: "fs \<Rightarrow> fs \<Rightarrow> bool" where
  "names_kept s s' \<longleftrightarrow>
     fs_names s' = fs_names s \<and> fs_readonly s' = fs_readonly s \<and> fs_next s' = fs_next s"

lemma shard_counts [simp]:
  "unat DATA_SHARDS_COUNT = 10" "unat TOTAL_SHARDS_COUNT = 14" "unat PARITY_SHARDS_COUNT = 4"
  by (simp_all add: DATA_SHARDS_COUNT_def TOTAL_SHARDS_COUNT_def PARITY_SHARDS_COUNT_def)

lemma write_bufs_Ok:
  assumes "fs_faults s = []" and "distinct outs" and "length bufs = length outs"
    and "\<forall>out \<in> set outs. length (fs_data s out) < 2 ^ 64"
  shows "\<exists>s'. write_bufs s outs bufs = Ok s' \<and> fs_faults s' = [] \<and> names_kept s s' \<and>
    (\<forall>x. x \<notin> set outs \<longrightarrow> fs_data s' x = fs_data s x) \<and>
    (\<forall>i < length outs. fs_data s' (outs ! i) = fs_data s (outs ! i) @ bufs ! i)"
  using assms
proof (induction outs arbitrary: s bufs)
  case (Cons out outs)
  obtain buf bufs' where bufs: "bufs = buf # bufs'"
    using Cons.prems(3) by (cases bufs) auto
  let ?s = "fs_set s out (fs_data s out @ buf)"
  have w: "write_all s out buf = Ok ?s"
    using Cons.prems by (intro write_all_no_faults) auto
  have "\<forall>x \<in> set outs. length (fs_data ?s x) < 2 ^ 64"
    using Cons.prems(2,4) by auto
  then obtain s' where s': "write_bufs ?s outs bufs' = Ok s'" "fs_faults s' = []" "names_kept ?s s'"
      "\<forall>x. x \<notin> set outs \<longrightarrow> fs_data s' x = fs_data ?s x"
      "\<forall>i < length outs. fs_data s' (outs ! i) = fs_data ?s (outs ! i) @ bufs' ! i"
    using Cons.IH [of ?s bufs'] Cons.prems(1-3) bufs by fastforce
  have "fs_data s' ((out # outs) ! i) = fs_data s ((out # outs) ! i) @ bufs ! i"
    if "i < length (out # outs)" for i
    using that s'(4,5) Cons.prems(2) bufs by (cases i) auto
  then show ?case
    using s' w bufs Cons.prems(2) by (auto simp: names_kept_def)
qed (auto simp: names_kept_def)


lemma encode_data_one_batch_Ok:
  assumes inv: "enc_inv df outs d n f len bufs s" and "rs_law rs r" and "0 < n"
    and "unat start = st" and "unat block = b" and "st + b * 9 < 2 ^ 64" and "len < 2 ^ 64"
  shows "\<exists>bufs' s'. encode_data_one_batch rs r df start block outs bufs s = Ok (bufs', s') \<and>
    names_kept s s' \<and> enc_inv df outs d n (\<lambda>i. f i @ seg d (st + b * i) n) (len + n) bufs' s'"
proof -
  define filled where "filled = map (\<lambda>(i, buf). if i < unat DATA_SHARDS_COUNT
    then fill_buf (fs_data s df) buf (start + block * of_nat i) else buf) (enumerate 0 bufs)"
  have len: "length filled = 14" "\<forall>x \<in> set filled. length x = n"
    using inv by (auto simp: filled_def enc_inv_def enumerate_eq_zip fill_buf_seg dest: set_zip_rightD)
  have at: "unat (start + block * of_nat i) = st + b * i" if "i < 10" for i
  proof -
    have "st + b * i \<le> st + b * 9"
      using that by simp
    then have "st + b * i < 2 ^ 64"
      using assms(6) by (rule le_less_trans)
    moreover have "start + block * of_nat i = of_nat (st + b * i)"
      by (simp flip: assms(4,5))
    ultimately show ?thesis
      by (intro unat_eq_of_natI) simp_all
  qed
  have data: "filled ! i = seg d (st + b * i) n" if "i < 10" for i
    using that inv at [OF that] by (simp add: filled_def enc_inv_def nth_enumerate_eq fill_buf_seg)
  obtain ps where ps: "rs_encode rs r filled = Ok (take 10 filled @ ps)" "length ps = 4"
      "\<forall>x \<in> set ps. length x = n"
    using assms(2,3) len unfolding rs_law_def by blast
  let ?bufs = "take 10 filled @ ps"
  have out: "length ?bufs = 14" "\<forall>x \<in> set ?bufs. length x = n" "\<forall>i < 10. ?bufs ! i = seg d (st + b * i) n"
    using ps len data by (auto simp: nth_append dest: in_set_takeD)
  obtain s' where s': "write_bufs s outs ?bufs = Ok s'" "fs_faults s' = []" "names_kept s s'"
      "\<forall>x. x \<notin> set outs \<longrightarrow> fs_data s' x = fs_data s x"
      "\<forall>i < length outs. fs_data s' (outs ! i) = fs_data s (outs ! i) @ ?bufs ! i"
    using write_bufs_Ok [of s outs ?bufs] inv out(1) assms(7) unfolding enc_inv_def by auto
  have "length (fs_data s' (outs ! i)) = len + n" if "i < length outs" for i
  proof -
    have "length (?bufs ! i) = n"
      using that inv out(1,2) unfolding enc_inv_def by (metis nth_mem)
    moreover have "length (fs_data s (outs ! i)) = len"
      using that inv by (simp add: enc_inv_def)
    ultimately show ?thesis
      using s'(5) that by simp
  qed
  then have "\<forall>x \<in> set outs. length (fs_data s' x) = len + n"
    by (metis in_set_conv_nth)
  then have "enc_inv df outs d n (\<lambda>i. f i @ seg d (st + b * i) n) (len + n) ?bufs s'"
    using inv s' out unfolding enc_inv_def by simp
  moreover have "encode_data_one_batch rs r df start block outs bufs s = Ok (?bufs, s')"
    using inv ps(1) s'(1) by (simp add: encode_data_one_batch_def enc_inv_def Let_def filled_def)
  ultimately show ?thesis
    using s'(3) by blast
qed


lemma encode_batches_Ok:
  assumes "enc_inv df outs d n (\<lambda>i. f i @ seg d (st + b * i) (j * n)) (len + j * n) bufs s"
    and "rs_law rs r" and "0 < n" and "unat start = st" and "unat block = b" and "unat buf_size = n"
    and "st + b * 10 < 2 ^ 64" and "len + b < 2 ^ 64" and "j \<le> k" and "k * n = b"
  shows "\<exists>bufs' s'. encode_batches rs r df start block buf_size outs [j..<k] bufs s = Ok (bufs', s') \<and>
    names_kept s s' \<and> enc_inv df outs d n (\<lambda>i. f i @ seg d (st + b * i) b) (len + b) bufs' s'"
  using assms(9,1)
proof (induction "k - j" arbitrary: j bufs s)
  case 0
  then show ?case
    using assms(10) by (simp add: names_kept_def)
next
  case (Suc x)
  then have "Suc j \<le> k" and split: "[j..<k] = j # [Suc j..<k]"
    by (simp_all add: upt_conv_Cons)
  then have jn: "Suc j * n \<le> b"
    using assms(10) mult_le_mono1 by blast
  then have "st + j * n < 2 ^ 64" and off: "st + j * n + b * 9 < 2 ^ 64" and lb: "len + j * n < 2 ^ 64"
    using assms(7,8) by auto
  then have at: "unat (start + of_nat j * buf_size) = st + j * n"
    by (intro unat_eq_of_natI) (simp_all flip: assms(4,6))
  obtain bufs1 s1 where one: "encode_data_one_batch rs r df (start + of_nat j * buf_size) block outs bufs s
        = Ok (bufs1, s1)" "names_kept s s1"
      "enc_inv df outs d n (\<lambda>i. (f i @ seg d (st + b * i) (j * n)) @ seg d (st + j * n + b * i) n)
        (len + j * n + n) bufs1 s1"
    using encode_data_one_batch_Ok [OF Suc.prems(2) assms(2,3) at assms(5) off lb] by blast
  have "seg d (st + b * i) (j * n) @ seg d (st + j * n + b * i) n = seg d (st + b * i) (Suc j * n)" for i
    using seg_append [of d "st + b * i" "j * n" n] by (simp add: algebra_simps)
  then have "enc_inv df outs d n (\<lambda>i. f i @ seg d (st + b * i) (Suc j * n)) (len + Suc j * n) bufs1 s1"
    using one(3) by (simp add: algebra_simps)
  moreover have "x = k - Suc j"
    using Suc.hyps(2) by simp
  ultimately obtain bufs' s' where
      "encode_batches rs r df start block buf_size outs [Suc j..<k] bufs1 s1 = Ok (bufs', s')"
      "names_kept s1 s'" "enc_inv df outs d n (\<lambda>i. f i @ seg d (st + b * i) b) (len + b) bufs' s'"
    using Suc.hyps(1) [of "Suc j" bufs1 s1] \<open>Suc j \<le> k\<close> by blast
  then show ?case
    using one(1,2) by (auto simp: split names_kept_def)
qed

lemma encode_data_Ok:
  assumes "enc_inv df outs d n f len bufs s"
    and "rs_law rs r" and "0 < n" and "n < 2 ^ 64" and "unat start = st" and "unat block = b"
    and "st + b * 10 < 2 ^ 64" and "len + b < 2 ^ 64" and "n dvd b"
  shows "\<exists>bufs' s'. encode_data rs r df start block outs bufs s = Ok (bufs', s') \<and>
    names_kept s s' \<and> enc_inv df outs d n (\<lambda>i. f i @ seg d (st + b * i) b) (len + b) bufs' s'"
proof -
  obtain buf rest where bufs: "bufs = buf # rest" "length buf = n"
    using assms(1) by (cases bufs) (auto simp: enc_inv_def)
  have n: "unat (of_nat n :: u64) = n"
    using assms(4) by (intro unat_eq_of_natI) simp_all
  then have "unat (block mod of_nat n) = 0"
    using assms(6,9) by (simp add: unat_mod_distrib mod_eq_0_iff_dvd)
  then have m: "block mod of_nat n = 0" "(of_nat n :: u64) \<noteq> 0"
    using n assms(3) by (auto simp: unat_eq_0)
  have "encode_data rs r df start block outs bufs s =
      encode_batches rs r df start block (of_nat n) outs [0..<b div n] bufs s"
    using bufs m n assms(6) by (simp add: encode_data_def Let_def unat_div_distrib)
  then show ?thesis
    using encode_batches_Ok [where j = 0 and k = "b div n" and f = f and len = len,
        OF _ assms(2,3,5,6) n assms(7,8)] assms(1,9) by simp
qed


lemma sint_sub_small:
  assumes "- (2 ^ 63) \<le> sint a - sint b" and "sint a - sint b < 2 ^ 63"
  shows "sint (a - b :: u64) = sint a - sint b"
  using assms signed_take_bit_int_eq_self [of 63 "sint a - sint b"]
  by (simp add: sint_word_ariths)

lemma sint_of_unat:
  assumes "unat (x :: u64) < 2 ^ 63"
  shows "sint x = int (unat x)"
proof -
  have "uint x < 2 ^ 63"
    using iffD2 [OF of_nat_less_iff [where 'a = int] assms] by simp
  moreover have "- (2 ^ 63) \<le> uint x"
    by (rule order_trans [of _ 0]) simp_all
  ultimately show ?thesis
    using signed_take_bit_int_eq_self [of 63 "uint x"] by (simp add: sint_uint)
qed

lemma unat_row:
  assumes "unat (block :: u64) = b" and "10 * b < 2 ^ 61"
  shows "unat (block * data_shards) = 10 * b" and "sint (block * data_shards) = int (10 * b)"
proof -
  have d: "data_shards = of_nat 10"
    by (simp add: DATA_SHARDS_COUNT_def)
  show u: "unat (block * data_shards) = 10 * b"
    using assms by (intro unat_eq_of_natI) (auto simp: d simp flip: assms(1))
  show "sint (block * data_shards) = int (10 * b)"
    using sint_of_unat [of "block * data_shards"] u assms(2) by (simp del: of_nat_unat)
qed

lemma encode_rows_Ok:
  assumes "enc_inv df outs d n f len bufs s" and law: "rs_law rs r" "0 < n" "n < 2 ^ 64" "n dvd b"
    and blk: "unat block = b" "10 * b < 2 ^ 61" and "sint bound \<ge> 0"
    and "unat processed = p" and "10 * len = p" and "sint remaining = R" and "int p + R < 2 ^ 61"
    and "\<forall>k < rows. R - int (k * (10 * b)) > sint bound" and "R - int (rows * (10 * b)) \<le> sint bound"
    and "rows < fuel" and "- (2 ^ 61) < R"
  shows "\<exists>remaining' processed' bufs' s'.
    encode_rows fuel rs r df bound block outs remaining processed bufs s
      = Some (Ok (remaining', processed', bufs', s')) \<and>
    sint remaining' = R - int (rows * (10 * b)) \<and> unat processed' = p + rows * (10 * b) \<and>
    names_kept s s' \<and> enc_inv df outs d n (\<lambda>i. f i @ rows_seg d p b i rows) (len + rows * b) bufs' s'"
  using assms(1,9-16)
proof (induction rows arbitrary: f len bufs s processed p remaining R fuel)
  case 0
  then show ?case
    by (cases fuel) (auto simp: names_kept_def)
next
  case (Suc rows)
  obtain k where fuel: "fuel = Suc k"
    using Suc.prems(8) by (cases fuel) auto
  have R: "R > sint bound" "R > 0"
    using Suc.prems(6) assms(8) by force+
  have "int p < int (2 ^ 61)"
    using Suc.prems(5) R(2) by simp
  then have bounds: "p + b * 10 < 2 ^ 62"
    using blk(2) by simp
  then have small: "p + b * 10 < 2 ^ 64" "len + b < 2 ^ 64"
    using Suc.prems(3) by simp_all
  obtain bufs1 s1 where one: "encode_data rs r df processed block outs bufs s = Ok (bufs1, s1)" "names_kept s s1"
      "enc_inv df outs d n (\<lambda>i. f i @ seg d (p + b * i) b) (len + b) bufs1 s1"
    using encode_data_Ok [OF Suc.prems(1) law(1-3) Suc.prems(2) blk(1) small law(4)] by blast
  have "int (10 * b) < 2 ^ 61"
    using iffD2 [OF of_nat_less_iff [where 'a = int] blk(2)] by simp
  then have R1: "sint (remaining - block * data_shards) = R - int (10 * b)"
    using R(2) Suc.prems(4,5) unat_row(2) [OF blk] sint_sub_small [of remaining "block * data_shards"]
    by simp
  have p1: "unat (processed + block * data_shards) = p + 10 * b"
    using iffD1 [OF unat_add_lem, of processed "block * data_shards"] small(1) Suc.prems(2)
      unat_row(1) [OF blk] by simp
  have lt: "\<forall>k < rows. R - int (10 * b) - int (k * (10 * b)) > sint bound"
  proof (intro allI impI)
    fix k
    assume "k < rows"
    then have "R - int (Suc k * (10 * b)) > sint bound"
      using Suc.prems(6) by blast
    then show "R - int (10 * b) - int (k * (10 * b)) > sint bound"
      by simp
  qed
  have rest: "10 * (len + b) = p + 10 * b" "int (p + 10 * b) + (R - int (10 * b)) < 2 ^ 61"
      "R - int (10 * b) - int (rows * (10 * b)) \<le> sint bound" "rows < k" "- (2 ^ 61) < R - int (10 * b)"
    using Suc.prems(3,5,7,8) fuel R(2) \<open>int (10 * b) < 2 ^ 61\<close> by simp_all
  obtain remaining' processed' bufs' s' where
      run: "encode_rows k rs r df bound block outs (remaining - block * data_shards)
        (processed + block * data_shards) bufs1 s1 = Some (Ok (remaining', processed', bufs', s'))"
      "sint remaining' = R - int (10 * b) - int (rows * (10 * b))"
      "unat processed' = p + 10 * b + rows * (10 * b)" "names_kept s1 s'"
      "enc_inv df outs d n (\<lambda>i. (f i @ seg d (p + b * i) b) @ rows_seg d (p + 10 * b) b i rows)
        (len + b + rows * b) bufs' s'"
    using Suc.IH [OF one(3) p1 rest(1) R1 rest(2) lt rest(3-5)] by blast
  have "encode_rows fuel rs r df bound block outs remaining processed bufs s
      = Some (Ok (remaining', processed', bufs', s'))"
    using one(1) R(1) Suc.prems(4) fuel run(1) by simp
  moreover have "names_kept s s'"
    using one(2) run(4) by (simp add: names_kept_def)
  moreover have "enc_inv df outs d n (\<lambda>i. f i @ rows_seg d p b i (Suc rows)) (len + Suc rows * b) bufs' s'"
    using run(5) by (simp add: add.assoc)
  ultimately show ?case
    using run(2,3) by (intro exI conjI) (assumption | simp)+
qed


subsection \<open>Opening the shard files\<close>

lemma open_create_truncate_Ok:
  assumes "fs_wf s" and "\<forall>x. fs_names s p = Some x \<longrightarrow> \<not> fs_readonly s x"
  shows "\<exists>s' x. open_create_truncate s p now = Ok (s', x) \<and> fs_wf s' \<and>
    fs_names s' = (fs_names s)(p \<mapsto> x) \<and> fs_data s' x = [] \<and> fs_faults s' = fs_faults s \<and>
    \<not> fs_readonly s' x \<and>
    (\<forall>q y. q \<noteq> p \<longrightarrow> fs_names s q = Some y \<longrightarrow>
       y \<noteq> x \<and> fs_data s' y = fs_data s y \<and> fs_readonly s' y = fs_readonly s y)"
proof (cases "fs_names s p")
  case None
  have "y \<noteq> fs_next s" if "fs_names s q = Some y" for q y
    using assms(1) that unfolding fs_wf_def by blast
  then show ?thesis
    using None fs_alloc_wf [OF assms(1) None, of now]
    by (auto simp: open_create_truncate_def fs_alloc_def Let_def)
next
  case (Some x)
  then have "(fs_names s)(p \<mapsto> x) = fs_names s"
    by auto
  moreover have "y \<noteq> x" if "q \<noteq> p" "fs_names s q = Some y" for q y
    using assms(1) that Some unfolding fs_wf_def by blast
  moreover have "fs_wf (fs_set s x [])"
    using assms(1) by (simp add: fs_wf_def)
  ultimately show ?thesis
    using Some assms(2) by (auto simp: open_create_truncate_def)
qed

definition shard_names :: "string \<Rightarrow> string list" where
  "shard_names base = map (\<lambda>i. base @ to_ext (of_nat i)) [0..<total_shards]"

lemma distinct_shard_names: "distinct (shard_names base)"
proof -
  have "distinct (map (\<lambda>i. to_ext (of_nat i)) [0..<14])"
    by code_simp
  then have "distinct (map ((@) base) (map (\<lambda>i. to_ext (of_nat i)) [0..<14]))"
    by (simp add: distinct_map inj_on_def)
  then show ?thesis
    by (simp add: shard_names_def comp_def)
qed

lemma dat_not_shard_name: "base @ ''.dat'' \<notin> set (shard_names base)"
proof -
  have "''.dat'' \<notin> set (map (\<lambda>i. to_ext (of_nat i)) [0..<14])"
    by code_simp
  then show ?thesis
    by (auto simp: shard_names_def)
qed

lemma open_ec_files_from_Ok:
  assumes "fs_wf s" and "\<forall>p \<in> set (map (\<lambda>i. base @ to_ext (of_nat i)) is). \<forall>x. fs_names s p = Some x \<longrightarrow> \<not> fs_readonly s x"
    and "distinct (map (\<lambda>i. base @ to_ext (of_nat i)) is)"
  shows "\<exists>outs s'. open_ec_files_from s now base False is files = Ok (files @ outs, s') \<and> fs_wf s' \<and>
    map (fs_names s') (map (\<lambda>i. base @ to_ext (of_nat i)) is) = map Some outs \<and>
    (\<forall>x \<in> set outs. fs_data s' x = []) \<and> fs_faults s' = fs_faults s \<and>
    (\<forall>q. q \<notin> set (map (\<lambda>i. base @ to_ext (of_nat i)) is) \<longrightarrow> fs_names s' q = fs_names s q \<and>
      (\<forall>y. fs_names s q = Some y \<longrightarrow> fs_data s' y = fs_data s y \<and> fs_readonly s' y = fs_readonly s y))"
  using assms
proof (induction "is" arbitrary: s files)
  case (Cons i "is")
  let ?p = "base @ to_ext (of_nat i)"
  let ?ps = "map (\<lambda>i. base @ to_ext (of_nat i)) is"
  obtain s1 x where one: "open_create_truncate s ?p now = Ok (s1, x)" "fs_wf s1"
      "fs_names s1 = (fs_names s)(?p \<mapsto> x)" "fs_data s1 x = []" "fs_faults s1 = fs_faults s"
      "\<forall>q y. q \<noteq> ?p \<longrightarrow> fs_names s q = Some y \<longrightarrow>
         y \<noteq> x \<and> fs_data s1 y = fs_data s y \<and> fs_readonly s1 y = fs_readonly s y"
    using open_create_truncate_Ok [of s ?p now] Cons.prems(1,2) by auto
  have fresh: "?p \<notin> set ?ps" "distinct ?ps"
    using Cons.prems(3) by auto
  have "\<not> fs_readonly s1 y" if "p \<in> set ?ps" "fs_names s1 p = Some y" for p y
  proof -
    have "p \<noteq> ?p"
      using that(1) fresh(1) by blast
    then have "fs_names s p = Some y"
      using that(2) one(3) by simp
    moreover have "p \<in> set (map (\<lambda>i. base @ to_ext (of_nat i)) (i # is))"
      using that(1) by simp
    ultimately show ?thesis
      using Cons.prems(2) one(6) \<open>p \<noteq> ?p\<close> by blast
  qed
  then obtain outs s' where two: "open_ec_files_from s1 now base False is (files @ [x]) = Ok ((files @ [x]) @ outs, s')"
      "fs_wf s'" "map (fs_names s') ?ps = map Some outs" "\<forall>x \<in> set outs. fs_data s' x = []"
      "fs_faults s' = fs_faults s1"
      "\<forall>q. q \<notin> set ?ps \<longrightarrow> fs_names s' q = fs_names s1 q \<and>
        (\<forall>y. fs_names s1 q = Some y \<longrightarrow> fs_data s' y = fs_data s1 y \<and> fs_readonly s' y = fs_readonly s1 y)"
    using Cons.IH [OF one(2) _ fresh(2), of "files @ [x]"] by blast
  have "fs_names s' q = fs_names s q \<and> (\<forall>y. fs_names s q = Some y \<longrightarrow>
      fs_data s' y = fs_data s y \<and> fs_readonly s' y = fs_readonly s y)"
    if "q \<notin> set (map (\<lambda>i. base @ to_ext (of_nat i)) (i # is))" for q
    using that two(6) one(3,6) by auto
  then show ?case
    using one two fresh(1)
    by (intro exI [of _ "x # outs"] exI [of _ s']) (auto simp: Let_def)
qed simp


subsection \<open>Encoding a volume\<close>

text \<open>The rows the two loops of the encoder run through for \<open>n\<close> bytes.\<close>

definition encoder_large_rows :: "nat \<Rightarrow> nat \<Rightarrow> nat" where
  "encoder_large_rows large n = (n - 1) div (10 * large)"

definition encoder_small_rows :: "nat \<Rightarrow> nat \<Rightarrow> nat" where
  "encoder_small_rows small n = (n + 10 * small - 1) div (10 * small)"

lemma div_pred_bounds:
  fixes n w :: nat
  assumes "0 < w"
  shows "k < (n - 1) div w \<Longrightarrow> w < n - k * w" and "n - (n - 1) div w * w \<le> w" and "(n - 1) div w * w \<le> n"
proof -
  have le: "(n - 1) div w * w \<le> n - 1" and gt: "n - 1 < w + (n - 1) div w * w"
    using dividend_less_div_times [OF assms, of "n - 1"] by simp_all
  show "w < n - k * w" if "k < (n - 1) div w"
  proof -
    have "(k + 1) * w \<le> (n - 1) div w * w"
      using that by (intro mult_le_mono1) simp
    then have "(k + 1) * w \<le> n - 1"
      using le by (rule le_trans)
    then have "k * w + w \<le> n - 1"
      by simp
    then show ?thesis
      using assms by linarith
  qed
  show "n - (n - 1) div w * w \<le> w" and "(n - 1) div w * w \<le> n"
    using le gt by linarith+
qed

lemma div_ceil_bounds:
  fixes n w :: nat
  assumes "0 < w"
  shows "k < (n + w - 1) div w \<Longrightarrow> k * w < n" and "n \<le> (n + w - 1) div w * w"
proof -
  have le: "(n + w - 1) div w * w \<le> n + w - 1" and gt: "n + w - 1 < w + (n + w - 1) div w * w"
    using dividend_less_div_times [OF assms, of "n + w - 1"] by simp_all
  show "k * w < n" if "k < (n + w - 1) div w"
  proof -
    have "(k + 1) * w \<le> (n + w - 1) div w * w"
      using that by (intro mult_le_mono1) simp
    then have "(k + 1) * w \<le> n + w - 1"
      using le by (rule le_trans)
    then have "k * w + w \<le> n + w - 1"
      by simp
    then show ?thesis
      using assms by linarith
  qed
  show "n \<le> (n + w - 1) div w * w"
    using gt assms by linarith
qed

lemma encoder_large_rows_bounds:
  assumes "0 < large"
  shows "k < encoder_large_rows large n \<Longrightarrow> 10 * large < n - k * (10 * large)"
    and "n - encoder_large_rows large n * (10 * large) \<le> 10 * large"
    and "encoder_large_rows large n * (10 * large) \<le> n" and "encoder_large_rows large n \<le> n"
  using div_pred_bounds [of "10 * large"] assms
    le_trans [OF div_le_dividend [of "n - 1" "10 * large"] diff_le_self]
  by (simp_all add: encoder_large_rows_def)

lemma encoder_small_rows_bounds:
  assumes "0 < small"
  shows "k < encoder_small_rows small n \<Longrightarrow> k * (10 * small) < n"
    and "n \<le> encoder_small_rows small n * (10 * small)" and "encoder_small_rows small n \<le> n"
proof -
  show lt: "k * (10 * small) < n" if "k < encoder_small_rows small n" for k
    using div_ceil_bounds(1) [of "10 * small"] assms that by (simp add: encoder_small_rows_def)
  show "n \<le> encoder_small_rows small n * (10 * small)"
    using div_ceil_bounds(2) [of "10 * small"] assms by (simp add: encoder_small_rows_def)
  show "encoder_small_rows small n \<le> n"
    using lt [of n] assms by (cases "n < encoder_small_rows small n") auto
qed


definition encoded_shard :: "bytes \<Rightarrow> nat \<Rightarrow> nat \<Rightarrow> nat \<Rightarrow> bytes" where
  "encoded_shard d large small i =
     (let rows = encoder_large_rows large (length d)
      in shard_content d large small rows
           (encoder_small_rows small (length d - rows * (10 * large))) i)"

lemma encode_both_loops:
  assumes inv: "enc_inv df outs d n (\<lambda>_. []) 0 bufs s" and law: "rs_law rs r" "0 < n" "n < 2 ^ 64"
    and lg: "unat lg = large" "10 * large < 2 ^ 61" "n dvd large" "0 < large"
    and sm: "unat sm = small" "10 * small < 2 ^ 61" "n dvd small" "0 < small"
    and "unat remaining = length d" and "length d < 2 ^ 60" and "length d < fuel"
  shows "\<exists>rem1 p1 bufs1 s1 rem2 p2 bufs2 s2 len.
    encode_rows fuel rs r df (lg * data_shards) lg outs remaining 0 bufs s = Some (Ok (rem1, p1, bufs1, s1)) \<and>
    encode_rows fuel rs r df 0 sm outs rem1 p1 bufs1 s1 = Some (Ok (rem2, p2, bufs2, s2)) \<and>
    names_kept s s2 \<and> enc_inv df outs d n (encoded_shard d large small) len bufs2 s2"
proof -
  let ?D = "length d"
  define R where "R = encoder_large_rows large ?D"
  define r2 where "r2 = encoder_small_rows small (?D - R * (10 * large))"
  have D: "int ?D < 2 ^ 60"
    using iffD2 [OF of_nat_less_iff [where 'a = int] assms(14)] by simp
  have rem: "sint remaining = int ?D"
    using sint_of_unat [of remaining] assms(13,14) by (simp del: of_nat_unat)
  have bound: "sint (lg * data_shards) = int (10 * large)"
    by (rule unat_row(2) [OF lg(1,2)])
  have Rle: "R * (10 * large) \<le> ?D" "R \<le> ?D"
    using encoder_large_rows_bounds(3,4) [OF lg(4)] by (simp_all add: R_def)
  have gt: "\<forall>k < R. int ?D - int (k * (10 * large)) > sint (lg * data_shards)"
  proof (intro allI impI)
    fix k
    assume "k < R"
    then have "10 * large < ?D - k * (10 * large)"
      using encoder_large_rows_bounds(1) [OF lg(4)] by (simp add: R_def)
    then show "int ?D - int (k * (10 * large)) > sint (lg * data_shards)"
      unfolding bound by linarith
  qed
  have le: "int ?D - int (R * (10 * large)) \<le> sint (lg * data_shards)"
    using encoder_large_rows_bounds(2) [OF lg(4), of ?D] Rle unfolding bound R_def [symmetric] by linarith
  obtain rem1 p1 bufs1 s1 where
      one: "encode_rows fuel rs r df (lg * data_shards) lg outs remaining 0 bufs s = Some (Ok (rem1, p1, bufs1, s1))"
      "sint rem1 = int ?D - int (R * (10 * large))" "unat p1 = R * (10 * large)" "names_kept s s1"
      "enc_inv df outs d n (\<lambda>i. [] @ rows_seg d 0 large i R) (R * large) bufs1 s1"
    using encode_rows_Ok [OF inv law lg(3,1,2), of "lg * data_shards" 0 0 remaining "int ?D" R fuel]
      bound rem gt le D Rle(2) assms(15) by auto
  have gt2: "\<forall>k < r2. int ?D - int (R * (10 * large)) - int (k * (10 * small)) > sint (0 :: u64)"
  proof (intro allI impI)
    fix k
    assume "k < r2"
    then have "k * (10 * small) < ?D - R * (10 * large)"
      using encoder_small_rows_bounds(1) [OF sm(4)] by (simp add: r2_def)
    then show "int ?D - int (R * (10 * large)) - int (k * (10 * small)) > sint (0 :: u64)"
      unfolding signed_0 by linarith
  qed
  have le2: "int ?D - int (R * (10 * large)) - int (r2 * (10 * small)) \<le> sint (0 :: u64)"
    using encoder_small_rows_bounds(2) [OF sm(4), of "?D - R * (10 * large)"] Rle(1)
    unfolding r2_def [symmetric] signed_0 by linarith
  have "0 \<le> int ?D - int (R * (10 * large))"
    using Rle(1) by linarith
  then have neg: "- (2 ^ 61) < int ?D - int (R * (10 * large))"
    by (rule less_le_trans [rotated]) simp
  have r2: "r2 \<le> ?D"
    using encoder_small_rows_bounds(3) [OF sm(4), of "?D - R * (10 * large)"] unfolding r2_def by linarith
  obtain rem2 p2 bufs2 s2 where
      two: "encode_rows fuel rs r df 0 sm outs rem1 p1 bufs1 s1 = Some (Ok (rem2, p2, bufs2, s2))"
      "names_kept s1 s2"
      "enc_inv df outs d n (\<lambda>i. ([] @ rows_seg d 0 large i R) @ rows_seg d (R * (10 * large)) small i r2)
        (R * large + r2 * small) bufs2 s2"
    using encode_rows_Ok [OF one(5) law sm(3,1,2), of 0 p1 "R * (10 * large)" rem1
        "int ?D - int (R * (10 * large))" r2 fuel] one(2,3) gt2 le2 r2 D neg Rle(1) assms(15) by auto
  have "encoded_shard d large small = (\<lambda>i. ([] @ rows_seg d 0 large i R) @ rows_seg d (R * (10 * large)) small i r2)"
    by (simp add: fun_eq_iff encoded_shard_def shard_content_def R_def r2_def Let_def)
  then show ?thesis
    using one(1,4) two unfolding names_kept_def by auto
qed


lemma fs_wf_distinct:
  assumes "fs_wf s" and "map (fs_names s) ps = map Some xs" and "distinct ps"
  shows "distinct xs" and "fs_names s q = Some y \<Longrightarrow> q \<notin> set ps \<Longrightarrow> y \<notin> set xs"
proof -
  have len: "length xs = length ps"
    using arg_cong [OF assms(2), of length] by simp
  have at: "fs_names s (ps ! i) = Some (xs ! i)" if "i < length ps" for i
    using arg_cong [OF assms(2), of "\<lambda>l. l ! i"] that len by simp
  have inj: "p = q" if "fs_names s p = Some x" "fs_names s q = Some x" for p q x
    using assms(1) that unfolding fs_wf_def by blast
  show "distinct xs"
    using assms(3) at inj len unfolding distinct_conv_nth by metis
  show "y \<notin> set xs" if "fs_names s q = Some y" "q \<notin> set ps"
    using at inj len that by (metis in_set_conv_nth)
qed

lemma generate_ec_files_Ok:
  assumes "fs_wf s" and dat: "fs_names s (base @ ''.dat'') = Some df" "fs_data s df = d" and "fs_faults s = []"
    and "\<forall>p \<in> set (shard_names base). \<forall>x. fs_names s p = Some x \<longrightarrow> \<not> fs_readonly s x"
    and "rs_new rs 10 4 = Ok r" and law: "rs_law rs r" "0 < n" "n < 2 ^ 64"
    and lg: "unat lg = large" "10 * large < 2 ^ 61" "n dvd large" "0 < large"
    and sm: "unat sm = small" "10 * small < 2 ^ 61" "n dvd small" "0 < small"
    and "unat buf_size = n" and "length d < 2 ^ 60" and "length d < fuel"
  shows "\<exists>s' outs. generate_ec_files fuel rs now base buf_size lg sm s = Some (Ok s') \<and>
    map (fs_names s') (shard_names base) = map Some outs \<and>
    (\<forall>i < 10. fs_data s' (outs ! i) = encoded_shard d large small i) \<and>
    fs_names s' (base @ ''.dat'') = Some df \<and> fs_data s' df = d \<and> fs_faults s' = [] \<and> fs_wf s' \<and>
    fs_readonly s' df = fs_readonly s df"
proof -
  have ps: "map (\<lambda>i. base @ to_ext (of_nat i)) [0..<14] = shard_names base"
    by (simp add: shard_names_def)
  obtain outs s1 where o1: "open_ec_files s now base False = Ok (outs, s1)" "fs_wf s1"
      "map (fs_names s1) (shard_names base) = map Some outs" "\<forall>x \<in> set outs. fs_data s1 x = []" "fs_faults s1 = []"
      "\<forall>q. q \<notin> set (shard_names base) \<longrightarrow> fs_names s1 q = fs_names s q \<and>
        (\<forall>y. fs_names s q = Some y \<longrightarrow> fs_data s1 y = fs_data s y \<and> fs_readonly s1 y = fs_readonly s y)"
    using open_ec_files_from_Ok [of s base "[0..<14]" now "[]"] assms(1,4,5) distinct_shard_names [of base]
    unfolding ps open_ec_files_def by auto
  have keep: "fs_names s1 (base @ ''.dat'') = Some df" "fs_data s1 df = d" "fs_readonly s1 df = fs_readonly s df"
    using o1(6) dat dat_not_shard_name by auto
  have outs: "distinct outs" "df \<notin> set outs" "length outs = 14"
    using fs_wf_distinct [OF o1(2,3) distinct_shard_names] keep(1) dat_not_shard_name
      arg_cong [OF o1(3), of length] by (auto simp: shard_names_def)
  have start: "enc_inv df outs d n (\<lambda>_. []) 0 (replicate 14 (replicate n 0)) s1"
    using o1(4,5) keep outs by (simp add: enc_inv_def)
  have len: "unat (metadata_len d) = length d"
    using assms(19) by (simp add: metadata_len_def unat_of_nat)
  obtain rem1 p1 bufs1 s2 rem2 p2 bufs2 s' len where run:
      "encode_rows fuel rs r df (lg * data_shards) lg outs (metadata_len d) 0 (replicate 14 (replicate n 0)) s1
        = Some (Ok (rem1, p1, bufs1, s2))"
      "encode_rows fuel rs r df 0 sm outs rem1 p1 bufs1 s2 = Some (Ok (rem2, p2, bufs2, s'))"
      "names_kept s1 s'" "enc_inv df outs d n (encoded_shard d large small) len bufs2 s'"
    using encode_both_loops [OF start law lg sm len assms(19,20)] by (elim exE conjE) (rule that)
  have "generate_ec_files fuel rs now base buf_size lg sm s = Some (Ok s')"
    using dat assms(6,18) o1(1) run(1,2)
    by (simp add: generate_ec_files_def open_read_def metadata_def encode_data_file_def)
  moreover have "fs_wf s'"
    using o1(2) run(3) by (simp add: fs_wf_def names_kept_def)
  ultimately show ?thesis
    using run(3,4) o1(3) keep by (auto simp: names_kept_def enc_inv_def)
qed


subsection \<open>Every byte is where the layout puts it\<close>

lemma nth_rows_seg:
  assumes "k < r" and "j < block"
  shows "rows_seg d p block i r ! (k * block + j) = padded d (p + k * (10 * block) + block * i + j)"
  using assms
proof (induction r arbitrary: k p)
  case (Suc r)
  show ?case
  proof (cases k)
    case 0
    then show ?thesis
      using Suc.prems by (simp add: nth_append seg_def)
  next
    case (Suc k')
    then have "rows_seg d (p + 10 * block) block i r ! (k' * block + j) =
        padded d (p + 10 * block + k' * (10 * block) + block * i + j)"
      using Suc.IH Suc.prems by simp
    then show ?thesis
      using Suc by (simp add: nth_append algebra_simps)
  qed
qed simp

lemma row_split:
  fixes p b :: nat
  shows "p = p div b div 10 * (10 * b) + b * (p div b mod 10) + p mod b"
proof -
  have "p = p div b * b + p mod b" and "p div b = 10 * (p div b div 10) + p div b mod 10"
    by simp_all
  moreover have "(10 * x + y) * b + z = x * (10 * b) + b * y + z" for x y z
    by (simp add: algebra_simps)
  ultimately show ?thesis
    by metis
qed

lemma row_less:
  fixes p b :: nat
  assumes "p < r * (10 * b)"
  shows "p div b div 10 < r"
  using assms by (simp add: less_mult_imp_div_less mult.assoc mult.commute [of b] flip: div_mult2_eq)

lemma shard_content_at:
  assumes "0 < large" and "0 < small" and "p < rows * (10 * large) + small_rows * (10 * small)"
    and "block_addr rows large small p = (i, off)"
  shows "i < 10" and "off < length (shard_content d large small rows small_rows i)"
    and "shard_content d large small rows small_rows i ! off = padded d p"
proof -
  have "i < 10 \<and> off < length (shard_content d large small rows small_rows i) \<and>
    shard_content d large small rows small_rows i ! off = padded d p"
  proof (cases "p < rows * (10 * large)")
    case True
    let ?k = "p div large div 10"
    have io: "i = p div large mod 10" "off = ?k * large + p mod large"
      using assms(4) True by (simp_all add: block_addr_def)
    have k: "?k < rows" "p mod large < large"
      using row_less [OF True] assms(1) by simp_all
    then have "(?k + 1) * large \<le> rows * large"
      by (intro mult_le_mono1) simp
    then have "off < rows * large"
      using k(2) io(2) by simp
    moreover have "rows_seg d 0 large i rows ! off = padded d p"
      using nth_rows_seg [OF k, of d 0 i] row_split [of p large] io by simp
    ultimately show ?thesis
      using io(1) by (simp add: shard_content_def nth_append)
  next
    case False
    define q where "q = p - rows * (10 * large)"
    let ?k = "q div small div 10"
    have io: "i = q div small mod 10" "off = rows * large + ?k * small + q mod small"
      using assms(4) False by (simp_all add: block_addr_def q_def Let_def)
    have q: "q < small_rows * (10 * small)" "p = rows * (10 * large) + q"
      using assms(3) False by (simp_all add: q_def)
    have k: "?k < small_rows" "q mod small < small"
      using row_less [OF q(1)] assms(2) by simp_all
    then have "(?k + 1) * small \<le> small_rows * small"
      by (intro mult_le_mono1) simp
    then have "?k * small + q mod small < small_rows * small"
      using k(2) by simp
    moreover have "rows_seg d (rows * (10 * large)) small i small_rows ! (?k * small + q mod small) = padded d p"
      using nth_rows_seg [OF k, of d "rows * (10 * large)" i] row_split [of q small] io(1) q(2)
      by (simp add: add.assoc)
    ultimately show ?thesis
      using io by (simp add: shard_content_def nth_append)
  qed
  then show "i < 10" and "off < length (shard_content d large small rows small_rows i)"
    and "shard_content d large small rows small_rows i ! off = padded d p"
    by blast+
qed

lemma encoded_shard_at:
  assumes "0 < large" and "0 < small" and "p < length d"
    and "block_addr (encoder_large_rows large (length d)) large small p = (i, off)"
  shows "i < 10 \<and> off < length (encoded_shard d large small i) \<and> encoded_shard d large small i ! off = d ! p"
proof -
  let ?R = "encoder_large_rows large (length d)"
  let ?r = "encoder_small_rows small (length d - ?R * (10 * large))"
  have "length d - ?R * (10 * large) \<le> ?r * (10 * small)"
    by (rule encoder_small_rows_bounds(2) [OF assms(2)])
  then have "p < ?R * (10 * large) + ?r * (10 * small)"
    using assms(3) by linarith
  then show ?thesis
    using shard_content_at(1) [OF assms(1,2) _ assms(4), where small_rows = ?r]
      shard_content_at(2,3) [OF assms(1,2) _ assms(4), where d = d and small_rows = ?r] assms(3)
    by (simp add: encoded_shard_def Let_def padded_def)
qed


lemmas block_size_defs = ERASURE_CODING_LARGE_BLOCK_SIZE_def ERASURE_CODING_SMALL_BLOCK_SIZE_def

lemma nth_shard_names: "i < 14 \<Longrightarrow> shard_names base ! i = base @ to_ext (of_nat i)"
  by (simp add: shard_names_def)

text \<open>
  C13: encoding a volume succeeds when the shard files can be written, and puts every byte of the data
  file at the place the block layout gives it: the shard and offset of the byte, for the number of
  large rows the encoder uses.
\<close>

theorem write_ec_files_layout:
  assumes "fs_wf s" and "fs_names s (base @ ''.dat'') = Some df" and "fs_data s df = d" and "fs_faults s = []"
    and "\<forall>p \<in> set (shard_names base). \<forall>x. fs_names s p = Some x \<longrightarrow> \<not> fs_readonly s x"
    and "rs_new rs 10 4 = Ok r" and "rs_law rs r" and "length d < 2 ^ 60" and "length d < fuel"
  shows "\<exists>s'. write_ec_files fuel rs now base s = Some (Ok s') \<and>
    (\<forall>p < length d. case block_addr (encoder_large_rows (2 ^ 30) (length d)) (2 ^ 30) (2 ^ 20) p of
       (i, off) \<Rightarrow> \<exists>x. fs_names s' (base @ to_ext (of_nat i)) = Some x \<and>
         off < length (fs_data s' x) \<and> fs_data s' x ! off = d ! p)"
proof -
  obtain s' outs where g: "generate_ec_files fuel rs now base (256 * 1024) ERASURE_CODING_LARGE_BLOCK_SIZE
        ERASURE_CODING_SMALL_BLOCK_SIZE s = Some (Ok s')"
      "map (fs_names s') (shard_names base) = map Some outs"
      "\<forall>i < 10. fs_data s' (outs ! i) = encoded_shard d (2 ^ 30) (2 ^ 20) i"
    using generate_ec_files_Ok [OF assms(1-7), of "2 ^ 18" ERASURE_CODING_LARGE_BLOCK_SIZE "2 ^ 30"
        ERASURE_CODING_SMALL_BLOCK_SIZE "2 ^ 20" "256 * 1024" fuel now] assms(8,9)
    by (auto simp: block_size_defs)
  have name: "fs_names s' (base @ to_ext (of_nat i)) = Some (outs ! i)" if "i < 10" for i
    using arg_cong [OF g(2), of "\<lambda>l. l ! i"] that arg_cong [OF g(2), of length] nth_shard_names [of i base]
    by (simp add: shard_names_def)
  have "fs_names s' (base @ to_ext (of_nat i)) = Some (outs ! i) \<and>
      off < length (fs_data s' (outs ! i)) \<and> fs_data s' (outs ! i) ! off = d ! p"
    if "p < length d" "block_addr (encoder_large_rows (2 ^ 30) (length d)) (2 ^ 30) (2 ^ 20) p = (i, off)" for p i off
    using encoded_shard_at [OF _ _ that] g(3) name by simp
  then show ?thesis
    using g(1) by (auto simp: write_ec_files_def)
qed

definition rs_copy :: "unit reed_solomon" where
  "rs_copy = \<lparr>rs_new = \<lambda>_ _. Ok (), rs_encode = \<lambda>_ bufs. Ok bufs, rs_reconstruct = \<lambda>_ bufs. Ok bufs\<rparr>"

lemma rs_copy_law: "rs_law rs_copy ()"
  unfolding rs_law_def
proof (intro allI impI)
  fix bufs :: "bytes list" and n
  assume "length bufs = 14 \<and> 0 < n \<and> (\<forall>b \<in> set bufs. length b = n)"
  then show "\<exists>ps. rs_encode rs_copy () bufs = Ok (take 10 bufs @ ps) \<and> length ps = 4 \<and> (\<forall>b \<in> set ps. length b = n)"
    by (intro exI [of _ "drop 10 bufs"]) (auto simp: rs_copy_def dest: in_set_dropD)
qed

definition dat_example_fs :: fs where
  "dat_example_fs = example_fs\<lparr>fs_names := [''v.dat'' \<mapsto> 0], fs_next := 1, fs_data := \<lambda>_. [1, 2, 3],
     fs_faults := []\<rparr>"

lemma dat_example_fs_facts:
  "fs_wf dat_example_fs" "fs_faults dat_example_fs = []" "fs_names dat_example_fs (''v'' @ ''.dat'') = Some 0"
  "fs_data dat_example_fs 0 = [1, 2, 3]" "p \<in> set (shard_names ''v'') \<Longrightarrow> fs_names dat_example_fs p = None"
  using dat_not_shard_name [of "''v''"] by (auto simp: dat_example_fs_def fs_wf_def split: if_splits)

theorem write_ec_files_layout_witness:
  "\<exists>s'. write_ec_files 4 rs_copy 0 ''v'' dat_example_fs = Some (Ok s') \<and>
    (\<forall>p < length [1, 2, 3 :: u8].
       case block_addr (encoder_large_rows (2 ^ 30) (length [1, 2, 3 :: u8])) (2 ^ 30) (2 ^ 20) p of
       (i, off) \<Rightarrow> \<exists>x. fs_names s' (''v'' @ to_ext (of_nat i)) = Some x \<and>
         off < length (fs_data s' x) \<and> fs_data s' x ! off = [1, 2, 3] ! p)"
  by (rule write_ec_files_layout [OF dat_example_fs_facts(1,3,4,2) _ _ rs_copy_law])
    (simp_all add: dat_example_fs_facts(5) rs_copy_def)

end
