(* ===== verification/EcDecode.thy ===== *)
theory EcDecode
  imports EcEncode Volume
begin

section \<open>Decoding shards into a volume\<close>

text \<open>
  \<open>storage/erasure_coding/decoder.rs\<close>: joining the ten data shards into a data file again, and
  recovering the index file from the sorted index and the deletion journal. The lemmas follow the
  code from one piece to a row and the rows of both loops, over a relation \<open>join_inv\<close> between the
  file system, the shard contents and the bytes written so far.
\<close>

subsection \<open>Decoding\<close>

datatype helyim_error = HIo io_error | HVolume volume_error

text \<open>The loops over the sorted index and over the journal, given what is left of the file.\<close>

fun iterate_ecx ::
    "nat \<Rightarrow> bytes \<Rightarrow> (needle_id \<Rightarrow> offset \<Rightarrow> size \<Rightarrow> 'st \<Rightarrow> ('st, io_error \<times> 'st) result)
      \<Rightarrow> 'st \<Rightarrow> ('st, helyim_error \<times> 'st) result" where
  "iterate_ecx 0 rest process st = Ok st"
| "iterate_ecx (Suc k) rest process st =
     (if length rest < 16 then Ok st
      else
        rbind (read_index_entry (take 16 rest)) (\<lambda>(key, off, sz).
        case process key off sz st of
          Ok st \<Rightarrow> iterate_ecx k (drop 16 rest) process st
        | Err (e, st) \<Rightarrow> if e = UnexpectedEof then Ok st else Err (HIo e, st)
        | Panic \<Rightarrow> Panic))"

definition iterate_ecx_file ::
    "fs \<Rightarrow> string \<Rightarrow> (needle_id \<Rightarrow> offset \<Rightarrow> size \<Rightarrow> 'st \<Rightarrow> ('st, io_error \<times> 'st) result)
      \<Rightarrow> 'st \<Rightarrow> ('st, helyim_error \<times> 'st) result" where
  "iterate_ecx_file s base_filename process st =
     rbind (map_err (\<lambda>e. (HIo e, st)) (open_read s (base_filename @ ''.ecx''))) (\<lambda>i.
     iterate_ecx (Suc (length (fs_data s i))) (fs_data s i) process st)"

fun iterate_ecj ::
    "nat \<Rightarrow> bytes \<Rightarrow> (needle_id \<Rightarrow> 'st \<Rightarrow> ('st, io_error \<times> 'st) result)
      \<Rightarrow> 'st \<Rightarrow> ('st, helyim_error \<times> 'st) result" where
  "iterate_ecj 0 rest process st = Ok st"
| "iterate_ecj (Suc k) rest process st =
     (if length rest < 8 then Ok st
      else
        rbind (get_u64 (take 8 rest)) (\<lambda>(needle_id, _).
        case process needle_id st of
          Ok st \<Rightarrow> iterate_ecj k (drop 8 rest) process st
        | Err (e, st) \<Rightarrow> if e = UnexpectedEof then Ok st else Err (HIo e, st)
        | Panic \<Rightarrow> Panic))"

definition iterate_ecj_file ::
    "fs \<Rightarrow> string \<Rightarrow> (needle_id \<Rightarrow> 'st \<Rightarrow> ('st, io_error \<times> 'st) result)
      \<Rightarrow> 'st \<Rightarrow> ('st, helyim_error \<times> 'st) result" where
  "iterate_ecj_file s base_filename process st =
     (let ecj_filename = base_filename @ ''.ecj'' in
      rbind (map_err (\<lambda>e. (HIo e, st)) (file_exists s ecj_filename)) (\<lambda>ex.
      if \<not> ex then Ok st
      else
        rbind (map_err (\<lambda>e. (HIo e, st)) (open_read s ecj_filename)) (\<lambda>i.
        iterate_ecj (Suc (length (fs_data s i))) (fs_data s i) process st)))"

definition write_index_file_from_ec_index ::
    "fs \<Rightarrow> u64 \<Rightarrow> string \<Rightarrow> (fs, helyim_error \<times> fs) result" where
  "write_index_file_from_ec_index s now base_filename =
     rbind (map_err (\<lambda>e. (HIo e, s)) (open_read s (base_filename @ ''.ecx''))) (\<lambda>ecx_file.
     rbind (map_err (\<lambda>e. (HIo e, s)) (open_create_truncate s (base_filename @ ''.idx'') now))
       (\<lambda>(s, idx_file).
     rbind (map_err (\<lambda>(e, s). (HIo e, s)) (write_all s idx_file (fs_data s ecx_file))) (\<lambda>s.
     iterate_ecj_file s base_filename
       (\<lambda>needle_id s. write_all s idx_file (nv_as_bytes needle_value_deleted needle_id)) s)))"

definition read_ec_volume_version :: "fs \<Rightarrow> string \<Rightarrow> (version, helyim_error) result" where
  "read_ec_volume_version s base_filename =
     rbind (map_err HIo (open_read s (base_filename @ ''.ec00''))) (\<lambda>data_file.
     rbind (map_err HIo (read_exact_at (fs_data s data_file) SUPER_BLOCK_SIZE 0)) (\<lambda>super_block.
     rbind (map_err HVolume (super_block_parse super_block)) (\<lambda>sb.
     Ok (sb_version sb))))"

definition find_data_filesize :: "fs \<Rightarrow> string \<Rightarrow> (u64, helyim_error) result" where
  "find_data_filesize s base_filename =
     rbind (read_ec_volume_version s base_filename) (\<lambda>_.
     map_err fst
       (iterate_ecx_file s base_filename
         (\<lambda>needle_id off sz data_filesize.
            if size_is_deleted sz then Ok data_filesize
            else
              let entry_stop_offset = actual_offset off + actual_size sz in
              Ok (if data_filesize < entry_stop_offset then entry_stop_offset else data_filesize))
         0))"

fun open_data_shards :: "fs \<Rightarrow> string \<Rightarrow> nat list \<Rightarrow> (ino list, io_error) result" where
  "open_data_shards s base_filename [] = Ok []"
| "open_data_shards s base_filename (i # is) =
     rbind (open_read s (base_filename @ to_ext (of_nat i))) (\<lambda>file.
     rbind (open_data_shards s base_filename is) (\<lambda>files. Ok (file # files)))"

text \<open>
  A shard file with its read position. One pass over the shards takes \<open>piece\<close> bytes from each, less
  at the end of the data when \<open>clip\<close> is set.
\<close>

fun join_row ::
    "bool \<Rightarrow> u64 \<Rightarrow> ino \<Rightarrow> (ino \<times> nat) list \<Rightarrow> u64 \<Rightarrow> fs
      \<Rightarrow> ((ino \<times> nat) list \<times> u64 \<times> fs, helyim_error \<times> fs) result" where
  "join_row clip piece data_file [] data_filesize s = Ok ([], data_filesize, s)"
| "join_row clip piece data_file ((shard, pos) # shards) data_filesize s =
     (let rd = (if clip \<and> sint data_filesize \<le> sint piece then data_filesize else piece) in
      rbind (map_err (\<lambda>e. (HIo e, s)) (read_exact_at (fs_data s shard) (unat rd) (of_nat pos))) (\<lambda>block.
      rbind (map_err (\<lambda>(e, s). (HIo e, s)) (write_all s data_file block)) (\<lambda>s.
      rbind (join_row clip piece data_file shards (data_filesize - rd) s) (\<lambda>(shards, data_filesize, s).
      Ok ((shard, pos + unat rd) # shards, data_filesize, s)))))"

text \<open>The loop over large rows runs while a whole large row is left, the other while anything is.\<close>

fun join_rows ::
    "nat \<Rightarrow> bool \<Rightarrow> u64 \<Rightarrow> ino \<Rightarrow> (ino \<times> nat) list \<Rightarrow> u64 \<Rightarrow> fs
      \<Rightarrow> ((ino \<times> nat) list \<times> u64 \<times> fs, helyim_error \<times> fs) result option" where
  "join_rows 0 clip piece data_file shards data_filesize s = None"
| "join_rows (Suc fuel) clip piece data_file shards data_filesize s =
     (if (if clip then sint data_filesize > 0 else sint data_filesize \<ge> sint (data_shards * piece)) then
        case join_row clip piece data_file shards data_filesize s of
          Ok (shards, data_filesize, s) \<Rightarrow> join_rows fuel clip piece data_file shards data_filesize s
        | Err e \<Rightarrow> Some (Err e)
        | Panic \<Rightarrow> Some Panic
      else Some (Ok (shards, data_filesize, s)))"

definition join_shards ::
    "nat \<Rightarrow> u64 \<Rightarrow> u64 \<Rightarrow> ino \<Rightarrow> ino list \<Rightarrow> u64 \<Rightarrow> fs \<Rightarrow> (fs, helyim_error \<times> fs) result option" where
  "join_shards fuel large small data_file input_files data_filesize s =
     (case join_rows fuel False large data_file (map (\<lambda>i. (i, 0)) input_files) data_filesize s of
        None \<Rightarrow> None
      | Some (Err e) \<Rightarrow> Some (Err e)
      | Some Panic \<Rightarrow> Some Panic
      | Some (Ok (shards, data_filesize, s)) \<Rightarrow>
          map_option (\<lambda>res. rbind res (\<lambda>(_, _, s). Ok s))
            (join_rows fuel True small data_file shards data_filesize s))"

definition write_data_file ::
    "nat \<Rightarrow> fs \<Rightarrow> u64 \<Rightarrow> string \<Rightarrow> u64 \<Rightarrow> (fs, helyim_error \<times> fs) result option" where
  "write_data_file fuel s now base_filename data_filesize =
     (case open_create_truncate s (base_filename @ ''.dat'') now of
        Err e \<Rightarrow> Some (Err (HIo e, s))
      | Panic \<Rightarrow> Some Panic
      | Ok (s, data_file) \<Rightarrow>
          (case open_data_shards s base_filename [0..<unat DATA_SHARDS_COUNT] of
             Err e \<Rightarrow> Some (Err (HIo e, s))
           | Panic \<Rightarrow> Some Panic
           | Ok input_files \<Rightarrow>
               join_shards fuel ERASURE_CODING_LARGE_BLOCK_SIZE ERASURE_CODING_SMALL_BLOCK_SIZE
                 data_file input_files data_filesize s))"


subsection \<open>What decoding reads\<close>

definition join_inv :: "ino \<Rightarrow> ino set \<Rightarrow> (ino \<Rightarrow> bytes) \<Rightarrow> bytes \<Rightarrow> fs \<Rightarrow> bool" where
  "join_inv df X c out s \<longleftrightarrow>
     fs_faults s = [] \<and> df \<notin> X \<and> (\<forall>x \<in> X. fs_data s x = c x) \<and> fs_data s df = out"

lemma join_piece:
  assumes "join_inv df X c out s" and "x \<in> X" and "pos + n \<le> length (c x)" and "unat rd = n"
    and "pos < 2 ^ 62" and "length out < 2 ^ 62"
  shows "\<exists>s'. read_exact_at (fs_data s x) (unat rd) (of_nat pos) = Ok (take n (drop pos (c x))) \<and>
    write_all s df (take n (drop pos (c x))) = Ok s' \<and> names_kept s s' \<and>
    join_inv df X c (out @ take n (drop pos (c x))) s'"
proof -
  have "unat (of_nat pos :: u64) = pos"
    using assms(5) by (intro unat_of_nat_small) simp
  then have "read_exact_at (fs_data s x) (unat rd) (of_nat pos) = Ok (take n (drop pos (c x)))"
    using assms(1-4) by (simp add: read_exact_at_def join_inv_def)
  moreover have "write_all s df (take n (drop pos (c x))) = Ok (fs_set s df (out @ take n (drop pos (c x))))"
    using write_all_no_faults [of s df] assms(1,6) by (simp add: join_inv_def)
  ultimately show ?thesis
    using assms(1,2) by (auto simp: join_inv_def names_kept_def)
qed

lemma unat_rd:
  assumes "unat left = n" and "unat piece = b" and "n < 2 ^ 62" and "b < 2 ^ 62" and "clip \<or> b \<le> n"
  shows "unat (if clip \<and> sint left \<le> sint piece then left else piece :: u64) = min n b"
proof -
  have "sint left = int n" "sint piece = int b"
    using assms sint_of_unat [of left] sint_of_unat [of piece] by (simp_all del: of_nat_unat)
  then show ?thesis
    using assms by (auto simp: min_def)
qed

lemma join_row_Ok:
  assumes "join_inv df X c out s" and "set xs \<subseteq> X" and "\<forall>x \<in> set xs. pos + b \<le> length (c x)"
    and "unat left = n" and "unat piece = b" and "n < 2 ^ 61" and "b < 2 ^ 61" and "pos < 2 ^ 62"
    and "length out + n < 2 ^ 62" and "clip \<or> length xs * b \<le> n"
  shows "\<exists>shards left' s'. join_row clip piece df (map (\<lambda>x. (x, pos)) xs) left s = Ok (shards, left', s') \<and>
    unat left' = n - length xs * b \<and> names_kept s s' \<and>
    join_inv df X c (out @ take n (concat (map (\<lambda>x. take b (drop pos (c x))) xs))) s' \<and>
    (length xs * b \<le> n \<longrightarrow> shards = map (\<lambda>x. (x, pos + b)) xs)"
  using assms(1-4,6,9,10)
proof (induction xs arbitrary: out s left n)
  case Nil
  then show ?case
    by (simp add: names_kept_def)
next
  case (Cons x xs)
  define rd where "rd = (if clip \<and> sint left \<le> sint piece then left else piece)"
  define m where "m = min n b"
  have rd: "unat rd = m"
    unfolding rd_def m_def using Cons.prems assms(5,7) by (intro unat_rd) auto
  have m: "m \<le> n" "m \<le> b" "pos + m \<le> length (c x)"
    using Cons.prems(3) by (auto simp: m_def)
  obtain s1 where one: "read_exact_at (fs_data s x) (unat rd) (of_nat pos) = Ok (take m (drop pos (c x)))"
      "write_all s df (take m (drop pos (c x))) = Ok s1" "names_kept s s1"
      "join_inv df X c (out @ take m (drop pos (c x))) s1"
    using join_piece [OF Cons.prems(1) _ m(3) rd assms(8)] Cons.prems(2,6) by auto
  have len: "length (take m (drop pos (c x))) = m"
    using m(3) by simp
  have left1: "unat (left - rd) = n - m"
    using Cons.prems(4) rd m(1) by (simp add: unat_sub word_le_nat_alt)
  have rest: "set xs \<subseteq> X" "\<forall>x \<in> set xs. pos + b \<le> length (c x)" "n - m < 2 ^ 61"
      "length (out @ take m (drop pos (c x))) + (n - m) < 2 ^ 62" "clip \<or> length xs * b \<le> n - m"
    using Cons.prems(2,3,5-7) len m(1,2) by (auto simp: m_def)
  obtain shards left' s' where two:
      "join_row clip piece df (map (\<lambda>x. (x, pos)) xs) (left - rd) s1 = Ok (shards, left', s')"
      "unat left' = n - m - length xs * b" "names_kept s1 s'"
      "join_inv df X c ((out @ take m (drop pos (c x))) @
         take (n - m) (concat (map (\<lambda>x. take b (drop pos (c x))) xs))) s'"
      "length xs * b \<le> n - m \<longrightarrow> shards = map (\<lambda>x. (x, pos + b)) xs"
    using Cons.IH [OF one(4) rest(1,2) left1 rest(3-5)] by blast
  have "length (take b (drop pos (c x))) = b" "n - m = n - b"
    using Cons.prems(3) by (auto simp: m_def)
  then have "take m (drop pos (c x)) @ take (n - m) (concat (map (\<lambda>x. take b (drop pos (c x))) xs)) =
      take n (concat (map (\<lambda>x. take b (drop pos (c x))) (x # xs)))"
    by (simp add: m_def min.commute del: length_take length_drop)
  moreover have "n - m - length xs * b = n - length (x # xs) * b"
    by (auto simp: m_def min_def)
  moreover have "join_row clip piece df (map (\<lambda>x. (x, pos)) (x # xs)) left s = Ok ((x, pos + m) # shards, left', s')"
    using one(1,2) two(1) rd by (simp add: Let_def flip: rd_def)
  moreover have "(x, pos + m) # shards = map (\<lambda>x. (x, pos + b)) (x # xs)" if "length (x # xs) * b \<le> n"
    using that two(5) by (auto simp: m_def min_def)
  ultimately show ?case
    using two(2-4) one(3) by (auto simp: names_kept_def)
qed


lemma take_seg: "take n (seg d p m) = seg d p (min n m)"
  by (simp add: seg_def take_map min_def)

text \<open>Row \<open>k\<close> of the shards \<open>xs\<close> from position \<open>pos\<close> on is the segment of the data from \<open>p\<close> on.\<close>

definition row_ok :: "bytes \<Rightarrow> (ino \<Rightarrow> bytes) \<Rightarrow> ino list \<Rightarrow> nat \<Rightarrow> nat \<Rightarrow> nat \<Rightarrow> nat \<Rightarrow> bool" where
  "row_ok d c xs b pos p k \<longleftrightarrow>
     concat (map (\<lambda>x. take b (drop (pos + k * b) (c x))) xs) = seg d (p + k * (10 * b)) (10 * b)"

lemma row_ok_Suc: "row_ok d c xs b (pos + b) (p + 10 * b) k \<longleftrightarrow> row_ok d c xs b pos p (Suc k)"
  by (simp add: row_ok_def algebra_simps)

lemma join_large_rows:
  assumes "join_inv df X c out s" and "set xs \<subseteq> X" and "length xs = 10" and "unat piece = b" and "10 * b < 2 ^ 61" and "0 < b"
    and "\<forall>x \<in> set xs. pos + r * b \<le> length (c x)" and "unat left = n" and "n div (10 * b) = r" and "n < 2 ^ 61"
    and "length out + n < 2 ^ 62" and "pos + r * b < 2 ^ 62" and "\<forall>k < r. row_ok d c xs b pos p k" and "r < fuel"
  shows "\<exists>left' s'. join_rows fuel False piece df (map (\<lambda>x. (x, pos)) xs) left s
      = Some (Ok (map (\<lambda>x. (x, pos + r * b)) xs, left', s')) \<and>
    unat left' = n - r * (10 * b) \<and> names_kept s s' \<and> join_inv df X c (out @ seg d p (r * (10 * b))) s'"
  using assms(1,7-14)
proof (induction r arbitrary: out s left n pos p fuel)
  case 0
  then have "n < 10 * b"
    using assms(6) by (simp add: div_eq_0_iff)
  then have "\<not> sint left \<ge> sint (data_shards * piece)"
    using 0 assms(4,5) unat_row(2) [of piece b] sint_of_unat [of left]
    by (simp add: mult.commute del: of_nat_unat)
  then show ?case
    using 0 by (cases fuel) (auto simp: names_kept_def)
next
  case (Suc r)
  obtain k where fuel: "fuel = Suc k" "r < k"
    using Suc.prems(9) by (cases fuel) auto
  have "10 * b \<le> n"
    using Suc.prems(4) by (cases "n < 10 * b") auto
  then have n: "10 * b \<le> n" "(n - 10 * b) div (10 * b) = r"
    using Suc.prems(4) assms(6) le_div_geq [of "10 * b" n] by auto
  have go: "sint left \<ge> sint (data_shards * piece)"
    using n(1) Suc.prems(3,5) assms(4,5) unat_row(2) [of piece b] sint_of_unat [of left]
    by (simp add: mult.commute del: of_nat_unat)
  have pre: "\<forall>x \<in> set xs. pos + b \<le> length (c x)" "b < 2 ^ 61" "pos < 2 ^ 62" "False \<or> length xs * b \<le> n"
    using Suc.prems(2,7) assms(3,5) n(1) by auto
  obtain shards left1 s1 where one: "join_row False piece df (map (\<lambda>x. (x, pos)) xs) left s = Ok (shards, left1, s1)"
      "unat left1 = n - length xs * b" "names_kept s s1"
      "join_inv df X c (out @ take n (concat (map (\<lambda>x. take b (drop pos (c x))) xs))) s1"
      "length xs * b \<le> n \<longrightarrow> shards = map (\<lambda>x. (x, pos + b)) xs"
    using join_row_Ok [OF Suc.prems(1) assms(2) pre(1) Suc.prems(3) assms(4) Suc.prems(5) pre(2,3) Suc.prems(6) pre(4)] by blast
  have "concat (map (\<lambda>x. take b (drop pos (c x))) xs) = seg d p (10 * b)"
    using Suc.prems(8) by (auto simp: row_ok_def dest: spec [of _ 0])
  then have inv1: "join_inv df X c (out @ seg d p (10 * b)) s1"
    using one(4) n(1) by (simp add: take_seg min_absorb2)
  have rest: "\<forall>x \<in> set xs. pos + b + r * b \<le> length (c x)" "unat left1 = n - 10 * b" "n - 10 * b < 2 ^ 61"
      "length (out @ seg d p (10 * b)) + (n - 10 * b) < 2 ^ 62" "pos + b + r * b < 2 ^ 62"
    using Suc.prems(2,5-7) one(2) assms(3) n(1) by (auto simp: algebra_simps)
  have rows: "\<forall>k < r. row_ok d c xs b (pos + b) (p + 10 * b) k"
    using Suc.prems(8) by (simp add: row_ok_Suc)
  obtain left' s' where two: "join_rows k False piece df (map (\<lambda>x. (x, pos + b)) xs) left1 s1
        = Some (Ok (map (\<lambda>x. (x, pos + b + r * b)) xs, left', s'))"
      "unat left' = n - 10 * b - r * (10 * b)" "names_kept s1 s'"
      "join_inv df X c ((out @ seg d p (10 * b)) @ seg d (p + 10 * b) (r * (10 * b))) s'"
    using Suc.IH [OF inv1 rest(1,2) n(2) rest(3-5) rows fuel(2)] by blast
  have "seg d p (10 * b) @ seg d (p + 10 * b) (r * (10 * b)) = seg d p (Suc r * (10 * b))"
    by (simp add: seg_append)
  then show ?case
    using one(1,3,5) two n(1) go fuel(1) assms(3) by (auto simp: names_kept_def add.assoc)
qed

lemma join_small_rows:
  assumes "join_inv df X c out s" and "set xs \<subseteq> X" and "length xs = 10" and "unat piece = b" and "10 * b < 2 ^ 61" and "0 < b"
    and "\<forall>x \<in> set xs. pos + r * b \<le> length (c x)" and "unat left = n" and "n \<le> r * (10 * b)" and "n < 2 ^ 61"
    and "length out + n < 2 ^ 62" and "pos + r * b < 2 ^ 62" and "\<forall>k < r. row_ok d c xs b pos p k" and "r < fuel"
  shows "\<exists>shards left' s'. join_rows fuel True piece df (map (\<lambda>x. (x, pos)) xs) left s = Some (Ok (shards, left', s')) \<and>
    names_kept s s' \<and> join_inv df X c (out @ seg d p n) s'"
  using assms(1,7-14)
proof (induction r arbitrary: out s left n pos p fuel)
  case 0
  then show ?case
    by (cases fuel) (auto simp: names_kept_def unat_eq_0)
next
  case (Suc r)
  obtain k where fuel: "fuel = Suc k" "r < k"
    using Suc.prems(9) by (cases fuel) auto
  show ?case
  proof (cases "n = 0")
    case True
    then show ?thesis
      using Suc.prems(1,3) fuel by (auto simp: names_kept_def unat_eq_0)
  next
    case False
    have go: "sint left > 0"
      using False Suc.prems(3,5) sint_of_unat [of left] by (simp del: of_nat_unat)
    have pre: "\<forall>x \<in> set xs. pos + b \<le> length (c x)" "b < 2 ^ 61" "pos < 2 ^ 62" "True \<or> length xs * b \<le> n"
      using Suc.prems(2,7) assms(5) by auto
    obtain shards left1 s1 where one: "join_row True piece df (map (\<lambda>x. (x, pos)) xs) left s = Ok (shards, left1, s1)"
        "unat left1 = n - length xs * b" "names_kept s s1"
        "join_inv df X c (out @ take n (concat (map (\<lambda>x. take b (drop pos (c x))) xs))) s1"
        "length xs * b \<le> n \<longrightarrow> shards = map (\<lambda>x. (x, pos + b)) xs"
      using join_row_Ok [OF Suc.prems(1) assms(2) pre(1) Suc.prems(3) assms(4) Suc.prems(5) pre(2,3) Suc.prems(6) pre(4)] by blast
    have "concat (map (\<lambda>x. take b (drop pos (c x))) xs) = seg d p (10 * b)"
      using Suc.prems(8) by (auto simp: row_ok_def dest: spec [of _ 0])
    then have inv1: "join_inv df X c (out @ seg d p (min n (10 * b))) s1"
      using one(4) by (simp add: take_seg)
    show ?thesis
    proof (cases "n \<le> 10 * b")
      case True
      then have "left1 = 0"
        using one(2) assms(3) by (simp add: unat_eq_0)
      then show ?thesis
        using one(1,3) inv1 True go fuel by (cases k) (auto simp: min_absorb1)
    next
      case False
      have rest: "\<forall>x \<in> set xs. pos + b + r * b \<le> length (c x)" "unat left1 = n - 10 * b" "n - 10 * b \<le> r * (10 * b)"
          "n - 10 * b < 2 ^ 61" "length (out @ seg d p (10 * b)) + (n - 10 * b) < 2 ^ 62" "pos + b + r * b < 2 ^ 62"
        using Suc.prems(2,4-7) one(2) assms(3) False by (auto simp: algebra_simps)
      have rows: "\<forall>k < r. row_ok d c xs b (pos + b) (p + 10 * b) k"
        using Suc.prems(8) by (simp add: row_ok_Suc)
      have "join_inv df X c (out @ seg d p (10 * b)) s1"
        using inv1 False by (simp add: min_absorb2)
      then obtain shards' left' s' where two: "join_rows k True piece df (map (\<lambda>x. (x, pos + b)) xs) left1 s1
            = Some (Ok (shards', left', s'))" "names_kept s1 s'"
          "join_inv df X c ((out @ seg d p (10 * b)) @ seg d (p + 10 * b) (n - 10 * b)) s'"
        using Suc.IH [OF _ rest rows fuel(2)] by blast
      have "seg d p (10 * b) @ seg d (p + 10 * b) (n - 10 * b) = seg d p n"
        using False by (simp add: seg_append)
      then show ?thesis
        using one(1,3,5) two False go fuel(1) assms(3) by (auto simp: names_kept_def)
    qed
  qed
qed


subsection \<open>Decoding restores the data\<close>

lemma take_drop_rows_seg:
  assumes "k < r"
  shows "take b (drop (k * b) (rows_seg d p b i r)) = seg d (p + k * (10 * b) + b * i) b"
  using assms
proof (induction r arbitrary: k p)
  case (Suc r)
  show ?case
  proof (cases k)
    case (Suc k')
    then have "take b (drop (k' * b) (rows_seg d (p + 10 * b) b i r)) =
        seg d (p + 10 * b + k' * (10 * b) + b * i) b"
      using Suc.IH Suc.prems by simp
    then show ?thesis
      using Suc by (simp add: algebra_simps)
  qed simp
qed simp

lemma concat_segs: "concat (map (\<lambda>i. seg d (p + b * i) b) [0..<m]) = seg d p (m * b)"
  using seg_append [of d p "_ * b" b] by (induction m) (simp_all add: algebra_simps)

lemma rows_are_ok:
  assumes "length xs = 10" and "\<forall>i < 10. take b (drop (pos + k * b) (c (xs ! i))) = seg d (p + k * (10 * b) + b * i) b"
  shows "row_ok d c xs b pos p k"
proof -
  have "map (\<lambda>x. take b (drop (pos + k * b) (c x))) xs = map (\<lambda>i. seg d (p + k * (10 * b) + b * i) b) [0..<10]"
    using assms by (intro nth_equalityI) simp_all
  then show ?thesis
    using concat_segs [of d "p + k * (10 * b)" b 10] by (simp add: row_ok_def)
qed

lemma shard_content_rows:
  assumes "length xs = 10" and "\<forall>i < 10. c (xs ! i) = shard_content d large small R r i"
  shows "k < R \<Longrightarrow> row_ok d c xs large 0 0 k"
    and "k < r \<Longrightarrow> row_ok d c xs small (R * large) (R * (10 * large)) k"
proof -
  show "row_ok d c xs large 0 0 k" if "k < R"
  proof (rule rows_are_ok [OF assms(1)], intro allI impI)
    fix i :: nat
    assume "i < 10"
    have "k * large + large \<le> R * large"
      using that mult_le_mono1 [of "Suc k" R large] by simp
    then show "take large (drop (0 + k * large) (c (xs ! i))) = seg d (0 + k * (10 * large) + large * i) large"
      using assms(2) \<open>i < 10\<close> take_drop_rows_seg [OF that, of large d 0 i] by (simp add: shard_content_def)
  qed
  show "row_ok d c xs small (R * large) (R * (10 * large)) k" if "k < r"
  proof (rule rows_are_ok [OF assms(1)], intro allI impI)
    fix i :: nat
    assume "i < 10"
    then show "take small (drop (R * large + k * small) (c (xs ! i))) =
        seg d (R * (10 * large) + k * (10 * small) + small * i) small"
      using assms(2) take_drop_rows_seg [OF that, of small d "R * (10 * large)" i] by (simp add: shard_content_def)
  qed
qed

lemma open_data_shards_Ok:
  assumes "\<forall>i \<in> set is. fs_names s (base @ to_ext (of_nat i)) = Some (f i)"
  shows "open_data_shards s base is = Ok (map f is)"
  using assms by (induction "is") (simp_all add: open_read_def metadata_def)


lemma encoder_rows_agree:
  assumes "0 < large" and "n mod (10 * large) \<noteq> 0"
  shows "n div (10 * large) = encoder_large_rows large n"
proof -
  let ?w = "10 * large"
  have "n = n div ?w * ?w + n mod ?w"
    by (rule div_mult_mod_eq [symmetric])
  then have "n - 1 = n div ?w * ?w + (n mod ?w - 1)"
    using assms(2) by linarith
  moreover have "n mod ?w - 1 < ?w"
    using assms(1) by (simp add: less_imp_diff_less)
  ultimately show ?thesis
    using assms(1) by (simp add: encoder_large_rows_def)
qed

lemma join_shards_encoded:
  assumes inv: "join_inv df (set xs) c [] s" and xs: "length xs = 10" "\<forall>i < 10. c (xs ! i) = encoded_shard d large small i"
    and lg: "unat lg = large" "10 * large < 2 ^ 61" "0 < large" and sm: "unat sm = small" "10 * small < 2 ^ 61" "0 < small"
    and len: "unat left = length d" "length d < 2 ^ 60" and "length d mod (10 * large) \<noteq> 0" and "length d < fuel"
  shows "\<exists>s'. join_shards fuel lg sm df xs left s = Some (Ok s') \<and> names_kept s s' \<and> fs_data s' df = d"
proof -
  let ?D = "length d"
  define R where "R = encoder_large_rows large ?D"
  define r where "r = encoder_small_rows small (?D - R * (10 * large))"
  have RD: "?D div (10 * large) = R"
    unfolding R_def by (rule encoder_rows_agree [OF lg(3) assms(12)])
  have c: "\<forall>i < 10. c (xs ! i) = shard_content d large small R r i"
    using xs(2) by (simp add: encoded_shard_def R_def r_def Let_def)
  have lenc: "length (c x) = R * large + r * small" if "x \<in> set xs" for x
    using that c xs(1) by (auto simp: in_set_conv_nth shard_content_def)
  have Rle: "R * (10 * large) \<le> ?D" "R \<le> ?D"
    using encoder_large_rows_bounds(3,4) [OF lg(3)] by (simp_all add: R_def)
  have rle: "r \<le> ?D - R * (10 * large)" "?D - R * (10 * large) \<le> r * (10 * small)"
    using encoder_small_rows_bounds(2,3) [OF sm(3)] by (simp_all add: r_def)
  have "r * (10 * small) \<le> ?D + 10 * small"
    unfolding r_def encoder_small_rows_def
    by (rule order_trans [OF div_times_less_eq_dividend]) linarith
  then have room: "R * large + r * small < 2 ^ 62" "R * large < 2 ^ 62"
    using Rle(1) len(2) sm(2) by (simp_all add: algebra_simps)
  have "\<forall>x \<in> set xs. 0 + R * large \<le> length (c x)" "?D < 2 ^ 61" "length [] + ?D < 2 ^ 62" "0 + R * large < 2 ^ 62" "R < fuel"
    using lenc len(2) room Rle(2) assms(13) by auto
  note large_loop = join_large_rows [OF inv order_refl xs(1) lg this(1) len(1) RD this(2-4) _ this(5)]
  obtain left1 s1 where one: "join_rows fuel False lg df (map (\<lambda>x. (x, 0)) xs) left s
        = Some (Ok (map (\<lambda>x. (x, 0 + R * large)) xs, left1, s1))"
      "unat left1 = ?D - R * (10 * large)" "names_kept s s1" "join_inv df (set xs) c ([] @ seg d 0 (R * (10 * large))) s1"
    using large_loop shard_content_rows(1) [OF xs(1) c] by blast
  have "\<forall>x \<in> set xs. R * large + r * small \<le> length (c x)" "?D - R * (10 * large) < 2 ^ 61"
      "length ([] @ seg d 0 (R * (10 * large))) + (?D - R * (10 * large)) < 2 ^ 62" "r < fuel"
    using lenc len(2) rle(1) Rle(1) assms(13) by auto
  note small_loop = join_small_rows [OF one(4) order_refl xs(1) sm this(1) one(2) rle(2) this(2,3) room(1) _ this(4)]
  obtain shards left2 s2 where two: "join_rows fuel True sm df (map (\<lambda>x. (x, R * large)) xs) left1 s1 = Some (Ok (shards, left2, s2))"
      "names_kept s1 s2" "join_inv df (set xs) c (([] @ seg d 0 (R * (10 * large))) @ seg d (R * (10 * large)) (?D - R * (10 * large))) s2"
    using small_loop shard_content_rows(2) [OF xs(1) c] by blast
  have "seg d 0 (R * (10 * large)) @ seg d (R * (10 * large)) (?D - R * (10 * large)) = seg d 0 ?D"
    using seg_append [of d 0 "R * (10 * large)"] Rle(1) by simp
  also have "\<dots> = d"
    by (rule nth_equalityI) (simp_all add: seg_def padded_def)
  finally show ?thesis
    using one(1,3) two by (auto simp: join_shards_def names_kept_def join_inv_def)
qed


lemma write_data_file_opens:
  assumes "fs_wf s" and "\<forall>x. fs_names s (base @ ''.dat'') = Some x \<longrightarrow> \<not> fs_readonly s x" and "fs_faults s = []"
    and "\<forall>i < 10. fs_names s (base @ to_ext (of_nat i)) = Some (f i) \<and> fs_data s (f i) = g i"
  shows "\<exists>s1 x c. write_data_file fuel s now base n =
      join_shards fuel ERASURE_CODING_LARGE_BLOCK_SIZE ERASURE_CODING_SMALL_BLOCK_SIZE x (map f [0..<10]) n s1 \<and>
    fs_names s1 (base @ ''.dat'') = Some x \<and> join_inv x (set (map f [0..<10])) c [] s1 \<and>
    (\<forall>i < 10. c (map f [0..<10] ! i) = g i)"
proof -
  obtain s1 x where o1: "open_create_truncate s (base @ ''.dat'') now = Ok (s1, x)"
      "fs_names s1 = (fs_names s)(base @ ''.dat'' \<mapsto> x)" "fs_data s1 x = []" "fs_faults s1 = fs_faults s"
      "\<forall>q y. q \<noteq> base @ ''.dat'' \<longrightarrow> fs_names s q = Some y \<longrightarrow>
         y \<noteq> x \<and> fs_data s1 y = fs_data s y \<and> fs_readonly s1 y = fs_readonly s y"
    using open_create_truncate_Ok [OF assms(1,2), of now] by auto
  have name: "base @ to_ext (of_nat i) \<noteq> base @ ''.dat''" if "i < 10" for i
  proof -
    have "base @ to_ext (of_nat i) \<in> set (shard_names base)"
      using that by (auto simp: shard_names_def)
    then show ?thesis
      using dat_not_shard_name [of base] by metis
  qed
  have keep: "fs_names s1 (base @ to_ext (of_nat i)) = Some (f i)" "f i \<noteq> x" "fs_data s1 (f i) = g i" if "i < 10" for i
    using name [OF that] o1(2) o1(5) [rule_format, OF name [OF that], of "f i"] assms(4) that by simp_all
  have "open_data_shards s1 base [0..<10] = Ok (map f [0..<10])"
    using keep(1) by (intro open_data_shards_Ok) simp
  moreover have "join_inv x (set (map f [0..<10])) (fs_data s1) [] s1"
    using o1(3,4) assms(3) by (auto simp: join_inv_def dest: keep(2))
  moreover have "\<forall>i < 10. fs_data s1 (map f [0..<10] ! i) = g i"
    using keep(3) by simp
  ultimately show ?thesis
    using o1(1,2) by (intro exI [of _ s1] exI [of _ x] exI [of _ "fs_data s1"])
      (simp add: write_data_file_def del: upt_rec_numeral)
qed

lemma encode_then_open:
  assumes "fs_wf s" and "fs_names s (base @ ''.dat'') = Some df" and "fs_data s df = d" and "fs_faults s = []"
    and "\<forall>p \<in> set (shard_names base). \<forall>x. fs_names s p = Some x \<longrightarrow> \<not> fs_readonly s x"
    and "rs_new rs 10 4 = Ok r" and "rs_law rs r" and "length d < 2 ^ 60" and "length d < fuel" and "\<not> fs_readonly s df"
  shows "\<exists>s1 s2 x xs c. write_ec_files fuel rs now base s = Some (Ok s1) \<and>
    write_data_file fuel s1 now base n =
      join_shards fuel ERASURE_CODING_LARGE_BLOCK_SIZE ERASURE_CODING_SMALL_BLOCK_SIZE x xs n s2 \<and>
    fs_names s2 (base @ ''.dat'') = Some x \<and> join_inv x (set xs) c [] s2 \<and> length xs = 10 \<and>
    (\<forall>i < 10. c (xs ! i) = encoded_shard d (2 ^ 30) (2 ^ 20) i)"
proof -
  obtain s1 outs where g: "generate_ec_files fuel rs now base (256 * 1024) ERASURE_CODING_LARGE_BLOCK_SIZE
        ERASURE_CODING_SMALL_BLOCK_SIZE s = Some (Ok s1)"
      "map (fs_names s1) (shard_names base) = map Some outs"
      "\<forall>i < 10. fs_data s1 (outs ! i) = encoded_shard d (2 ^ 30) (2 ^ 20) i"
      "fs_names s1 (base @ ''.dat'') = Some df" "fs_faults s1 = []" "fs_wf s1" "\<not> fs_readonly s1 df"
    using generate_ec_files_Ok [OF assms(1-7), of "2 ^ 18" ERASURE_CODING_LARGE_BLOCK_SIZE "2 ^ 30"
        ERASURE_CODING_SMALL_BLOCK_SIZE "2 ^ 20" "256 * 1024" fuel now] assms(8-10)
    by (auto simp: block_size_defs)
  have "fs_names s1 (base @ to_ext (of_nat i)) = Some (outs ! i)" if "i < 10" for i
    using arg_cong [OF g(2), of "\<lambda>l. l ! i"] that arg_cong [OF g(2), of length] nth_shard_names [of i base]
    by (simp add: shard_names_def)
  then obtain s2 x c where w: "write_data_file fuel s1 now base n =
        join_shards fuel ERASURE_CODING_LARGE_BLOCK_SIZE ERASURE_CODING_SMALL_BLOCK_SIZE x
          (map ((!) outs) [0..<10]) n s2"
      "fs_names s2 (base @ ''.dat'') = Some x" "join_inv x (set (map ((!) outs) [0..<10])) c [] s2"
      "\<forall>i < 10. c (map ((!) outs) [0..<10] ! i) = encoded_shard d (2 ^ 30) (2 ^ 20) i"
    using write_data_file_opens [of s1 base "(!) outs" "encoded_shard d (2 ^ 30) (2 ^ 20)" fuel now n]
      g(3-7) by auto
  moreover have "write_ec_files fuel rs now base s = Some (Ok s1)"
    using g(1) by (simp add: write_ec_files_def)
  moreover have "length (map ((!) outs) [0..<10]) = 10"
    by simp
  ultimately show ?thesis
    by blast
qed

text \<open>
  C4: encoding a volume into shard files and decoding the data shards gives back the data file, when
  its length is not a multiple of a row of large blocks.
\<close>

theorem ec_round_trip:
  assumes "fs_wf s" and "fs_names s (base @ ''.dat'') = Some df" and "fs_data s df = d" and "fs_faults s = []"
    and "\<forall>p \<in> set (shard_names base). \<forall>x. fs_names s p = Some x \<longrightarrow> \<not> fs_readonly s x"
    and "rs_new rs 10 4 = Ok r" and "rs_law rs r" and "length d < 2 ^ 60" and "length d < fuel"
    and "\<not> fs_readonly s df" and "length d mod (10 * 2 ^ 30) \<noteq> 0"
  shows "\<exists>s1 s2 x. write_ec_files fuel rs now base s = Some (Ok s1) \<and>
    write_data_file fuel s1 now base (of_nat (length d)) = Some (Ok s2) \<and>
    fs_names s2 (base @ ''.dat'') = Some x \<and> fs_data s2 x = d"
proof -
  obtain s1 s2 x xs c where e: "write_ec_files fuel rs now base s = Some (Ok s1)"
      "write_data_file fuel s1 now base (of_nat (length d)) =
        join_shards fuel ERASURE_CODING_LARGE_BLOCK_SIZE ERASURE_CODING_SMALL_BLOCK_SIZE x xs (of_nat (length d)) s2"
      "fs_names s2 (base @ ''.dat'') = Some x" "join_inv x (set xs) c [] s2" "length xs = 10"
      "\<forall>i < 10. c (xs ! i) = encoded_shard d (2 ^ 30) (2 ^ 20) i"
    using encode_then_open [OF assms(1-10), of now "of_nat (length d)"] by blast
  have u: "unat (of_nat (length d) :: u64) = length d"
    using assms(8) by (intro unat_of_nat_small) simp
  obtain s3 where "join_shards fuel ERASURE_CODING_LARGE_BLOCK_SIZE ERASURE_CODING_SMALL_BLOCK_SIZE x xs
        (of_nat (length d)) s2 = Some (Ok s3)" "names_kept s2 s3" "fs_data s3 x = d"
    using join_shards_encoded [OF e(4-6) _ _ _ _ _ _ u assms(8,11,9), where lg = ERASURE_CODING_LARGE_BLOCK_SIZE
        and sm = ERASURE_CODING_SMALL_BLOCK_SIZE] by (auto simp: block_size_defs)
  then show ?thesis
    using e(1-3) by (auto simp: names_kept_def)
qed

theorem ec_round_trip_witness:
  "\<exists>s1 s2 x. write_ec_files 4 rs_copy 0 ''v'' dat_example_fs = Some (Ok s1) \<and>
    write_data_file 4 s1 0 ''v'' (of_nat (length [1, 2, 3 :: u8])) = Some (Ok s2) \<and>
    fs_names s2 (''v'' @ ''.dat'') = Some x \<and> fs_data s2 x = [1, 2, 3]"
  by (rule ec_round_trip [OF dat_example_fs_facts(1,3,4,2) _ _ rs_copy_law])
    (simp_all add: dat_example_fs_facts(5) rs_copy_def, simp_all add: dat_example_fs_def example_fs_def)

subsection \<open>A whole number of large rows\<close>

lemma encoded_shard_full_row:
  assumes "length d = 10 * large" and "large = m * small" and "0 < small" and "0 < m"
  shows "encoded_shard d large small i = rows_seg d 0 small i m"
proof -
  have "encoder_large_rows large (length d) = 0"
    using assms by (simp add: encoder_large_rows_def)
  moreover have "encoder_small_rows small (length d) = m"
  proof -
    have "length d + 10 * small - 1 = 10 * small * m + (10 * small - 1)"
      using assms(1-3) by (simp add: mult.commute mult.left_commute)
    also have "\<dots> div (10 * small) = m + (10 * small - 1) div (10 * small)"
      using assms(3) by (intro div_mult_self4) simp
    finally show ?thesis
      unfolding encoder_small_rows_def using assms(3) by simp
  qed
  ultimately show ?thesis
    by (simp add: encoded_shard_def shard_content_def)
qed

lemma join_shards_full_row:
  assumes inv: "join_inv df (set xs) c [] s" and xs: "length xs = 10" "\<forall>i < 10. c (xs ! i) = encoded_shard d large small i"
    and lg: "unat lg = large" "10 * large < 2 ^ 60" and len: "unat left = length d" "length d = 10 * large"
    and m: "large = m * small" "0 < small" "1 < m" and "1 < fuel"
  shows "\<exists>s'. join_shards fuel lg sm df xs left s = Some (Ok s') \<and> names_kept s s' \<and>
    fs_data s' df ! small = d ! (10 * small)"
proof -
  have c: "\<forall>i < 10. c (xs ! i) = rows_seg d 0 small i m"
    using xs(2) encoded_shard_full_row [OF len(2) m(1,2)] m(3) by simp
  have lenc: "\<forall>x \<in> set xs. 0 + large \<le> length (c x)"
    using c xs(1) m(1) by (auto simp: in_set_conv_nth)
  obtain shards left1 s1 where one: "join_row False lg df (map (\<lambda>x. (x, 0)) xs) left s = Ok (shards, left1, s1)"
      "unat left1 = length d - length xs * large" "names_kept s s1"
      "join_inv df (set xs) c ([] @ take (length d) (concat (map (\<lambda>x. take large (drop 0 (c x))) xs))) s1"
    using join_row_Ok [OF inv order_refl lenc len(1) lg(1), where clip = False] lg(2) len(2) xs(1) by auto
  have "left1 = 0"
    using one(2) len(2) xs(1) by (simp add: unat_eq_0)
  moreover have "sint left \<ge> sint (data_shards * lg)" "0 < sint (data_shards * lg)"
    using len lg m unat_row(2) [of lg large] sint_of_unat [of left] by (simp_all add: mult.commute del: of_nat_unat)
  ultimately have "join_shards fuel lg sm df xs left s = Some (Ok s1)"
    using one(1) assms(11) by (cases fuel; cases "fuel - 1") (auto simp: join_shards_def)
  moreover have "fs_data s1 df ! small = d ! (10 * small)"
  proof -
    obtain y ys where ys: "xs = y # ys" "c y = rows_seg d 0 small 0 m"
      using xs(1) c by (cases xs) (auto dest: spec [of _ 0])
    have "small < large" "large \<le> length d"
      using m len(2) by auto
    then have "fs_data s1 df ! small = c y ! small"
      using one(4) ys lenc by (simp add: join_inv_def nth_append)
    also have "\<dots> = d ! (10 * small)"
      using nth_rows_seg [of 1 m 0 small d 0 0] ys(2) m len(2) by (simp add: padded_def)
    finally show ?thesis .
  qed
  ultimately show ?thesis
    using one(3) by blast
qed

text \<open>
  C37: for a data file of exactly one row of large blocks, the encoder writes small blocks while the
  decoder reads large ones. Both succeed, and the decoded byte at offset 1 MiB is the byte that was at
  offset 10 MiB.
\<close>

theorem ec_full_row_scrambled:
  assumes "fs_wf s" and "fs_names s (base @ ''.dat'') = Some df" and "fs_data s df = d" and "fs_faults s = []"
    and "\<forall>p \<in> set (shard_names base). \<forall>x. fs_names s p = Some x \<longrightarrow> \<not> fs_readonly s x"
    and "rs_new rs 10 4 = Ok r" and "rs_law rs r" and "\<not> fs_readonly s df"
    and "length d = 10 * 2 ^ 30" and "length d < fuel"
  shows "\<exists>s1 s2 x. write_ec_files fuel rs now base s = Some (Ok s1) \<and>
    write_data_file fuel s1 now base (of_nat (length d)) = Some (Ok s2) \<and>
    fs_names s2 (base @ ''.dat'') = Some x \<and> fs_data s2 x ! (2 ^ 20) = d ! (10 * 2 ^ 20)"
proof -
  have small: "length d < 2 ^ 60" "1 < fuel"
    using assms(9,10) by simp_all
  obtain s1 s2 x xs c where e: "write_ec_files fuel rs now base s = Some (Ok s1)"
      "write_data_file fuel s1 now base (of_nat (length d)) =
        join_shards fuel ERASURE_CODING_LARGE_BLOCK_SIZE ERASURE_CODING_SMALL_BLOCK_SIZE x xs (of_nat (length d)) s2"
      "fs_names s2 (base @ ''.dat'') = Some x" "join_inv x (set xs) c [] s2" "length xs = 10"
      "\<forall>i < 10. c (xs ! i) = encoded_shard d (2 ^ 30) (2 ^ 20) i"
    using encode_then_open [OF assms(1-7) small(1) assms(10,8), of now "of_nat (length d)"] by blast
  have u: "unat (of_nat (length d) :: u64) = length d"
    using small(1) by (intro unat_of_nat_small) simp
  have sizes: "unat ERASURE_CODING_LARGE_BLOCK_SIZE = 2 ^ 30" "10 * 2 ^ 30 < (2 ^ 60 :: nat)"
      "(2 ^ 30 :: nat) = 2 ^ 10 * 2 ^ 20" "0 < (2 ^ 20 :: nat)" "1 < (2 ^ 10 :: nat)"
    by (simp_all add: block_size_defs)
  obtain s3 where "join_shards fuel ERASURE_CODING_LARGE_BLOCK_SIZE ERASURE_CODING_SMALL_BLOCK_SIZE x xs
        (of_nat (length d)) s2 = Some (Ok s3)" "names_kept s2 s3" "fs_data s3 x ! (2 ^ 20) = d ! (10 * 2 ^ 20)"
    using join_shards_full_row [OF e(4-6) sizes(1,2) u assms(9) sizes(3-5) small(2), of ERASURE_CODING_SMALL_BLOCK_SIZE]
    by (elim exE conjE) (rule that)
  then show ?thesis
    using e(1-3) by (auto simp: names_kept_def)
qed


lemma fs_wf_fs_data: "fs_wf (s\<lparr>fs_data := f\<rparr>) \<longleftrightarrow> fs_wf s"
  by (simp add: fs_wf_def)

lemma dat_example_fs_readonly: "\<not> fs_readonly dat_example_fs i"
  by (simp add: dat_example_fs_def example_fs_def)

lemma ex_bytes_differ:
  assumes "i < n" and "j < n" and "i \<noteq> j"
  obtains d :: bytes where "length d = n" and "d ! i \<noteq> d ! j"
proof -
  obtain d :: bytes where "length d = n"
    using Ex_list_of_length by blast
  then show ?thesis
    using assms that [of "d[i := 0, j := 1]"] by simp
qed

theorem ec_full_row_scrambled_witness:
  "\<exists>d s1 s2 x. length d = 10 * 2 ^ 30 \<and> d ! (2 ^ 20) \<noteq> d ! (10 * 2 ^ 20) \<and>
    write_ec_files (Suc (10 * 2 ^ 30)) rs_copy 0 ''v'' (dat_example_fs\<lparr>fs_data := \<lambda>_. d\<rparr>) = Some (Ok s1) \<and>
    write_data_file (Suc (10 * 2 ^ 30)) s1 0 ''v'' (of_nat (length d)) = Some (Ok s2) \<and>
    fs_names s2 (''v'' @ ''.dat'') = Some x \<and> fs_data s2 x ! (2 ^ 20) = d ! (10 * 2 ^ 20)"
proof -
  have "(2 ^ 20 :: nat) < 10 * 2 ^ 30" "(10 * 2 ^ 20 :: nat) < 10 * 2 ^ 30" "(2 ^ 20 :: nat) \<noteq> 10 * 2 ^ 20"
    by simp_all
  then obtain d' :: bytes where len': "length d' = 10 * 2 ^ 30" and ne: "d' ! (2 ^ 20) \<noteq> d' ! (10 * 2 ^ 20)"
    by (rule ex_bytes_differ)
  let ?s = "dat_example_fs\<lparr>fs_data := \<lambda>_. d'\<rparr>"
  have s: "fs_wf ?s" "fs_names ?s (''v'' @ ''.dat'') = Some 0" "fs_data ?s 0 = d'" "fs_faults ?s = []"
      "\<forall>p \<in> set (shard_names ''v''). \<forall>x. fs_names ?s p = Some x \<longrightarrow> \<not> fs_readonly ?s x"
      "rs_new rs_copy 10 4 = Ok ()" "\<not> fs_readonly ?s 0"
    using dat_example_fs_facts(1-3) dat_example_fs_facts(5)
    by (simp_all add: fs_wf_fs_data rs_copy_def dat_example_fs_readonly)
  have "length d' < Suc (10 * 2 ^ 30)"
    using len' by simp
  then show ?thesis
    using ec_full_row_scrambled [OF s(1-6) rs_copy_law s(7) len', of "Suc (10 * 2 ^ 30)" 0] len' ne by blast
qed

end
