(* ===== verification/TopoNode.thy ===== *)
theory TopoNode
  imports Volume EcShards "HOL-Library.AList" "HOL-Library.Monad_Syntax"
begin

section \<open>The tree of data centers, racks and data nodes\<close>

text \<open>
  \<open>topology/node.rs\<close>, \<open>data_node.rs\<close>, \<open>rack.rs\<close> and \<open>data_center.rs\<close>. The nodes are shared
  objects with links to their parent and their children, so they live in a store \<open>net\<close> that maps
  references to nodes; a data node has a second record for what \<open>DataNode\<close> adds to \<open>NodeImpl\<close>.
  Concurrent maps that the code iterates are association lists, in the order of the iteration. The
  counters are integers. Walking up the parents or down the children ends only because the links
  form a tree, so those walks are partial functions, \<^term>\<open>None\<close> when they do not end.

  The lemmas say what an adjustment does to the whole tree: the links stay, only the adjusted node
  departs from being the sum of its children, and a node's largest volume id stays an upper bound of
  its children's.
\<close>

subsection \<open>Nodes\<close>

type_synonym nref = nat

datatype node_type = NoneNode | TopologyNode | DataNodeNode | RackNode | DataCenterNode

definition is_data_node :: "node_type \<Rightarrow> bool" where
  "is_data_node t \<longleftrightarrow> t = DataNodeNode"

fun node_type_display :: "node_type \<Rightarrow> string" where
  "node_type_display DataNodeNode = ''data_node''"
| "node_type_display RackNode = ''rack''"
| "node_type_display DataCenterNode = ''data_center''"
| "node_type_display TopologyNode = ''topology''"
| "node_type_display NoneNode = ''none''"

record node =
  nd_id :: string
  nd_volume_count :: int
  nd_active_volume_count :: int
  nd_ec_shard_count :: int
  nd_max_volume_count :: int
  nd_max_volume_id :: volume_id
  nd_parent :: "nref option"
  nd_children :: "(string \<times> nref) list"
  nd_type :: node_type

definition node_new :: "node_type \<Rightarrow> string \<Rightarrow> node" where
  "node_new t i =
     \<lparr>nd_id = i, nd_volume_count = 0, nd_active_volume_count = 0, nd_ec_shard_count = 0,
      nd_max_volume_count = 0, nd_max_volume_id = 0, nd_parent = None, nd_children = [], nd_type = t\<rparr>"

record data_node =
  dn_ip :: string
  dn_port :: u16
  dn_public_url :: string
  dn_last_seen :: int
  dn_volumes :: "(volume_id \<times> volume_info) list"
  dn_ec_shards :: "(volume_id \<times> ec_volume_info) list"
  dn_ec_shard_count :: u64

record net =
  net_nodes :: "nref \<Rightarrow> node"
  net_dns :: "nref \<Rightarrow> data_node"
  net_next :: nref

definition upd_node :: "nref \<Rightarrow> (node \<Rightarrow> node) \<Rightarrow> net \<Rightarrow> net" where
  "upd_node n f net = net\<lparr>net_nodes := (net_nodes net)(n := f (net_nodes net n))\<rparr>"

definition upd_dn :: "nref \<Rightarrow> (data_node \<Rightarrow> data_node) \<Rightarrow> net \<Rightarrow> net" where
  "upd_dn n f net = net\<lparr>net_dns := (net_dns net)(n := f (net_dns net n))\<rparr>"

text \<open>\<open>Arc::new\<close> of a node.\<close>

definition alloc_node :: "node \<Rightarrow> net \<Rightarrow> nref \<times> net" where
  "alloc_node nd net =
     (net_next net, net\<lparr>net_nodes := (net_nodes net)(net_next net := nd), net_next := Suc (net_next net)\<rparr>)"

definition free_space :: "node \<Rightarrow> int" where
  "free_space nd =
     (let free_volume_slot_count = nd_max_volume_count nd - nd_volume_count nd in
      if nd_ec_shard_count nd > 0
      then free_volume_slot_count - nd_ec_shard_count nd div 10 - 1
      else free_volume_slot_count)"

definition downcast :: "node_type \<Rightarrow> net \<Rightarrow> nref \<Rightarrow> (nref, volume_error) result" where
  "downcast t net n = (if nd_type (net_nodes net n) = t then Ok n else Err VWrongNodeType)"

abbreviation downcast_node :: "net \<Rightarrow> nref \<Rightarrow> (nref, volume_error) result" where
  "downcast_node \<equiv> downcast DataNodeNode"

abbreviation downcast_rack :: "net \<Rightarrow> nref \<Rightarrow> (nref, volume_error) result" where
  "downcast_rack \<equiv> downcast RackNode"

abbreviation downcast_data_center :: "net \<Rightarrow> nref \<Rightarrow> (nref, volume_error) result" where
  "downcast_data_center \<equiv> downcast DataCenterNode"

subsection \<open>Reserving a slot\<close>

text \<open>The loop over the children: the child the random number falls into, and what is left of it.\<close>

fun pick_child :: "net \<Rightarrow> nref list \<Rightarrow> int \<Rightarrow> (nref \<times> int) option" where
  "pick_child net [] rand = None"
| "pick_child net (c # cs) rand =
     (let fs = free_space (net_nodes net c) in
      if fs \<le> 0 then pick_child net cs rand
      else if rand \<ge> fs then pick_child net cs (rand - fs)
      else Some (c, rand))"

partial_function (option) reserve_one_volume ::
    "net \<Rightarrow> nref \<Rightarrow> int \<Rightarrow> (nref, volume_error) result option" where
  "reserve_one_volume net n rand =
     (case pick_child net (map snd (nd_children (net_nodes net n))) rand of
        None \<Rightarrow>
          Some (Err (VNoFreeSpace (''no free volumes found '' @ nd_id (net_nodes net n)
            @ '', node type: '' @ node_type_display NoneNode)))
      | Some (c, r) \<Rightarrow>
          if is_data_node (nd_type (net_nodes net c)) \<and> free_space (net_nodes net c) > 0
          then Some (downcast_node net c)
          else reserve_one_volume net c r)"

subsection \<open>Adjusting the counters\<close>

datatype counter = VolumeCount | ActiveVolumeCount | EcShardCount | MaxVolumeCount

fun counter_of :: "counter \<Rightarrow> node \<Rightarrow> int" where
  "counter_of VolumeCount = nd_volume_count"
| "counter_of ActiveVolumeCount = nd_active_volume_count"
| "counter_of EcShardCount = nd_ec_shard_count"
| "counter_of MaxVolumeCount = nd_max_volume_count"

fun fetch_add :: "counter \<Rightarrow> int \<Rightarrow> node \<Rightarrow> node" where
  "fetch_add VolumeCount d nd = nd\<lparr>nd_volume_count := nd_volume_count nd + d\<rparr>"
| "fetch_add ActiveVolumeCount d nd = nd\<lparr>nd_active_volume_count := nd_active_volume_count nd + d\<rparr>"
| "fetch_add EcShardCount d nd = nd\<lparr>nd_ec_shard_count := nd_ec_shard_count nd + d\<rparr>"
| "fetch_add MaxVolumeCount d nd = nd\<lparr>nd_max_volume_count := nd_max_volume_count nd + d\<rparr>"

partial_function (option) adjust_counter :: "counter \<Rightarrow> int \<Rightarrow> nref \<Rightarrow> net \<Rightarrow> net option" where
  "adjust_counter k d n net =
     (let net = upd_node n (fetch_add k d) net in
      case nd_parent (net_nodes net n) of
        Some parent \<Rightarrow> adjust_counter k d parent net
      | None \<Rightarrow> Some net)"

definition adjust_volume_count :: "int \<Rightarrow> nref \<Rightarrow> net \<Rightarrow> net option" where
  "adjust_volume_count = adjust_counter VolumeCount"

definition adjust_active_volume_count :: "int \<Rightarrow> nref \<Rightarrow> net \<Rightarrow> net option" where
  "adjust_active_volume_count = adjust_counter ActiveVolumeCount"

definition adjust_ec_shard_count :: "int \<Rightarrow> nref \<Rightarrow> net \<Rightarrow> net option" where
  "adjust_ec_shard_count = adjust_counter EcShardCount"

definition adjust_max_volume_count :: "int \<Rightarrow> nref \<Rightarrow> net \<Rightarrow> net option" where
  "adjust_max_volume_count = adjust_counter MaxVolumeCount"

partial_function (option) adjust_max_volume_id :: "volume_id \<Rightarrow> nref \<Rightarrow> net \<Rightarrow> net option" where
  "adjust_max_volume_id vid n net =
     (if nd_max_volume_id (net_nodes net n) < vid then
        let net = upd_node n (\<lambda>nd. nd\<lparr>nd_max_volume_id := vid\<rparr>) net in
        case nd_parent (net_nodes net n) of
          Some parent \<Rightarrow> adjust_max_volume_id vid parent net
        | None \<Rightarrow> Some net
      else Some net)"

subsection \<open>Linking\<close>

definition set_parent :: "nref option \<Rightarrow> nref \<Rightarrow> net \<Rightarrow> net" where
  "set_parent p n = upd_node n (\<lambda>nd. nd\<lparr>nd_parent := p\<rparr>)"

definition link_child_node :: "nref \<Rightarrow> nref \<Rightarrow> net \<Rightarrow> net option" where
  "link_child_node n child net =
     (let c = net_nodes net child in
      if nd_id c \<in> fst ` set (nd_children (net_nodes net n)) then Some net
      else do {
        net \<leftarrow> adjust_max_volume_count (nd_max_volume_count c) n net;
        net \<leftarrow> adjust_max_volume_id (nd_max_volume_id c) n net;
        net \<leftarrow> adjust_volume_count (nd_volume_count c) n net;
        net \<leftarrow> adjust_ec_shard_count (nd_ec_shard_count c) n net;
        net \<leftarrow> adjust_active_volume_count (nd_active_volume_count c) n net;
        let net = set_parent (Some n) child net;
        Some (upd_node n (\<lambda>nd. nd\<lparr>nd_children := nd_children nd @ [(nd_id c, child)]\<rparr>) net)
      })"

definition unlink_child_node :: "nref \<Rightarrow> string \<Rightarrow> net \<Rightarrow> net option" where
  "unlink_child_node n i net =
     (case map_of (nd_children (net_nodes net n)) i of
        None \<Rightarrow> Some net
      | Some child \<Rightarrow> do {
          let net = upd_node n (\<lambda>nd. nd\<lparr>nd_children := AList.delete i (nd_children nd)\<rparr>) net;
          let net = set_parent None child net;
          let c = net_nodes net child;
          net \<leftarrow> adjust_max_volume_count (- nd_max_volume_count c) n net;
          net \<leftarrow> adjust_volume_count (- nd_volume_count c) n net;
          net \<leftarrow> adjust_ec_shard_count (- nd_ec_shard_count c) n net;
          adjust_active_volume_count (- nd_active_volume_count c) n net
        })"

subsection \<open>Data centers and racks\<close>

definition get_or_create_rack :: "nref \<Rightarrow> string \<Rightarrow> net \<Rightarrow> ((nref, volume_error) result \<times> net) option" where
  "get_or_create_rack dc i net =
     (case map_of (nd_children (net_nodes net dc)) i of
        Some rack \<Rightarrow> Some (downcast_rack net rack, net)
      | None \<Rightarrow> do {
          let (rack, net) = alloc_node (node_new RackNode i) net;
          net \<leftarrow> link_child_node dc rack net;
          Some (Ok rack, net)
        })"

definition data_node_new ::
    "string \<Rightarrow> string \<Rightarrow> u16 \<Rightarrow> string \<Rightarrow> int \<Rightarrow> net \<Rightarrow> nref \<times> net" where
  "data_node_new i ip port public_url max_volume_count net =
     (let (dn, net) = alloc_node ((node_new DataNodeNode i)\<lparr>nd_max_volume_count := max_volume_count\<rparr>) net
      in (dn, upd_dn dn (\<lambda>_. \<lparr>dn_ip = ip, dn_port = port, dn_public_url = public_url, dn_last_seen = 0,
            dn_volumes = [], dn_ec_shards = [], dn_ec_shard_count = 0\<rparr>) net))"

text \<open>The downcast of an existing child is unwrapped.\<close>

definition get_or_create_data_node ::
    "nref \<Rightarrow> string \<Rightarrow> string \<Rightarrow> u16 \<Rightarrow> string \<Rightarrow> int \<Rightarrow> net \<Rightarrow> ((nref, unit) result \<times> net) option" where
  "get_or_create_data_node rack i ip port public_url max_volume_count net =
     (case map_of (nd_children (net_nodes net rack)) i of
        Some dn \<Rightarrow>
          Some (case downcast_node net dn of Ok dn \<Rightarrow> Ok dn | _ \<Rightarrow> Panic, net)
      | None \<Rightarrow> do {
          let (dn, net) = data_node_new i ip port public_url max_volume_count net;
          net \<leftarrow> link_child_node rack dn net;
          Some (Ok dn, net)
        })"

definition parent_id :: "net \<Rightarrow> nref \<Rightarrow> string" where
  "parent_id net n =
     (case nd_parent (net_nodes net n) of Some p \<Rightarrow> nd_id (net_nodes net p) | None \<Rightarrow> [])"

definition rack_data_center_id :: "net \<Rightarrow> nref \<Rightarrow> string" where
  "rack_data_center_id = parent_id"

subsection \<open>Data nodes\<close>

definition dn_url :: "data_node \<Rightarrow> string" where
  "dn_url dn = dn_ip dn @ '':'' @ fmt_dec (unat (dn_port dn))"

definition rack_id :: "net \<Rightarrow> nref \<Rightarrow> string" where
  "rack_id = parent_id"

definition data_center_id :: "net \<Rightarrow> nref \<Rightarrow> string" where
  "data_center_id net n =
     (case nd_parent (net_nodes net n) of
        Some rack \<Rightarrow>
          (case nd_parent (net_nodes net rack) of
             Some dc \<Rightarrow> nd_id (net_nodes net dc)
           | None \<Rightarrow> [])
      | None \<Rightarrow> [])"

definition get_volume :: "net \<Rightarrow> nref \<Rightarrow> volume_id \<Rightarrow> volume_info option" where
  "get_volume net n vid = map_of (dn_volumes (net_dns net n)) vid"

definition insert_volume :: "nref \<Rightarrow> volume_info \<Rightarrow> net \<Rightarrow> net" where
  "insert_volume n v = upd_dn n (\<lambda>dn. dn\<lparr>dn_volumes := AList.update (vi_id v) v (dn_volumes dn)\<rparr>)"

definition remove_volume :: "nref \<Rightarrow> volume_id \<Rightarrow> net \<Rightarrow> net" where
  "remove_volume n vid = upd_dn n (\<lambda>dn. dn\<lparr>dn_volumes := AList.delete vid (dn_volumes dn)\<rparr>)"

definition add_or_update_volume :: "volume_info \<Rightarrow> nref \<Rightarrow> net \<Rightarrow> (bool \<times> net) option" where
  "add_or_update_volume v n net =
     (if get_volume net n (vi_id v) \<noteq> None then Some (False, insert_volume n v net)
      else do {
        net \<leftarrow> adjust_volume_count 1 n net;
        net \<leftarrow> (if vi_read_only v then Some net else adjust_active_volume_count 1 n net);
        net \<leftarrow> adjust_max_volume_id (vi_id v) n net;
        Some (True, insert_volume n v net)
      })"

text \<open>Removing a volume that is there, with the read-only flag that decides about the active count.\<close>

definition drop_volume :: "bool \<Rightarrow> volume_id \<Rightarrow> nref \<Rightarrow> net \<Rightarrow> net option" where
  "drop_volume read_only vid n net = do {
     net \<leftarrow> adjust_volume_count (- 1) n (remove_volume n vid net);
     if read_only then Some net else adjust_active_volume_count (- 1) n net
   }"

fun delete_volumes :: "volume_info list \<Rightarrow> nref \<Rightarrow> net \<Rightarrow> net option" where
  "delete_volumes [] n net = Some net"
| "delete_volumes (v # vs) n net = do {
     net \<leftarrow> (case get_volume net n (vi_id v) of
               Some _ \<Rightarrow> drop_volume (vi_read_only v) (vi_id v) n net
             | None \<Rightarrow> Some net);
     delete_volumes vs n net
   }"

fun add_volumes :: "volume_info list \<Rightarrow> nref \<Rightarrow> net \<Rightarrow> (volume_info list \<times> net) option" where
  "add_volumes [] n net = Some ([], net)"
| "add_volumes (v # vs) n net = do {
     (is_new, net) \<leftarrow> add_or_update_volume v n net;
     (new_volumes, net) \<leftarrow> add_volumes vs n net;
     Some (if is_new then v # new_volumes else new_volumes, net)
   }"

definition delta_update_volumes :: "volume_info list \<Rightarrow> volume_info list \<Rightarrow> nref \<Rightarrow> net \<Rightarrow> net option" where
  "delta_update_volumes new_volumes deleted_volumes n net = do {
     net \<leftarrow> delete_volumes deleted_volumes n net;
     (_, net) \<leftarrow> add_volumes new_volumes n net;
     Some net
   }"

fun drop_ids :: "volume_id list \<Rightarrow> nref \<Rightarrow> net \<Rightarrow> (volume_info list \<times> net) option" where
  "drop_ids [] n net = Some ([], net)"
| "drop_ids (i # is) n net =
     (case get_volume net n i of
        Some v \<Rightarrow> do {
          net \<leftarrow> drop_volume (vi_read_only v) i n net;
          (deleted_volumes, net) \<leftarrow> drop_ids is n net;
          Some (v # deleted_volumes, net)
        }
      | None \<Rightarrow> drop_ids is n net)"

definition update_volumes ::
    "volume_info list \<Rightarrow> nref \<Rightarrow> net \<Rightarrow> (volume_info list \<times> volume_info list \<times> net) option" where
  "update_volumes volume_infos n net = do {
     let actual = set (map vi_id volume_infos);
     let deleted_id = map (vi_id \<circ> snd) (filter (\<lambda>(i, _). i \<notin> actual) (dn_volumes (net_dns net n)));
     (new_volumes, net) \<leftarrow> add_volumes volume_infos n net;
     (deleted_volumes, net) \<leftarrow> drop_ids deleted_id n net;
     Some (new_volumes, deleted_volumes, net)
   }"


subsection \<open>The shape of the tree\<close>

fun level :: "node_type \<Rightarrow> nat" where
  "level DataNodeNode = 0"
| "level RackNode = 1"
| "level DataCenterNode = 2"
| "level TopologyNode = 3"
| "level NoneNode = 4"

abbreviation nlevel :: "net \<Rightarrow> nref \<Rightarrow> nat" where
  "nlevel net n \<equiv> level (nd_type (net_nodes net n))"

definition linked :: "net \<Rightarrow> bool" where
  "linked net \<longleftrightarrow>
     (\<forall>n i c. (i, c) \<in> set (nd_children (net_nodes net n)) \<longrightarrow>
        nd_parent (net_nodes net c) = Some n \<and> nd_id (net_nodes net c) = i) \<and>
     (\<forall>c p. nd_parent (net_nodes net c) = Some p \<longrightarrow>
        (nd_id (net_nodes net c), c) \<in> set (nd_children (net_nodes net p)) \<and>
        Suc (nlevel net c) = nlevel net p) \<and>
     (\<forall>n. distinct (map fst (nd_children (net_nodes net n))))"

text \<open>Only counters differ.\<close>

definition same_shape :: "net \<Rightarrow> net \<Rightarrow> bool" where
  "same_shape net net' \<longleftrightarrow> net_dns net' = net_dns net \<and> net_next net' = net_next net \<and>
     (\<forall>n. nd_id (net_nodes net' n) = nd_id (net_nodes net n) \<and>
        nd_parent (net_nodes net' n) = nd_parent (net_nodes net n) \<and>
        nd_children (net_nodes net' n) = nd_children (net_nodes net n) \<and>
        nd_type (net_nodes net' n) = nd_type (net_nodes net n))"

definition same_counters :: "net \<Rightarrow> net \<Rightarrow> bool" where
  "same_counters net net' \<longleftrightarrow> (\<forall>k n. counter_of k (net_nodes net' n) = counter_of k (net_nodes net n))"

lemma same_shape_refl [simp]: "same_shape net net"
  by (simp add: same_shape_def)

lemma same_shape_trans: "same_shape a b \<Longrightarrow> same_shape b c \<Longrightarrow> same_shape a c"
  by (simp add: same_shape_def)

lemma linked_same_shape: "same_shape net net' \<Longrightarrow> linked net' \<longleftrightarrow> linked net"
  by (simp add: same_shape_def linked_def)

lemma fetch_add_shape [simp]:
  "nd_id (fetch_add k d nd) = nd_id nd" "nd_parent (fetch_add k d nd) = nd_parent nd"
  "nd_children (fetch_add k d nd) = nd_children nd" "nd_type (fetch_add k d nd) = nd_type nd"
  "nd_max_volume_id (fetch_add k d nd) = nd_max_volume_id nd"
  by (cases k; simp)+

lemma counter_fetch_add [simp]:
  "counter_of k (fetch_add j d nd) = counter_of k nd + (if k = j then d else 0)"
  by (cases k; cases j; simp)

lemma upd_node_simps [simp]:
  "net_nodes (upd_node n f net) = (net_nodes net)(n := f (net_nodes net n))"
  "net_dns (upd_node n f net) = net_dns net" "net_next (upd_node n f net) = net_next net"
  by (simp_all add: upd_node_def)

lemma upd_dn_simps [simp]:
  "net_dns (upd_dn n f net) = (net_dns net)(n := f (net_dns net n))"
  "net_nodes (upd_dn n f net) = net_nodes net" "net_next (upd_dn n f net) = net_next net"
  by (simp_all add: upd_dn_def)

lemma linked_parent_less: "linked net \<Longrightarrow> nd_parent (net_nodes net c) = Some p \<Longrightarrow> nlevel net c < nlevel net p"
  unfolding linked_def by (metis lessI)

lemma linked_child: "linked net \<Longrightarrow> (i, c) \<in> set (nd_children (net_nodes net n)) \<Longrightarrow> nd_parent (net_nodes net c) = Some n"
  unfolding linked_def by blast

lemma level_le: "level t \<le> 4"
  by (cases t) simp_all

subsection \<open>Counters are sums\<close>

definition child_sum :: "counter \<Rightarrow> net \<Rightarrow> nref \<Rightarrow> int" where
  "child_sum k net n = (\<Sum>(_, c) \<leftarrow> nd_children (net_nodes net n). counter_of k (net_nodes net c))"

text \<open>What a node's counter says beyond the sum over its children.\<close>

definition excess :: "counter \<Rightarrow> net \<Rightarrow> nref \<Rightarrow> int" where
  "excess k net n = counter_of k (net_nodes net n) - child_sum k net n"

lemma sum_children_update:
  assumes "distinct (map snd cs)"
  shows "(\<Sum>(i, c) \<leftarrow> cs. f c + (if c = n then d else (0 :: int))) =
    (\<Sum>(i, c) \<leftarrow> cs. f c) + (if n \<in> snd ` set cs then d else 0)"
  using assms by (induction cs) (force simp: image_iff)+

lemma linked_distinct_refs:
  assumes "linked net"
  shows "distinct (map snd (nd_children (net_nodes net n)))"
proof -
  have d: "distinct (map fst (nd_children (net_nodes net n)))"
    using assms by (simp add: linked_def)
  have "i = j" if "(i, c) \<in> set (nd_children (net_nodes net n))" "(j, c) \<in> set (nd_children (net_nodes net n))" for i j c
    using assms that unfolding linked_def by metis
  then have "inj_on snd (set (nd_children (net_nodes net n)))"
    by (auto simp: inj_on_def)
  then show ?thesis
    using d by (simp add: distinct_map)
qed

lemma child_sum_upd:
  assumes "linked net"
  shows "child_sum k (upd_node n (fetch_add j d) net) m =
    child_sum k net m + (if k = j \<and> nd_parent (net_nodes net n) = Some m then d else 0)"
proof -
  let ?cs = "nd_children (net_nodes net m)"
  have "n \<in> snd ` set ?cs \<longleftrightarrow> nd_parent (net_nodes net n) = Some m"
    using assms unfolding linked_def by force
  moreover have "child_sum k (upd_node n (fetch_add j d) net) m =
      (\<Sum>(_, c) \<leftarrow> ?cs. counter_of k (net_nodes net c) + (if c = n then (if k = j then d else 0) else 0))"
    unfolding child_sum_def
    by (rule arg_cong [of _ _ sum_list], rule map_cong) (auto split: prod.splits)
  ultimately show ?thesis
    using sum_children_update [OF linked_distinct_refs [OF assms, of m], of "\<lambda>c. counter_of k (net_nodes net c)" n "if k = j then d else 0"]
    by (simp add: child_sum_def)
qed

lemma adjust_counter_excess:
  assumes "linked net"
  shows "\<exists>net'. adjust_counter j d n net = Some net' \<and> same_shape net net' \<and>
    (\<forall>m. nd_max_volume_id (net_nodes net' m) = nd_max_volume_id (net_nodes net m)) \<and>
    (\<forall>k m. excess k net' m = excess k net m + (if k = j \<and> m = n then d else 0))"
  using assms
proof (induction "4 - nlevel net n" arbitrary: n net rule: less_induct)
  case less
  let ?net = "upd_node n (fetch_add j d) net"
  have shape: "same_shape net ?net" and lk: "linked ?net"
    using less.prems linked_same_shape [of net ?net] by (auto simp: same_shape_def)
  have ex: "excess k ?net m = excess k net m + (if k = j \<and> m = n then d else 0)
      - (if k = j \<and> nd_parent (net_nodes net n) = Some m then d else 0)" for k m
    by (simp add: excess_def child_sum_upd [OF less.prems])
  show ?case
  proof (cases "nd_parent (net_nodes net n)")
    case None
    then show ?thesis
      using shape ex by (subst adjust_counter.simps) (auto simp: Let_def)
  next
    case (Some p)
    have "nlevel net n < nlevel net p"
      by (rule linked_parent_less [OF less.prems Some])
    then have "4 - nlevel ?net p < 4 - nlevel net n"
      using level_le [of "nd_type (net_nodes net p)"] by (auto simp: fun_upd_def)
    from less.hyps [OF this lk] obtain net' where net':
        "adjust_counter j d p ?net = Some net'" "same_shape ?net net'"
        "\<forall>m. nd_max_volume_id (net_nodes net' m) = nd_max_volume_id (net_nodes ?net m)"
        "\<forall>k m. excess k net' m = excess k ?net m + (if k = j \<and> m = p then d else 0)"
      by blast
    have "adjust_counter j d n net = Some net'"
      using Some net'(1) by (subst adjust_counter.simps) (simp add: Let_def)
    moreover have "same_shape net net'"
      by (rule same_shape_trans [OF shape net'(2)])
    moreover have "excess k net' m = excess k net m + (if k = j \<and> m = n then d else 0)" for k m
      using net'(4) ex Some by simp
    ultimately show ?thesis
      using net'(3) by (auto split: if_splits)
  qed
qed


subsection \<open>The largest volume id\<close>

abbreviation nmax :: "net \<Rightarrow> nref \<Rightarrow> volume_id" where
  "nmax net n \<equiv> nd_max_volume_id (net_nodes net n)"

definition max_ok :: "net \<Rightarrow> bool" where
  "max_ok net \<longleftrightarrow> (\<forall>n i c. (i, c) \<in> set (nd_children (net_nodes net n)) \<longrightarrow> nmax net c \<le> nmax net n)"

lemma adjust_max_volume_id_ok:
  assumes "linked net"
    and "\<forall>m i c. (i, c) \<in> set (nd_children (net_nodes net m)) \<longrightarrow> nmax net c \<le> nmax net m \<or> m = n \<and> nmax net c \<le> vid"
  shows "\<exists>net'. adjust_max_volume_id vid n net = Some net' \<and> same_shape net net' \<and> same_counters net net' \<and>
    max_ok net' \<and> (\<forall>m. nmax net m \<le> nmax net' m) \<and> vid \<le> nmax net' n"
  using assms
proof (induction "4 - nlevel net n" arbitrary: n net rule: less_induct)
  case less
  show ?case
  proof (cases "nmax net n < vid")
    case False
    have "nmax net c \<le> nmax net m" if "(i, c) \<in> set (nd_children (net_nodes net m))" for m i c
    proof -
      have "nmax net c \<le> nmax net m \<or> m = n \<and> nmax net c \<le> vid"
        using less.prems(2) that by blast
      then show ?thesis
        using False by (auto simp: not_less intro: order_trans)
    qed
    then have "max_ok net"
      unfolding max_ok_def by blast
    then show ?thesis
      using False by (subst adjust_max_volume_id.simps) (auto simp: same_counters_def)
  next
    case True
    let ?net = "upd_node n (\<lambda>nd. nd\<lparr>nd_max_volume_id := vid\<rparr>) net"
    have shape: "same_shape net ?net" and lk: "linked ?net"
      using less.prems(1) linked_same_shape [of net ?net] by (auto simp: same_shape_def)
    have cnt: "same_counters net ?net"
      unfolding same_counters_def
    proof (intro allI)
      fix k m
      show "counter_of k (net_nodes ?net m) = counter_of k (net_nodes net m)"
        by (cases k) simp_all
    qed
    have grow: "nmax net m \<le> nmax ?net m" for m
      using True by (simp add: order_less_imp_le)
    have edge: "nmax ?net c \<le> nmax ?net m \<or> nd_parent (net_nodes net n) = Some m \<and> nmax ?net c \<le> vid"
      if "(i, c) \<in> set (nd_children (net_nodes ?net m))" for m i c
    proof -
      have "(i, c) \<in> set (nd_children (net_nodes net m))"
        using that by (simp split: if_splits)
      then have "nd_parent (net_nodes net c) = Some m" "nmax net c \<le> nmax net m \<or> m = n \<and> nmax net c \<le> vid"
        using linked_child [OF less.prems(1)] less.prems(2) by blast+
      then show ?thesis
        using True grow [of m] by (cases "c = n") (auto split: if_splits)
    qed
    show ?thesis
    proof (cases "nd_parent (net_nodes net n)")
      case None
      then have "max_ok ?net"
        using edge unfolding max_ok_def by auto
      then show ?thesis
        using None True shape cnt grow by (subst adjust_max_volume_id.simps) (auto simp: Let_def)
    next
      case (Some p)
      have "nlevel net n < nlevel net p"
        by (rule linked_parent_less [OF less.prems(1) Some])
      then have "4 - nlevel ?net p < 4 - nlevel net n"
        using level_le [of "nd_type (net_nodes net p)"] by (auto simp: fun_upd_def)
      from less.hyps [OF this lk] edge Some obtain net' where net':
          "adjust_max_volume_id vid p ?net = Some net'" "same_shape ?net net'" "same_counters ?net net'" "max_ok net'"
          "\<forall>m. nmax ?net m \<le> nmax net' m"
        by (metis option.inject)
      have "adjust_max_volume_id vid n net = Some net'"
        using Some True net'(1) by (subst adjust_max_volume_id.simps) (simp add: Let_def)
      moreover have "same_counters net net'"
        using cnt net'(3) unfolding same_counters_def by simp
      moreover have "\<forall>m. nmax net m \<le> nmax net' m"
        using grow net'(5) order_trans by blast
      moreover have "vid \<le> nmax net' n"
        using net'(5) [rule_format, of n] by simp
      ultimately show ?thesis
        using same_shape_trans [OF shape net'(2)] net'(4) by blast
    qed
  qed
qed

end
