(* ===== verification/TopoTree.thy ===== *)
theory TopoTree
  imports TopoNode
begin

section \<open>The tree stays consistent\<close>

text \<open>
  The invariant \<open>tree_ok\<close> of the store of \<open>TopoNode\<close>: links go both ways, the counters of every inner
  node are the sums over its children, the volume counter of a linked data node counts its volumes, and
  largest volume ids are upper bounds. Volume reports, linking and unlinking keep it, and all of them finish.
\<close>

subsection \<open>The invariant of the tree\<close>

definition dn_ok :: "net \<Rightarrow> nref \<Rightarrow> bool" where
  "dn_ok net n \<longleftrightarrow>
     nd_volume_count (net_nodes net n) = int (length (dn_volumes (net_dns net n))) \<and>
     distinct (map fst (dn_volumes (net_dns net n))) \<and>
     (\<forall>(i, v) \<in> set (dn_volumes (net_dns net n)). vi_id v = i \<and> i \<le> nmax net n)"

definition unused :: "net \<Rightarrow> nref \<Rightarrow> bool" where
  "unused net n \<longleftrightarrow> nd_parent (net_nodes net n) = None \<and> nd_children (net_nodes net n) = [] \<and>
     nd_type (net_nodes net n) = NoneNode \<and> (\<forall>k. counter_of k (net_nodes net n) = 0)"

definition tree_ok :: "net \<Rightarrow> bool" where
  "tree_ok net \<longleftrightarrow> linked net \<and> max_ok net \<and> (\<forall>n \<ge> net_next net. unused net n) \<and>
     (\<forall>n. nd_type (net_nodes net n) = DataNodeNode \<longrightarrow> nd_children (net_nodes net n) = []) \<and>
     (\<forall>n k. nd_type (net_nodes net n) \<noteq> DataNodeNode \<longrightarrow> excess k net n = 0) \<and>
     (\<forall>n. nd_type (net_nodes net n) = DataNodeNode \<longrightarrow> nd_parent (net_nodes net n) \<noteq> None \<longrightarrow> dn_ok net n)"

lemma excess_leaf: "nd_children (net_nodes net n) = [] \<Longrightarrow> excess k net n = counter_of k (net_nodes net n)"
  by (simp add: excess_def child_sum_def)

lemma excess_same_counters:
  assumes "same_shape net net'" and "same_counters net net'"
  shows "excess k net' n = excess k net n"
  using assms by (simp add: excess_def child_sum_def same_shape_def same_counters_def)


text \<open>The invariant with the description of one data node left open, while its volumes change.\<close>

definition tree_but :: "nref \<Rightarrow> net \<Rightarrow> bool" where
  "tree_but x net \<longleftrightarrow> linked net \<and> max_ok net \<and> (\<forall>n \<ge> net_next net. unused net n) \<and>
     nd_type (net_nodes net x) = DataNodeNode \<and>
     (\<forall>n. nd_type (net_nodes net n) = DataNodeNode \<longrightarrow> nd_children (net_nodes net n) = []) \<and>
     (\<forall>n k. nd_type (net_nodes net n) \<noteq> DataNodeNode \<longrightarrow> excess k net n = 0) \<and>
     (\<forall>n. n \<noteq> x \<longrightarrow> nd_type (net_nodes net n) = DataNodeNode \<longrightarrow> nd_parent (net_nodes net n) \<noteq> None \<longrightarrow> dn_ok net n)"

lemma tree_but_of_ok: "tree_ok net \<Longrightarrow> nd_type (net_nodes net x) = DataNodeNode \<Longrightarrow> tree_but x net"
  by (simp add: tree_ok_def tree_but_def)

lemma tree_ok_of_but: "tree_but x net \<Longrightarrow> dn_ok net x \<Longrightarrow> tree_ok net"
  unfolding tree_ok_def tree_but_def by metis

lemma tree_but_upd_dn: "tree_but x net \<Longrightarrow> tree_but x (upd_dn x f net)"
  by (simp add: tree_but_def linked_def max_ok_def excess_def child_sum_def dn_ok_def unused_def)

lemma unused_not_data: "unused net n \<Longrightarrow> nd_type (net_nodes net n) \<noteq> DataNodeNode"
  by (simp add: unused_def)

lemma tree_but_adjust_counter:
  assumes "tree_but x net"
  shows "\<exists>net'. adjust_counter j d x net = Some net' \<and> tree_but x net' \<and> same_shape net net' \<and>
    nmax net' = nmax net \<and> (\<forall>k. counter_of k (net_nodes net' x) = counter_of k (net_nodes net x) + (if k = j then d else 0))"
proof -
  have lk: "linked net"
    using assms by (simp add: tree_but_def)
  obtain net' where net': "adjust_counter j d x net = Some net'" "same_shape net net'"
      "\<forall>m. nmax net' m = nmax net m"
      "\<forall>k m. excess k net' m = excess k net m + (if k = j \<and> m = x then d else 0)"
    using adjust_counter_excess [OF lk] by blast
  have leaf: "counter_of k (net_nodes net' m) = counter_of k (net_nodes net m) + (if k = j \<and> m = x then d else 0)"
    if "nd_children (net_nodes net m) = []" for k m
    using net'(2,4) that excess_leaf [of net m k] excess_leaf [of net' m k] by (simp add: same_shape_def)
  have t: "linked net" "max_ok net" "\<forall>n \<ge> net_next net. unused net n" "nd_type (net_nodes net x) = DataNodeNode"
      "\<forall>n. nd_type (net_nodes net n) = DataNodeNode \<longrightarrow> nd_children (net_nodes net n) = []"
      "\<forall>n k. nd_type (net_nodes net n) \<noteq> DataNodeNode \<longrightarrow> excess k net n = 0"
      "\<forall>n. n \<noteq> x \<longrightarrow> nd_type (net_nodes net n) = DataNodeNode \<longrightarrow> nd_parent (net_nodes net n) \<noteq> None \<longrightarrow> dn_ok net n"
    using assms by (auto simp: tree_but_def)
  have "tree_but x net'"
    unfolding tree_but_def
  proof (intro conjI allI impI)
    show "linked net'"
      using t(1) linked_same_shape [OF net'(2)] by simp
    show "max_ok net'"
      using t(2) net'(2,3) by (simp add: max_ok_def same_shape_def)
    show "unused net' n" if "net_next net' \<le> n" for n
    proof -
      have "unused net n"
        using t(3) that net'(2) by (simp add: same_shape_def)
      moreover from this have "n \<noteq> x"
        using t(4) by (auto simp: unused_def)
      ultimately show ?thesis
        using net'(2) leaf [of n] by (simp add: unused_def same_shape_def)
    qed
    show "nd_type (net_nodes net' x) = DataNodeNode"
      using t(4) net'(2) by (simp add: same_shape_def)
    show "nd_children (net_nodes net' n) = []" if "nd_type (net_nodes net' n) = DataNodeNode" for n
      using t(5) that net'(2) by (simp add: same_shape_def)
    show "excess k net' n = 0" if "nd_type (net_nodes net' n) \<noteq> DataNodeNode" for n k
      using t(4,6) that net'(2,4) by (auto simp: same_shape_def)
    show "dn_ok net' n"
      if "n \<noteq> x" "nd_type (net_nodes net' n) = DataNodeNode" "nd_parent (net_nodes net' n) \<noteq> None" for n
    proof -
      have "dn_ok net n" "nd_children (net_nodes net n) = []"
        using t(5,7) that net'(2) by (auto simp: same_shape_def)
      then show ?thesis
        using leaf [of n VolumeCount] that(1) net'(2,3) by (simp add: dn_ok_def same_shape_def)
    qed
  qed
  then show ?thesis
    using net' leaf [of x] t(4,5) by (auto simp: fun_eq_iff)
qed

lemma tree_but_adjust_volume_count:
  assumes "tree_but x net"
  obtains net' where "adjust_volume_count d x net = Some net'" "tree_but x net'" "same_shape net net'"
    "nmax net' = nmax net" "nd_volume_count (net_nodes net' x) = nd_volume_count (net_nodes net x) + d"
proof -
  obtain net' where net': "adjust_counter VolumeCount d x net = Some net'" "tree_but x net'" "same_shape net net'"
      "nmax net' = nmax net"
      "\<forall>k. counter_of k (net_nodes net' x) = counter_of k (net_nodes net x) + (if k = VolumeCount then d else 0)"
    using tree_but_adjust_counter [OF assms] by blast
  show thesis
    using that net'(1-4) net'(5) [rule_format, of VolumeCount] by (simp add: adjust_volume_count_def)
qed

lemma tree_but_adjust_active_volume_count:
  assumes "tree_but x net"
  obtains net' where "adjust_active_volume_count d x net = Some net'" "tree_but x net'" "same_shape net net'"
    "nmax net' = nmax net" "nd_volume_count (net_nodes net' x) = nd_volume_count (net_nodes net x)"
proof -
  obtain net' where net': "adjust_counter ActiveVolumeCount d x net = Some net'" "tree_but x net'" "same_shape net net'"
      "nmax net' = nmax net"
      "\<forall>k. counter_of k (net_nodes net' x) = counter_of k (net_nodes net x) + (if k = ActiveVolumeCount then d else 0)"
    using tree_but_adjust_counter [OF assms] by blast
  show thesis
    using that net'(1-4) net'(5) [rule_format, of VolumeCount] by (simp add: adjust_active_volume_count_def)
qed

lemma tree_but_adjust_max_volume_id:
  assumes "tree_but x net"
  shows "\<exists>net'. adjust_max_volume_id vid x net = Some net' \<and> tree_but x net' \<and> same_shape net net' \<and>
    same_counters net net' \<and> (\<forall>m. nmax net m \<le> nmax net' m) \<and> vid \<le> nmax net' x"
proof -
  have "linked net" "max_ok net"
    using assms by (simp_all add: tree_but_def)
  then obtain net' where net': "adjust_max_volume_id vid x net = Some net'" "same_shape net net'" "same_counters net net'"
      "max_ok net'" "\<forall>m. nmax net m \<le> nmax net' m" "vid \<le> nmax net' x"
    using adjust_max_volume_id_ok [of net x vid] unfolding max_ok_def by blast
  have "dn_ok net' n" if "dn_ok net n" for n
  proof -
    have "net_dns net' = net_dns net" "nd_volume_count (net_nodes net' n) = nd_volume_count (net_nodes net n)"
      using net'(2,3) counter_of.simps(1) unfolding same_shape_def same_counters_def by metis+
    then show ?thesis
      using that order_trans [OF _ net'(5) [rule_format, of n]] unfolding dn_ok_def by fastforce
  qed
  moreover have "unused net' n" if "unused net n" for n
    using that net'(2,3) by (simp add: unused_def same_shape_def same_counters_def)
  ultimately have "tree_but x net'"
    using assms net'(4) linked_same_shape [OF net'(2)] excess_same_counters [OF net'(2,3)] net'(2)
    by (simp add: tree_but_def same_shape_def)
  then show ?thesis
    using net' by blast
qed


subsection \<open>Volume reports keep the tree\<close>

text \<open>A change of the volumes of one data node, and of counters.\<close>

definition volumes_changed :: "nref \<Rightarrow> net \<Rightarrow> net \<Rightarrow> bool" where
  "volumes_changed x net net' \<longleftrightarrow>
     (\<exists>vs. net_dns net' = (net_dns net)(x := (net_dns net x)\<lparr>dn_volumes := vs\<rparr>)) \<and>
     net_next net' = net_next net \<and> (\<forall>m. nmax net m \<le> nmax net' m) \<and>
     (\<forall>n. nd_id (net_nodes net' n) = nd_id (net_nodes net n) \<and>
        nd_parent (net_nodes net' n) = nd_parent (net_nodes net n) \<and>
        nd_children (net_nodes net' n) = nd_children (net_nodes net n) \<and>
        nd_type (net_nodes net' n) = nd_type (net_nodes net n))"

lemma volumes_changed_shape: "same_shape a b \<Longrightarrow> \<forall>m. nmax a m \<le> nmax b m \<Longrightarrow> volumes_changed x a b"
  by (auto simp: volumes_changed_def same_shape_def intro: exI [of _ "dn_volumes (net_dns a x)"])

lemma volumes_changed_refl [simp]: "volumes_changed x net net"
  by (simp add: volumes_changed_shape)

lemma volumes_changed_trans: "volumes_changed x a b \<Longrightarrow> volumes_changed x b c \<Longrightarrow> volumes_changed x a c"
  by (auto simp: volumes_changed_def intro: order_trans)

lemma volumes_changed_upd: "volumes_changed x net (upd_dn x (\<lambda>dn. dn\<lparr>dn_volumes := f dn\<rparr>) net)"
  by (auto simp: volumes_changed_def)

abbreviation vols :: "net \<Rightarrow> nref \<Rightarrow> (volume_id \<times> volume_info) list" where
  "vols net x \<equiv> dn_volumes (net_dns net x)"

definition node_ok :: "nref \<Rightarrow> net \<Rightarrow> bool" where
  "node_ok x net \<longleftrightarrow> tree_but x net \<and> dn_ok net x"

lemma length_alist_update: "length (AList.update k v xs) = (if k \<in> fst ` set xs then length xs else Suc (length xs))"
  by (induction xs) auto

lemma length_alist_delete:
  "distinct (map fst xs) \<Longrightarrow> k \<in> fst ` set xs \<Longrightarrow> Suc (length (AList.delete k xs)) = length xs"
proof (induction xs)
  case (Cons p xs)
  then show ?case
    by (cases "fst p = k") (force simp: AList.delete_eq filter_id_conv intro!: arg_cong [where f = length])+
qed simp

lemma set_alist_update: "set (AList.update k v xs) \<subseteq> insert (k, v) (set xs)"
  by (induction xs) auto

lemma node_ok_insert:
  assumes "tree_but x net" "distinct (map fst (vols net x))"
    "\<forall>(i, v) \<in> set (vols net x). vi_id v = i \<and> i \<le> nmax net x" "vi_id v \<le> nmax net x"
    "nd_volume_count (net_nodes net x) = int (length (AList.update (vi_id v) v (vols net x)))"
  shows "node_ok x (insert_volume x v net)"
proof -
  have "dn_ok (insert_volume x v net) x"
    using assms set_alist_update [of "vi_id v" v "vols net x"]
    by (fastforce simp: insert_volume_def dn_ok_def distinct_update)
  then show ?thesis
    using tree_but_upd_dn [OF assms(1)] by (simp add: node_ok_def insert_volume_def)
qed

lemma add_or_update_volume_ok:
  assumes "node_ok x net"
  shows "\<exists>net'. add_or_update_volume v x net = Some (vi_id v \<notin> fst ` set (vols net x), net') \<and> node_ok x net' \<and>
    volumes_changed x net net' \<and> vols net' x = AList.update (vi_id v) v (vols net x)"
proof (cases "vi_id v \<in> fst ` set (vols net x)")
  case True
  then have "vi_id v \<le> nmax net x" "get_volume net x (vi_id v) \<noteq> None"
    using assms by (auto simp: node_ok_def dn_ok_def get_volume_def map_of_eq_None_iff)
  then show ?thesis
    using True assms node_ok_insert [of x net v] volumes_changed_upd [of x net]
    by (simp add: add_or_update_volume_def node_ok_def dn_ok_def length_alist_update insert_volume_def)
next
  case False
  have bt: "tree_but x net"
    using assms by (simp add: node_ok_def)
  obtain n1 where n1: "adjust_volume_count 1 x net = Some n1" "tree_but x n1" "same_shape net n1" "nmax n1 = nmax net"
      "nd_volume_count (net_nodes n1 x) = nd_volume_count (net_nodes net x) + 1"
    by (rule tree_but_adjust_volume_count [OF bt, of 1])
  obtain n2 where n2: "(if vi_read_only v then Some n1 else adjust_active_volume_count 1 x n1) = Some n2"
      "tree_but x n2" "same_shape n1 n2" "nmax n2 = nmax n1"
      "nd_volume_count (net_nodes n2 x) = nd_volume_count (net_nodes n1 x)"
    by (cases "vi_read_only v") (use that n1(2) tree_but_adjust_active_volume_count [OF n1(2), of 1] in auto)
  obtain n3 where n3: "adjust_max_volume_id (vi_id v) x n2 = Some n3" "tree_but x n3" "same_shape n2 n3"
      "same_counters n2 n3" "\<forall>m. nmax n2 m \<le> nmax n3 m" "vi_id v \<le> nmax n3 x"
    using tree_but_adjust_max_volume_id [OF n2(2)] by blast
  have sh: "same_shape net n3"
    using same_shape_trans n1(3) n2(3) n3(3) by blast
  have "counter_of VolumeCount (net_nodes n3 x) = counter_of VolumeCount (net_nodes n2 x)"
    using n3(4) by (simp only: same_counters_def)
  then have cnt: "nd_volume_count (net_nodes n3 x) = nd_volume_count (net_nodes net x) + 1"
    using n1(5) n2(5) by simp
  have vs: "vols n3 x = vols net x"
    using sh by (simp add: same_shape_def)
  have dn: "dn_ok net x" and mx: "nmax net x \<le> nmax n3 x"
    using assms n1(4) n2(4) n3(5) [rule_format, of x] by (simp_all add: node_ok_def fun_eq_iff)
  have all: "\<forall>(i, v) \<in> set (vols n3 x). vi_id v = i \<and> i \<le> nmax n3 x"
    using dn vs order_trans [OF _ mx] unfolding dn_ok_def by fastforce
  have "node_ok x (insert_volume x v n3)"
    by (rule node_ok_insert [OF n3(2) _ all n3(6)]) (use dn vs cnt False in \<open>auto simp: dn_ok_def length_alist_update\<close>)
  moreover have "volumes_changed x net (insert_volume x v n3)"
    unfolding insert_volume_def
    using n1(4) n2(4) n3(5)
    by (intro volumes_changed_trans [OF volumes_changed_shape [OF sh] volumes_changed_upd]) (simp add: fun_eq_iff)
  moreover have "get_volume net x (vi_id v) = None"
    using False by (simp add: get_volume_def map_of_eq_None_iff)
  ultimately show ?thesis
    using n1(1) n2(1) n3(1) vs False by (simp add: add_or_update_volume_def insert_volume_def)
qed


lemma drop_volume_ok:
  assumes "node_ok x net" "vid \<in> fst ` set (vols net x)"
  shows "\<exists>net'. drop_volume ro vid x net = Some net' \<and> node_ok x net' \<and> volumes_changed x net net' \<and>
    vols net' x = AList.delete vid (vols net x)"
proof -
  let ?n0 = "remove_volume x vid net"
  have bt: "tree_but x ?n0" and dn: "dn_ok net x"
    using assms(1) tree_but_upd_dn by (simp_all add: node_ok_def remove_volume_def)
  obtain n1 where n1: "adjust_volume_count (- 1) x ?n0 = Some n1" "tree_but x n1" "same_shape ?n0 n1" "nmax n1 = nmax ?n0"
      "nd_volume_count (net_nodes n1 x) = nd_volume_count (net_nodes ?n0 x) + - 1"
    by (rule tree_but_adjust_volume_count [OF bt, of "- 1"])
  obtain n2 where n2: "(if ro then Some n1 else adjust_active_volume_count (- 1) x n1) = Some n2"
      "tree_but x n2" "same_shape n1 n2" "nmax n2 = nmax n1"
      "nd_volume_count (net_nodes n2 x) = nd_volume_count (net_nodes n1 x)"
    by (cases ro) (use that n1(2) tree_but_adjust_active_volume_count [OF n1(2), of "- 1"] in auto)
  have sh: "same_shape ?n0 n2"
    using same_shape_trans n1(3) n2(3) by blast
  then have vs: "vols n2 x = AList.delete vid (vols net x)"
    by (simp add: same_shape_def remove_volume_def)
  have len: "Suc (length (AList.delete vid (vols net x))) = length (vols net x)"
    using dn assms(2) by (simp add: dn_ok_def length_alist_delete)
  have "nmax n2 x = nmax net x"
    using n1(4) n2(4) by (simp add: fun_eq_iff remove_volume_def)
  then have "dn_ok n2 x"
    using dn vs len n1(5) n2(5) by (auto simp: dn_ok_def remove_volume_def AList.delete_eq distinct_map_filter)
  moreover have "volumes_changed x net n2"
    using n1(4) n2(4)
    by (intro volumes_changed_trans [OF volumes_changed_upd volumes_changed_shape [OF sh [unfolded remove_volume_def]]])
      (simp add: fun_eq_iff remove_volume_def)
  ultimately show ?thesis
    using n1(1) n2(1,2) vs by (simp add: drop_volume_def node_ok_def)
qed

lemma delete_volumes_ok:
  "node_ok x net \<Longrightarrow> \<exists>net'. delete_volumes vs x net = Some net' \<and> node_ok x net' \<and> volumes_changed x net net' \<and>
    map_of (vols net' x) = (\<lambda>i. if i \<in> vi_id ` set vs then None else map_of (vols net x) i)"
proof (induction vs arbitrary: net)
  case (Cons v vs)
  obtain n1 where n1: "(case get_volume net x (vi_id v) of
               Some _ \<Rightarrow> drop_volume (vi_read_only v) (vi_id v) x net | None \<Rightarrow> Some net) = Some n1"
      "node_ok x n1" "volumes_changed x net n1" "map_of (vols n1 x) = (map_of (vols net x))(vi_id v := None)"
  proof (cases "get_volume net x (vi_id v)")
    case None
    then show ?thesis
      using that Cons.prems by (simp add: get_volume_def fun_upd_idem)
  next
    case (Some u)
    then have "vi_id v \<in> fst ` set (vols net x)"
      using map_of_SomeD by (force simp: get_volume_def)
    from drop_volume_ok [OF Cons.prems this] obtain n1 where
        "drop_volume (vi_read_only v) (vi_id v) x net = Some n1" "node_ok x n1" "volumes_changed x net n1"
        "vols n1 x = AList.delete (vi_id v) (vols net x)"
      by blast
    then show ?thesis
      using that Some by (simp add: delete_conv')
  qed
  from Cons.IH [OF n1(2)] obtain n2 where n2: "delete_volumes vs x n1 = Some n2" "node_ok x n2" "volumes_changed x n1 n2"
      "map_of (vols n2 x) = (\<lambda>i. if i \<in> vi_id ` set vs then None else map_of (vols n1 x) i)"
    by blast
  then show ?case
    using n1 volumes_changed_trans [OF n1(3) n2(3)] by (auto simp: fun_eq_iff)
qed (simp add: fun_eq_iff)

lemma add_volumes_ok:
  "node_ok x net \<Longrightarrow> \<exists>new net'. add_volumes vs x net = Some (new, net') \<and> node_ok x net' \<and> volumes_changed x net net' \<and>
    map_of (vols net' x) = map_of (vols net x) ++ map_of (rev (map (\<lambda>v. (vi_id v, v)) vs)) \<and>
    vi_id ` set new = vi_id ` set vs - fst ` set (vols net x) \<and> set new \<subseteq> set vs"
proof (induction vs arbitrary: net)
  case (Cons v vs)
  obtain n1 where n1: "add_or_update_volume v x net = Some (vi_id v \<notin> fst ` set (vols net x), n1)" "node_ok x n1"
      "volumes_changed x net n1" "vols n1 x = AList.update (vi_id v) v (vols net x)"
    using add_or_update_volume_ok [OF Cons.prems] by blast
  from Cons.IH [OF n1(2)] obtain new n2 where n2: "add_volumes vs x n1 = Some (new, n2)" "node_ok x n2" "volumes_changed x n1 n2"
      "map_of (vols n2 x) = map_of (vols n1 x) ++ map_of (rev (map (\<lambda>v. (vi_id v, v)) vs))"
      "vi_id ` set new = vi_id ` set vs - fst ` set (vols n1 x)" "set new \<subseteq> set vs"
    by blast
  have "fst ` set (vols n1 x) = insert (vi_id v) (fst ` set (vols net x))"
    using dom_update [of "vi_id v" v "vols net x"] n1(4) by (simp add: dom_map_of_conv_image_fst)
  moreover have "map_of (vols n2 x) = map_of (vols net x) ++ map_of (rev (map (\<lambda>v. (vi_id v, v)) (v # vs)))"
    using n1(4) n2(4) by (simp add: update_conv')
  moreover have "vi_id ` set (if vi_id v \<notin> A then v # new else new) = vi_id ` set (v # vs) - A"
    if "vi_id ` set new = vi_id ` set vs - insert (vi_id v) A" for A
    using that by (cases "vi_id v \<in> A") (simp_all add: insert_absorb, blast)
  moreover have "set (if vi_id v \<notin> A then v # new else new) \<subseteq> set (v # vs)" for A
    using n2(6) by auto
  ultimately show ?case
    using n1(1) n2(1,2,5) volumes_changed_trans [OF n1(3) n2(3)] by (simp del: map_of_append rev.simps)
qed simp


lemma drop_ids_ok:
  "node_ok x net \<Longrightarrow> \<exists>dels net'. drop_ids is x net = Some (dels, net') \<and> node_ok x net' \<and> volumes_changed x net net' \<and>
    map_of (vols net' x) = (\<lambda>i. if i \<in> set is then None else map_of (vols net x) i) \<and>
    vi_id ` set dels = set is \<inter> fst ` set (vols net x) \<and> set dels \<subseteq> snd ` set (vols net x)"
proof (induction "is" arbitrary: net)
  case (Cons i "is")
  show ?case
  proof (cases "get_volume net x i")
    case None
    then have "i \<notin> fst ` set (vols net x)" "map_of (vols net x) i = None"
      by (simp_all add: get_volume_def map_of_eq_None_iff)
    then show ?thesis
      using Cons.IH [OF Cons.prems] None by (auto simp: fun_eq_iff)
  next
    case (Some v)
    then have mem: "(i, v) \<in> set (vols net x)"
      by (simp add: get_volume_def map_of_SomeD)
    then have i: "i \<in> fst ` set (vols net x)" and vi: "vi_id v = i"
      using Cons.prems by (force simp: node_ok_def dn_ok_def)+
    obtain n1 where n1: "drop_volume (vi_read_only v) i x net = Some n1" "node_ok x n1" "volumes_changed x net n1"
        "vols n1 x = AList.delete i (vols net x)"
      using drop_volume_ok [OF Cons.prems i] by blast
    from Cons.IH [OF n1(2)] obtain dels n2 where n2: "drop_ids is x n1 = Some (dels, n2)" "node_ok x n2" "volumes_changed x n1 n2"
        "map_of (vols n2 x) = (\<lambda>j. if j \<in> set is then None else map_of (vols n1 x) j)"
        "vi_id ` set dels = set is \<inter> fst ` set (vols n1 x)" "set dels \<subseteq> snd ` set (vols n1 x)"
      by blast
    have "set (v # dels) \<subseteq> snd ` set (vols net x)"
      using n2(6) n1(4) mem by (force simp: AList.delete_eq)
    moreover have "vi_id ` set (v # dels) = set (i # is) \<inter> fst ` set (vols net x)"
      using n2(5) n1(4) vi i by (auto simp: AList.delete_eq image_iff)
    moreover have "map_of (vols n2 x) = (\<lambda>j. if j \<in> set (i # is) then None else map_of (vols net x) j)"
      using n2(4) n1(4) by (simp add: fun_eq_iff delete_conv')
    ultimately show ?thesis
      using Some n1(1) n2(1,2) volumes_changed_trans [OF n1(3) n2(3)] by auto
  qed
qed (simp add: fun_eq_iff)

lemma node_ok_of_tree:
  "tree_ok net \<Longrightarrow> nd_type (net_nodes net x) = DataNodeNode \<Longrightarrow> nd_parent (net_nodes net x) \<noteq> None \<Longrightarrow> node_ok x net"
  using tree_but_of_ok by (auto simp: node_ok_def tree_ok_def)

lemma node_ok_tree: "node_ok x net \<Longrightarrow> tree_ok net"
  using tree_ok_of_but by (auto simp: node_ok_def)

subsection \<open>Linking and unlinking\<close>

text \<open>What a chain of adjustments at one node does.\<close>

definition bumped :: "nref \<Rightarrow> (counter \<Rightarrow> int) \<Rightarrow> net \<Rightarrow> net \<Rightarrow> bool" where
  "bumped n f net net' \<longleftrightarrow> same_shape net net' \<and> linked net' \<and> max_ok net' \<and> (\<forall>m. nmax net m \<le> nmax net' m) \<and>
     (\<forall>m. nlevel net m < nlevel net n \<longrightarrow> nmax net' m = nmax net m) \<and>
     (\<forall>k m. excess k net' m = excess k net m + (if m = n then f k else 0))"

lemma bumped_trans: "bumped n f a b \<Longrightarrow> bumped n g b c \<Longrightarrow> bumped n (\<lambda>k. f k + g k) a c"
  unfolding bumped_def by (auto intro: same_shape_trans order_trans simp: same_shape_def)

lemma bumped_adjust_counter:
  assumes "linked net" "max_ok net"
  obtains net' where "adjust_counter j d n net = Some net'" "bumped n (\<lambda>k. if k = j then d else 0) net net'"
proof -
  obtain net' where net': "adjust_counter j d n net = Some net'" "same_shape net net'" "\<forall>m. nmax net' m = nmax net m"
      "\<forall>k m. excess k net' m = excess k net m + (if k = j \<and> m = n then d else 0)"
    using adjust_counter_excess [OF assms(1)] by blast
  have "max_ok net'"
    using assms(2) net'(2,3) by (simp add: max_ok_def same_shape_def)
  then have "bumped n (\<lambda>k. if k = j then d else 0) net net'"
    using net'(2-4) assms(1) linked_same_shape [OF net'(2)] by (simp add: bumped_def)
  then show thesis
    using that net'(1) by blast
qed

lemma adjust_max_volume_id_below:
  assumes "linked net" "adjust_max_volume_id vid n net = Some net'" "nlevel net m < nlevel net n"
  shows "nmax net' m = nmax net m"
  using assms
proof (induction "4 - nlevel net n" arbitrary: n net rule: less_induct)
  case less
  let ?net = "upd_node n (\<lambda>nd. nd\<lparr>nd_max_volume_id := vid\<rparr>) net"
  have lk: "linked ?net" and mn: "m \<noteq> n"
    using less.prems linked_same_shape [of net ?net] by (auto simp: same_shape_def)
  show ?case
  proof (cases "nmax net n < vid")
    case False
    then show ?thesis
      using less.prems(2) by (subst (asm) adjust_max_volume_id.simps) simp
  next
    case True
    show ?thesis
    proof (cases "nd_parent (net_nodes net n)")
      case None
      then show ?thesis
        using True less.prems(2) mn by (subst (asm) adjust_max_volume_id.simps) (auto simp: Let_def)
    next
      case (Some p)
      have lt: "nlevel net n < nlevel net p"
        by (rule linked_parent_less [OF less.prems(1) Some])
      have tys: "nlevel ?net q = nlevel net q" for q
        by simp
      have "4 - nlevel ?net p < 4 - nlevel net n"
        using lt level_le [of "nd_type (net_nodes net p)"] unfolding tys by linarith
      moreover have "adjust_max_volume_id vid p ?net = Some net'"
        using True Some less.prems(2) by (subst (asm) adjust_max_volume_id.simps) (simp add: Let_def)
      moreover have "nlevel ?net m < nlevel ?net p"
        using lt less.prems(3) unfolding tys by linarith
      ultimately have "nmax net' m = nmax ?net m"
        using less.hyps lk by blast
      then show ?thesis
        using mn by simp
    qed
  qed
qed

lemma bumped_adjust_max_volume_id:
  assumes "linked net" "max_ok net"
  obtains net' where "adjust_max_volume_id vid n net = Some net'" "bumped n (\<lambda>k. 0) net net'" "vid \<le> nmax net' n"
proof -
  obtain net' where net': "adjust_max_volume_id vid n net = Some net'" "same_shape net net'" "same_counters net net'"
      "max_ok net'" "\<forall>m. nmax net m \<le> nmax net' m" "vid \<le> nmax net' n"
    using adjust_max_volume_id_ok [of net n vid] assms unfolding max_ok_def by blast
  then have "bumped n (\<lambda>k. 0) net net'"
    using assms(1) linked_same_shape [OF net'(2)] excess_same_counters [OF net'(2,3)]
      adjust_max_volume_id_below [OF assms(1) net'(1)] by (simp add: bumped_def)
  then show thesis
    using that net'(1,6) by blast
qed

lemma bumpedD:
  assumes "bumped n f net net'"
  shows "linked net'" "max_ok net'" "same_shape net net'" "nmax net m \<le> nmax net' m"
    "excess k net' m = excess k net m + (if m = n then f k else 0)"
    "nlevel net m < nlevel net n \<Longrightarrow> nmax net' m = nmax net m"
  using assms by (simp_all add: bumped_def)

lemma bumped_leaf:
  assumes "bumped n f net net'" "nd_children (net_nodes net m) = []"
  shows "counter_of k (net_nodes net' m) = counter_of k (net_nodes net m) + (if m = n then f k else 0)"
  using bumpedD(3) [OF assms(1)] bumpedD(5) [OF assms(1), where k = k and m = m] excess_leaf [OF assms(2), of k] excess_leaf [of net' m k] assms(2)
  by (simp add: same_shape_def)

lemma counter_sum: "(if k = MaxVolumeCount then a else 0) + 0 + (if k = VolumeCount then b else 0) +
    (if k = EcShardCount then c else 0) + (if k = ActiveVolumeCount then d else 0) =
  (case k of MaxVolumeCount \<Rightarrow> a | VolumeCount \<Rightarrow> b | EcShardCount \<Rightarrow> c | ActiveVolumeCount \<Rightarrow> (d :: int))"
  by (cases k) simp_all

lemma adjust_all_for_link:
  assumes "linked net" "max_ok net"
  shows "\<exists>net'. do {
        net \<leftarrow> adjust_max_volume_count (nd_max_volume_count c) n net;
        net \<leftarrow> adjust_max_volume_id (nd_max_volume_id c) n net;
        net \<leftarrow> adjust_volume_count (nd_volume_count c) n net;
        net \<leftarrow> adjust_ec_shard_count (nd_ec_shard_count c) n net;
        adjust_active_volume_count (nd_active_volume_count c) n net
      } = Some net' \<and> bumped n (\<lambda>k. counter_of k c) net net' \<and> nd_max_volume_id c \<le> nmax net' n"
proof -
  obtain n1 where n1: "adjust_counter MaxVolumeCount (nd_max_volume_count c) n net = Some n1"
      "bumped n (\<lambda>k. if k = MaxVolumeCount then nd_max_volume_count c else 0) net n1"
    by (rule bumped_adjust_counter [OF assms])
  obtain n2 where n2: "adjust_max_volume_id (nd_max_volume_id c) n n1 = Some n2" "bumped n (\<lambda>k. 0) n1 n2"
      "nd_max_volume_id c \<le> nmax n2 n"
    by (rule bumped_adjust_max_volume_id [OF bumpedD(1,2) [OF n1(2)]])
  obtain n3 where n3: "adjust_counter VolumeCount (nd_volume_count c) n n2 = Some n3"
      "bumped n (\<lambda>k. if k = VolumeCount then nd_volume_count c else 0) n2 n3"
    by (rule bumped_adjust_counter [OF bumpedD(1,2) [OF n2(2)]])
  obtain n4 where n4: "adjust_counter EcShardCount (nd_ec_shard_count c) n n3 = Some n4"
      "bumped n (\<lambda>k. if k = EcShardCount then nd_ec_shard_count c else 0) n3 n4"
    by (rule bumped_adjust_counter [OF bumpedD(1,2) [OF n3(2)]])
  obtain n5 where n5: "adjust_counter ActiveVolumeCount (nd_active_volume_count c) n n4 = Some n5"
      "bumped n (\<lambda>k. if k = ActiveVolumeCount then nd_active_volume_count c else 0) n4 n5"
    by (rule bumped_adjust_counter [OF bumpedD(1,2) [OF n4(2)]])
  have "bumped n (\<lambda>k. counter_of k c) net n5"
  proof -
    have eq: "(\<lambda>k. counter_of k c) = (\<lambda>k. case k of MaxVolumeCount \<Rightarrow> nd_max_volume_count c | VolumeCount \<Rightarrow> nd_volume_count c
        | EcShardCount \<Rightarrow> nd_ec_shard_count c | ActiveVolumeCount \<Rightarrow> nd_active_volume_count c)"
      by (rule ext) (simp split: counter.splits)
    show ?thesis
      unfolding eq counter_sum [symmetric]
      by (rule bumped_trans [OF bumped_trans [OF bumped_trans [OF bumped_trans [OF n1(2) n2(2)] n3(2)] n4(2)] n5(2)])
  qed
  moreover have "nd_max_volume_id c \<le> nmax n5 n"
    using n2(3) bumpedD(4) [OF n3(2), where m = n] bumpedD(4) [OF n4(2), where m = n] bumpedD(4) [OF n5(2), where m = n] by order
  ultimately show ?thesis
    using n1(1) n2(1) n3(1) n4(1) n5(1)
    by (simp add: adjust_max_volume_count_def adjust_volume_count_def adjust_ec_shard_count_def adjust_active_volume_count_def)
qed


lemma counter_of_links [simp]:
  "counter_of k (nd\<lparr>nd_parent := p\<rparr>) = counter_of k nd" "counter_of k (nd\<lparr>nd_children := cs\<rparr>) = counter_of k nd"
  by (cases k; simp)+

text \<open>The links that appear when a parentless node becomes the last child of another.\<close>

definition attach :: "nref \<Rightarrow> nref \<Rightarrow> net \<Rightarrow> net" where
  "attach n child net =
     upd_node n (\<lambda>nd. nd\<lparr>nd_children := nd_children nd @ [(nd_id (net_nodes net child), child)]\<rparr>) (set_parent (Some n) child net)"

lemma attach_simps:
  assumes "n \<noteq> child"
  shows "nd_children (net_nodes (attach n child net) m) =
      nd_children (net_nodes net m) @ (if m = n then [(nd_id (net_nodes net child), child)] else [])"
    "nd_parent (net_nodes (attach n child net) m) = (if m = child then Some n else nd_parent (net_nodes net m))"
    "nd_id (net_nodes (attach n child net) m) = nd_id (net_nodes net m)"
    "nd_type (net_nodes (attach n child net) m) = nd_type (net_nodes net m)"
    "nmax (attach n child net) m = nmax net m"
    "counter_of k (net_nodes (attach n child net) m) = counter_of k (net_nodes net m)"
    "net_dns (attach n child net) = net_dns net" "net_next (attach n child net) = net_next net"
  using assms by (simp_all add: attach_def set_parent_def)

lemma linked_attach:
  assumes "linked net" "nd_parent (net_nodes net child) = None" "Suc (nlevel net child) = nlevel net n"
    "nd_id (net_nodes net child) \<notin> fst ` set (nd_children (net_nodes net n))"
  shows "linked (attach n child net)"
proof -
  have ne: "n \<noteq> child"
    using assms(3) by auto
  have notin: "(i, child) \<notin> set (nd_children (net_nodes net m))" for i m
    using linked_child [OF assms(1)] assms(2) by force
  show ?thesis
    using assms notin unfolding linked_def attach_simps [OF ne] by auto
qed

lemma excess_attach:
  assumes "n \<noteq> child"
  shows "excess k (attach n child net) m = excess k net m - (if m = n then counter_of k (net_nodes net child) else 0)"
  by (simp add: excess_def child_sum_def attach_simps [OF assms])

lemma link_child_node_ok:
  assumes ok: "tree_ok net" and lt: "n < net_next net" "child < net_next net"
    and par: "nd_parent (net_nodes net child) = None" and leaf: "nd_children (net_nodes net child) = []"
    and lev: "Suc (nlevel net child) = nlevel net n"
    and fresh: "nd_id (net_nodes net child) \<notin> fst ` set (nd_children (net_nodes net n))"
    and dn: "nd_type (net_nodes net child) = DataNodeNode \<Longrightarrow> dn_ok net child"
  shows "\<exists>net' net1. link_child_node n child net = Some net' \<and> tree_ok net' \<and> net' = attach n child net1 \<and>
    same_shape net net1 \<and> (\<forall>m. nmax net m \<le> nmax net1 m)"
proof -
  let ?c = "net_nodes net child"
  have ne: "n \<noteq> child"
    using lev by auto
  have t: "linked net" "max_ok net" "\<And>m. net_next net \<le> m \<Longrightarrow> unused net m"
      "\<And>m. nd_type (net_nodes net m) = DataNodeNode \<Longrightarrow> nd_children (net_nodes net m) = []"
      "\<And>k m. nd_type (net_nodes net m) \<noteq> DataNodeNode \<Longrightarrow> excess k net m = 0"
      "\<And>m. nd_type (net_nodes net m) = DataNodeNode \<Longrightarrow> nd_parent (net_nodes net m) \<noteq> None \<Longrightarrow> dn_ok net m"
    using ok by (simp_all add: tree_ok_def)
  obtain n5 where n5: "do {
        net \<leftarrow> adjust_max_volume_count (nd_max_volume_count ?c) n net;
        net \<leftarrow> adjust_max_volume_id (nd_max_volume_id ?c) n net;
        net \<leftarrow> adjust_volume_count (nd_volume_count ?c) n net;
        net \<leftarrow> adjust_ec_shard_count (nd_ec_shard_count ?c) n net;
        adjust_active_volume_count (nd_active_volume_count ?c) n net
      } = Some n5" "bumped n (\<lambda>k. counter_of k ?c) net n5" "nmax net child \<le> nmax n5 n"
    using adjust_all_for_link [OF t(1,2)] by blast
  have sh: "same_shape net n5" and ids: "nd_id (net_nodes n5 m) = nd_id (net_nodes net m)" for m
    using bumpedD(3) [OF n5(2)] by (simp_all add: same_shape_def)
  have "link_child_node n child net = Some (attach n child n5)"
    using n5(1) fresh ids
    by (auto simp: link_child_node_def attach_def Let_def bind_eq_Some_conv)
  moreover have "tree_ok (attach n child n5)"
    unfolding tree_ok_def attach_simps [OF ne]
  proof (intro conjI allI impI)
    show "linked (attach n child n5)"
      using linked_attach [of n5 child n] bumpedD(1) [OF n5(2)] sh par lev fresh by (simp add: same_shape_def)
    show "max_ok (attach n child n5)"
      using bumpedD(2) [OF n5(2)] n5(3) bumpedD(6) [OF n5(2), of child] lev unfolding max_ok_def attach_simps [OF ne]
      by auto
    show "unused (attach n child n5) m" if "net_next n5 \<le> m" for m
    proof -
      have "unused net m" "m \<noteq> n" "m \<noteq> child"
        using t(3) that lt sh by (auto simp: same_shape_def)
      then show ?thesis
        using bumped_leaf [OF n5(2), of m] sh unfolding unused_def attach_simps [OF ne] by (simp add: same_shape_def)
    qed
    show "nd_children (net_nodes n5 m) @ (if m = n then [(nd_id (net_nodes n5 child), child)] else []) = []"
      if "nd_type (net_nodes n5 m) = DataNodeNode" for m
      using t(4) that sh lev by (auto simp: same_shape_def)
    show "excess k (attach n child n5) m = 0" if "nd_type (net_nodes n5 m) \<noteq> DataNodeNode" for k m
      using t(5) [of m k] that sh bumpedD(5) [OF n5(2), where k = k and m = m] bumped_leaf [OF n5(2) leaf, of k] ne
      by (simp add: excess_attach same_shape_def)
    show "dn_ok (attach n child n5) m"
      if ty: "nd_type (net_nodes n5 m) = DataNodeNode" and "(if m = child then Some n else nd_parent (net_nodes n5 m)) \<noteq> None" for m
    proof -
      have d: "dn_ok net m" "nd_children (net_nodes net m) = []" "m \<noteq> n"
        using that t(4,6) dn sh lev by (auto simp: same_shape_def split: if_splits)
      have "nmax net m \<le> nmax n5 m"
        by (rule bumpedD(4) [OF n5(2)])
      moreover have "nd_volume_count (net_nodes n5 m) = nd_volume_count (net_nodes net m)"
        using bumped_leaf [OF n5(2) d(2), of VolumeCount] d(3) by simp
      ultimately show ?thesis
        using d(1) sh attach_simps(6) [OF ne, where k = VolumeCount and m = m] attach_simps(5,7) [OF ne]
        by (fastforce simp: dn_ok_def same_shape_def intro: order_trans)
    qed
  qed
  ultimately show ?thesis
    using sh bumpedD(4) [OF n5(2)] by blast
qed


text \<open>The links that disappear when a child is removed.\<close>

definition detach :: "nref \<Rightarrow> string \<Rightarrow> nref \<Rightarrow> net \<Rightarrow> net" where
  "detach n i child net =
     set_parent None child (upd_node n (\<lambda>nd. nd\<lparr>nd_children := AList.delete i (nd_children nd)\<rparr>) net)"

lemma detach_simps:
  assumes "n \<noteq> child"
  shows "nd_children (net_nodes (detach n i child net) m) =
      (if m = n then AList.delete i (nd_children (net_nodes net m)) else nd_children (net_nodes net m))"
    "nd_parent (net_nodes (detach n i child net) m) = (if m = child then None else nd_parent (net_nodes net m))"
    "nd_id (net_nodes (detach n i child net) m) = nd_id (net_nodes net m)"
    "nd_type (net_nodes (detach n i child net) m) = nd_type (net_nodes net m)"
    "nmax (detach n i child net) m = nmax net m"
    "counter_of k (net_nodes (detach n i child net) m) = counter_of k (net_nodes net m)"
    "net_dns (detach n i child net) = net_dns net" "net_next (detach n i child net) = net_next net"
  using assms by (simp_all add: detach_def set_parent_def)

lemma sum_list_delete:
  fixes f :: "'b \<Rightarrow> int"
  assumes "distinct (map fst xs)" "(i, c) \<in> set xs"
  shows "(\<Sum>(_, y) \<leftarrow> AList.delete i xs. f y) = (\<Sum>(_, y) \<leftarrow> xs. f y) - f c"
  using assms
proof (induction xs)
  case (Cons p xs)
  show ?case
  proof (cases "fst p = i")
    case True
    then have "i \<notin> fst ` set xs"
      using Cons.prems(1) by auto
    then have "p = (i, c)" "AList.delete i xs = xs"
      using True Cons.prems(2) by (auto simp: delete_idem image_iff)
    then show ?thesis
      by (simp add: AList.delete_eq)
  next
    case False
    then show ?thesis
      using Cons by (cases p) (auto simp: AList.delete_eq)
  qed
qed simp

lemma linked_detach:
  assumes "linked net" "(i, child) \<in> set (nd_children (net_nodes net n))"
  shows "linked (detach n i child net)" "n \<noteq> child"
proof -
  have par: "nd_parent (net_nodes net child) = Some n" "nd_id (net_nodes net child) = i"
    using assms unfolding linked_def by blast+
  then show ne: "n \<noteq> child"
    using linked_parent_less [OF assms(1) par(1)] by auto
  have uniq: "c = child" if "(i, c) \<in> set (nd_children (net_nodes net n))" for c
    using assms that eq_key_imp_eq_value [of "nd_children (net_nodes net n)"] unfolding linked_def by blast
  have own: "j = i" if "(j, child) \<in> set (nd_children (net_nodes net m))" for j m
    using assms(1) that par unfolding linked_def by blast
  have m_n: "m = n" if "(j, child) \<in> set (nd_children (net_nodes net m))" for j m
    using assms(1) that par unfolding linked_def by fastforce
  have a: "nd_parent (net_nodes (detach n i child net) c) = Some m \<and> nd_id (net_nodes (detach n i child net) c) = j"
    if "(j, c) \<in> set (nd_children (net_nodes (detach n i child net) m))" for m j c
    using that assms(1) own m_n unfolding linked_def detach_simps [OF ne]
    by (auto simp: AList.delete_eq split: if_splits)
  have b: "(nd_id (net_nodes (detach n i child net) c), c) \<in> set (nd_children (net_nodes (detach n i child net) p)) \<and>
      Suc (nlevel (detach n i child net) c) = nlevel (detach n i child net) p"
    if "nd_parent (net_nodes (detach n i child net) c) = Some p" for c p
    using that assms(1) uniq unfolding linked_def detach_simps [OF ne]
    by (auto simp: AList.delete_eq split: if_splits)
  have d: "distinct (map fst (nd_children (net_nodes (detach n i child net) m)))" for m
    using assms(1) unfolding linked_def detach_simps [OF ne] by (auto simp: AList.delete_eq distinct_map_filter)
  show "linked (detach n i child net)"
    unfolding linked_def using a b d by blast
qed

lemma excess_detach:
  assumes "linked net" "(i, child) \<in> set (nd_children (net_nodes net n))"
  shows "excess k (detach n i child net) m = excess k net m + (if m = n then counter_of k (net_nodes net child) else 0)"
proof -
  have "distinct (map fst (nd_children (net_nodes net n)))"
    using assms(1) by (simp add: linked_def)
  from sum_list_delete [OF this assms(2), of "\<lambda>c. counter_of k (net_nodes net c)"] show ?thesis
    by (simp add: excess_def child_sum_def detach_simps [OF linked_detach(2) [OF assms]])
qed

lemma adjust_all_for_unlink:
  assumes "linked net" "max_ok net"
  shows "\<exists>net'. do {
        net \<leftarrow> adjust_max_volume_count (- nd_max_volume_count c) n net;
        net \<leftarrow> adjust_volume_count (- nd_volume_count c) n net;
        net \<leftarrow> adjust_ec_shard_count (- nd_ec_shard_count c) n net;
        adjust_active_volume_count (- nd_active_volume_count c) n net
      } = Some net' \<and> bumped n (\<lambda>k. - counter_of k c) net net'"
proof -
  obtain n1 where n1: "adjust_counter MaxVolumeCount (- nd_max_volume_count c) n net = Some n1"
      "bumped n (\<lambda>k. if k = MaxVolumeCount then - nd_max_volume_count c else 0) net n1"
    by (rule bumped_adjust_counter [OF assms])
  obtain n3 where n3: "adjust_counter VolumeCount (- nd_volume_count c) n n1 = Some n3"
      "bumped n (\<lambda>k. if k = VolumeCount then - nd_volume_count c else 0) n1 n3"
    by (rule bumped_adjust_counter [OF bumpedD(1,2) [OF n1(2)]])
  obtain n4 where n4: "adjust_counter EcShardCount (- nd_ec_shard_count c) n n3 = Some n4"
      "bumped n (\<lambda>k. if k = EcShardCount then - nd_ec_shard_count c else 0) n3 n4"
    by (rule bumped_adjust_counter [OF bumpedD(1,2) [OF n3(2)]])
  obtain n5 where n5: "adjust_counter ActiveVolumeCount (- nd_active_volume_count c) n n4 = Some n5"
      "bumped n (\<lambda>k. if k = ActiveVolumeCount then - nd_active_volume_count c else 0) n4 n5"
    by (rule bumped_adjust_counter [OF bumpedD(1,2) [OF n4(2)]])
  have "bumped n (\<lambda>k. - counter_of k c) net n5"
  proof -
    have eq: "(\<lambda>k. - counter_of k c) = (\<lambda>k. (if k = MaxVolumeCount then - nd_max_volume_count c else 0) +
        (if k = VolumeCount then - nd_volume_count c else 0) + (if k = EcShardCount then - nd_ec_shard_count c else 0) +
        (if k = ActiveVolumeCount then - nd_active_volume_count c else 0))"
    proof
      show "- counter_of k c = (if k = MaxVolumeCount then - nd_max_volume_count c else 0) +
        (if k = VolumeCount then - nd_volume_count c else 0) + (if k = EcShardCount then - nd_ec_shard_count c else 0) +
        (if k = ActiveVolumeCount then - nd_active_volume_count c else 0)" for k
        by (cases k) simp_all
    qed
    show ?thesis
      unfolding eq by (rule bumped_trans [OF bumped_trans [OF bumped_trans [OF n1(2) n3(2)] n4(2)] n5(2)])
  qed
  then show ?thesis
    using n1(1) n3(1) n4(1) n5(1)
    by (simp add: adjust_max_volume_count_def adjust_volume_count_def adjust_ec_shard_count_def adjust_active_volume_count_def)
qed


lemma unlink_child_node_ok:
  assumes ok: "tree_but child net" and "(i, child) \<in> set (nd_children (net_nodes net n))" "n < net_next net"
  shows "\<exists>net'. unlink_child_node n i net = Some net' \<and> tree_ok net' \<and> same_shape (detach n i child net) net' \<and>
    (\<forall>m. nmax net m \<le> nmax net' m)"
proof -
  let ?c = "net_nodes net child" and ?n0 = "detach n i child net"
  have t: "linked net" "max_ok net" "\<And>m. net_next net \<le> m \<Longrightarrow> unused net m"
      "\<And>m. nd_type (net_nodes net m) = DataNodeNode \<Longrightarrow> nd_children (net_nodes net m) = []"
      "\<And>k m. nd_type (net_nodes net m) \<noteq> DataNodeNode \<Longrightarrow> excess k net m = 0"
      "\<And>m. m \<noteq> child \<Longrightarrow> nd_type (net_nodes net m) = DataNodeNode \<Longrightarrow> nd_parent (net_nodes net m) \<noteq> None \<Longrightarrow> dn_ok net m"
    using ok by (simp_all add: tree_but_def)
  note lk = linked_detach [OF t(1) assms(2)] and ds = detach_simps [OF linked_detach(2) [OF t(1) assms(2)]]
  have mx: "max_ok ?n0"
    using t(2) unfolding max_ok_def ds by (auto simp: AList.delete_eq split: if_splits)
  obtain net' where net': "do {
        net \<leftarrow> adjust_max_volume_count (- nd_max_volume_count ?c) n ?n0;
        net \<leftarrow> adjust_volume_count (- nd_volume_count ?c) n net;
        net \<leftarrow> adjust_ec_shard_count (- nd_ec_shard_count ?c) n net;
        adjust_active_volume_count (- nd_active_volume_count ?c) n net
      } = Some net'" "bumped n (\<lambda>k. - counter_of k ?c) ?n0 net'"
    using adjust_all_for_unlink [OF lk(1) mx] by blast
  have sh: "same_shape ?n0 net'"
    by (rule bumpedD(3) [OF net'(2)])
  have "map_of (nd_children (net_nodes net n)) i = Some child"
    using assms(2) t(1) by (simp add: linked_def)
  then have "unlink_child_node n i net = Some net'"
    using net'(1) lk(2) by (auto simp: unlink_child_node_def detach_def set_parent_def Let_def)
  moreover have "tree_ok net'"
    unfolding tree_ok_def
  proof (intro conjI allI impI)
    show "linked net'" "max_ok net'"
      by (rule bumpedD [OF net'(2)])+
    show "unused net' m" if "net_next net' \<le> m" for m
    proof -
      have "unused ?n0 m" "m \<noteq> n"
        using t(3) [of m] that assms(3) sh ds by (auto simp: same_shape_def unused_def)
      then show ?thesis
        using bumped_leaf [OF net'(2), of m] sh by (simp add: unused_def same_shape_def)
    qed
    show "nd_children (net_nodes net' m) = []" if "nd_type (net_nodes net' m) = DataNodeNode" for m
      using t(4) [of m] that sh ds by (auto simp: same_shape_def)
    show "excess k net' m = 0" if "nd_type (net_nodes net' m) \<noteq> DataNodeNode" for k m
      using t(5) [of m k] that sh ds(4) bumpedD(5) [OF net'(2), where k = k and m = m]
      by (simp add: excess_detach [OF t(1) assms(2)] same_shape_def)
    show "dn_ok net' m" if "nd_type (net_nodes net' m) = DataNodeNode" "nd_parent (net_nodes net' m) \<noteq> None" for m
    proof -
      have d: "dn_ok net m" "nd_children (net_nodes ?n0 m) = []" "m \<noteq> n"
        using that t(4,6) [of m] assms(2) sh ds by (auto simp: same_shape_def split: if_splits)
      have "nmax ?n0 m \<le> nmax net' m"
        by (rule bumpedD(4) [OF net'(2)])
      moreover have "nd_volume_count (net_nodes net' m) = nd_volume_count (net_nodes net m)"
        using bumped_leaf [OF net'(2) d(2), of VolumeCount] d(3) ds(6) [where k = VolumeCount and m = m] by simp
      ultimately show ?thesis
        using d(1) sh ds(5,7) by (fastforce simp: dn_ok_def same_shape_def intro: order_trans)
    qed
  qed
  moreover have "nmax net m \<le> nmax net' m" for m
    using bumpedD(4) [OF net'(2), of m] ds(5) by simp
  ultimately show ?thesis
    using sh by blast
qed


subsection \<open>Creating nodes\<close>

text \<open>\<open>Topology::new\<close>: the root of the tree, alone in the store.\<close>

definition topology_net :: net where
  "topology_net =
     \<lparr>net_nodes = (\<lambda>_. node_new NoneNode [])(0 := node_new TopologyNode ''topo''),
      net_dns = (\<lambda>_. \<lparr>dn_ip = [], dn_port = 0, dn_public_url = [], dn_last_seen = 0, dn_volumes = [],
        dn_ec_shards = [], dn_ec_shard_count = 0\<rparr>),
      net_next = 1\<rparr>"

definition get_or_create_data_center :: "nref \<Rightarrow> string \<Rightarrow> net \<Rightarrow> ((nref, volume_error) result \<times> net) option" where
  "get_or_create_data_center topo name net =
     (case map_of (nd_children (net_nodes net topo)) name of
        Some data_center \<Rightarrow> Some (downcast_data_center net data_center, net)
      | None \<Rightarrow> do {
          let (data_center, net) = alloc_node (node_new DataCenterNode name) net;
          net \<leftarrow> link_child_node topo data_center net;
          Some (Ok data_center, net)
        })"

lemma tree_ok_topology_net: "tree_ok topology_net"
proof -
  have "counter_of k (node_new t i) = 0" for k t i
    by (cases k) (simp_all add: node_new_def)
  then show ?thesis
    by (simp add: tree_ok_def topology_net_def linked_def max_ok_def unused_def excess_def child_sum_def)
      (simp add: node_new_def)
qed

lemma unused_not_linked:
  assumes "tree_ok net" "net_next net \<le> n"
  shows "(i, n) \<notin> set (nd_children (net_nodes net m))" "nd_parent (net_nodes net m) \<noteq> Some n"
proof -
  have lk: "linked net" and un: "nd_parent (net_nodes net n) = None" "nd_children (net_nodes net n) = []"
    using assms by (simp_all add: tree_ok_def unused_def)
  show "(i, n) \<notin> set (nd_children (net_nodes net m))"
    using linked_child [OF lk, of i n m] un(1) by auto
  show "nd_parent (net_nodes net m) \<noteq> Some n"
    using lk un(2) unfolding linked_def by force
qed

text \<open>A new node, not yet linked, keeps the invariant.\<close>

lemma tree_ok_alloc:
  assumes ok: "tree_ok net" and nd: "nd_parent nd = None" "nd_children nd = []"
    and zero: "nd_type nd = DataNodeNode \<or> (\<forall>k. counter_of k nd = 0)"
  shows "tree_ok (upd_dn (net_next net) f (snd (alloc_node nd net)))"
proof -
  let ?r = "net_next net" and ?net' = "upd_dn (net_next net) f (snd (alloc_node nd net))"
  have t: "linked net" "max_ok net" "\<And>m. ?r \<le> m \<Longrightarrow> unused net m"
      "\<And>m. nd_type (net_nodes net m) = DataNodeNode \<Longrightarrow> nd_children (net_nodes net m) = []"
      "\<And>k m. nd_type (net_nodes net m) \<noteq> DataNodeNode \<Longrightarrow> excess k net m = 0"
      "\<And>m. nd_type (net_nodes net m) = DataNodeNode \<Longrightarrow> nd_parent (net_nodes net m) \<noteq> None \<Longrightarrow> dn_ok net m"
    using ok by (simp_all add: tree_ok_def)
  note out = unused_not_linked [OF ok order_refl]
  have nodes: "net_nodes ?net' = (net_nodes net)(?r := nd)" and nxt: "net_next ?net' = Suc ?r"
    by (simp_all add: alloc_node_def)
  have dns: "net_dns ?net' m = net_dns net m" if "m \<noteq> ?r" for m
    using that by (simp add: alloc_node_def)
  have ex: "excess k ?net' m = excess k net m" if "m \<noteq> ?r" for k m
  proof -
    have "map (\<lambda>(_, c). counter_of k (((net_nodes net)(?r := nd)) c)) (nd_children (net_nodes net m)) =
        map (\<lambda>(_, c). counter_of k (net_nodes net c)) (nd_children (net_nodes net m))"
      using out(1) by (intro map_cong) (auto split: prod.splits)
    then show ?thesis
      using that by (simp only: excess_def child_sum_def nodes fun_upd_apply if_False)
  qed
  show ?thesis
    unfolding tree_ok_def
  proof (intro conjI allI impI)
    show "linked ?net'"
      using t(1) out nd unfolding linked_def nodes by (auto split: if_splits)
    show "max_ok ?net'"
      using t(2) out nd unfolding max_ok_def nodes by (auto split: if_splits)
    show "unused ?net' m" if "net_next ?net' \<le> m" for m
      using t(3) [of m] that unfolding unused_def nodes nxt by simp
    show "nd_children (net_nodes ?net' m) = []" if "nd_type (net_nodes ?net' m) = DataNodeNode" for m
      using t(4) [of m] that nd unfolding nodes by (simp split: if_splits)
    show "excess k ?net' m = 0" if "nd_type (net_nodes ?net' m) \<noteq> DataNodeNode" for k m
    proof (cases "m = ?r")
      case True
      then show ?thesis
        using zero that nd excess_leaf [of ?net' m k] unfolding nodes by auto
    next
      case False
      then show ?thesis
        using t(5) [of m k] ex that unfolding nodes by simp
    qed
    show "dn_ok ?net' m" if "nd_type (net_nodes ?net' m) = DataNodeNode" "nd_parent (net_nodes ?net' m) \<noteq> None" for m
      using t(6) [of m] that nd dns [of m] unfolding dn_ok_def nodes by (auto split: if_splits)
  qed
qed


definition grown :: "net \<Rightarrow> net \<Rightarrow> bool" where
  "grown net net' \<longleftrightarrow> net_next net \<le> net_next net' \<and>
     (\<forall>m < net_next net. nd_id (net_nodes net' m) = nd_id (net_nodes net m) \<and>
        nd_type (net_nodes net' m) = nd_type (net_nodes net m) \<and>
        nd_parent (net_nodes net' m) = nd_parent (net_nodes net m) \<and> net_dns net' m = net_dns net m \<and>
        nmax net m \<le> nmax net' m) \<and>
     (\<forall>m. net_dns net' m = net_dns net m \<or> dn_volumes (net_dns net' m) = [])"

lemma grown_refl [simp]: "grown net net"
  by (simp add: grown_def)

lemma grown_trans: "grown a b \<Longrightarrow> grown b c \<Longrightarrow> grown a c"
  unfolding grown_def by (auto intro: le_trans order_trans) metis

lemma level_inject: "level s = level t \<longleftrightarrow> s = t"
  by (cases s; cases t) simp_all

lemma upd_dn_id [simp]: "upd_dn n (\<lambda>dn. dn) net = net"
  by (simp add: upd_dn_def)

text \<open>A reference to a node of type \<open>t\<close> below \<open>p\<close>, with the id \<open>i\<close>.\<close>

definition child_at :: "node_type \<Rightarrow> nref \<Rightarrow> string \<Rightarrow> nref \<Rightarrow> net \<Rightarrow> bool" where
  "child_at t p i r net \<longleftrightarrow> r < net_next net \<and> nd_type (net_nodes net r) = t \<and> nd_parent (net_nodes net r) = Some p \<and>
     nd_id (net_nodes net r) = i"

lemma child_at_grown: "child_at t p i r net \<Longrightarrow> grown net net' \<Longrightarrow> child_at t p i r net'"
  by (auto simp: child_at_def grown_def)

lemma new_child_ok:
  assumes ok: "tree_ok net" and lt: "n < net_next net"
    and nd: "nd_parent nd = None" "nd_children nd = []" "nd_id nd = i" "nd_type nd = t"
    and lev: "Suc (level t) = nlevel net n"
    and zero: "t = DataNodeNode \<or> (\<forall>k. counter_of k nd = 0)"
    and dn: "t = DataNodeNode \<Longrightarrow> nd_volume_count nd = 0 \<and> dn_volumes (f (net_dns net (net_next net))) = []"
    and no_dn: "t \<noteq> DataNodeNode \<Longrightarrow> f (net_dns net (net_next net)) = net_dns net (net_next net)"
    and fresh: "map_of (nd_children (net_nodes net n)) i = None"
  shows "\<exists>net'. link_child_node n (net_next net) (upd_dn (net_next net) f (snd (alloc_node nd net))) = Some net' \<and>
    tree_ok net' \<and> grown net net' \<and> child_at t n i (net_next net) net'"
proof -
  let ?r = "net_next net" and ?n1 = "upd_dn (net_next net) f (snd (alloc_node nd net))"
  have ok1: "tree_ok ?n1"
    using tree_ok_alloc [OF ok nd(1,2)] zero nd(4) by blast
  have nodes: "net_nodes ?n1 = (net_nodes net)(?r := nd)" and nxt: "net_next ?n1 = Suc ?r"
    by (simp_all add: alloc_node_def)
  have dns: "net_dns ?n1 = (net_dns net)(?r := f (net_dns net ?r))"
    by (simp add: alloc_node_def)
  have "nd_type (net_nodes ?n1 ?r) = DataNodeNode \<Longrightarrow> dn_ok ?n1 ?r"
    using dn nd(4) unfolding dn_ok_def nodes dns by simp
  then obtain net' net1 where net': "link_child_node n ?r ?n1 = Some net'" "tree_ok net'" "net' = attach n ?r net1" "same_shape ?n1 net1"
      "\<forall>m. nmax ?n1 m \<le> nmax net1 m"
    using link_child_node_ok [OF ok1, of n ?r] lt lev nd fresh unfolding nodes nxt
    by (auto simp: map_of_eq_None_iff)
  have ne: "n \<noteq> ?r"
    using lt by simp
  have "grown net net'"
    unfolding grown_def net'(3) attach_simps [OF ne] using net'(4,5) lt dn no_dn unfolding same_shape_def nodes dns nxt
    by (cases "t = DataNodeNode") (auto split: if_splits)
  moreover have "child_at t n i ?r net'"
    unfolding child_at_def net'(3) attach_simps [OF ne] using net'(4) nd unfolding same_shape_def nodes nxt by simp
  ultimately show ?thesis
    using net'(1,2) by blast
qed

lemma old_child_ok:
  assumes ok: "tree_ok net" and "map_of (nd_children (net_nodes net n)) i = Some r" and "Suc (level t) = nlevel net n"
  shows "downcast t net r = Ok r" "child_at t n i r net"
proof -
  have mem: "(i, r) \<in> set (nd_children (net_nodes net n))"
    using assms(2) by (rule map_of_SomeD)
  have lk: "linked net"
    using ok by (simp add: tree_ok_def)
  have "r < net_next net"
    using unused_not_linked(1) [OF ok, of r] mem by (meson not_le)
  moreover have par: "nd_parent (net_nodes net r) = Some n" "nd_id (net_nodes net r) = i"
    using lk mem unfolding linked_def by blast+
  moreover have "Suc (nlevel net r) = nlevel net n"
    using lk par unfolding linked_def by blast
  then have "nd_type (net_nodes net r) = t"
    using assms(3) by (simp add: level_inject [symmetric])
  ultimately show "downcast t net r = Ok r" "child_at t n i r net"
    by (simp_all add: downcast_def child_at_def)
qed

lemma counter_of_new [simp]: "counter_of k (node_new t i) = 0"
  by (cases k) (simp_all add: node_new_def)

lemma node_new_simps [simp]:
  "nd_parent (node_new t i) = None" "nd_children (node_new t i) = []" "nd_id (node_new t i) = i"
  "nd_type (node_new t i) = t" "nd_volume_count (node_new t i) = 0"
  by (simp_all add: node_new_def)

lemma get_or_create_data_center_ok:
  assumes "tree_ok net" "topo < net_next net" "nd_type (net_nodes net topo) = TopologyNode"
  shows "\<exists>r net'. get_or_create_data_center topo i net = Some (Ok r, net') \<and> tree_ok net' \<and> grown net net' \<and>
    child_at DataCenterNode topo i r net'"
proof (cases "map_of (nd_children (net_nodes net topo)) i")
  case None
  from new_child_ok [OF assms(1,2) _ _ _ _ _ _ _ _ None, of "node_new DataCenterNode i" DataCenterNode "\<lambda>dn. dn"] assms(3)
  show ?thesis
    using None by (auto simp: get_or_create_data_center_def alloc_node_def Let_def)
next
  case (Some r)
  then show ?thesis
    using old_child_ok [OF assms(1) Some, of DataCenterNode] assms(1,3) by (auto simp: get_or_create_data_center_def)
qed

lemma get_or_create_rack_ok:
  assumes "tree_ok net" "dc < net_next net" "nd_type (net_nodes net dc) = DataCenterNode"
  shows "\<exists>r net'. get_or_create_rack dc i net = Some (Ok r, net') \<and> tree_ok net' \<and> grown net net' \<and>
    child_at RackNode dc i r net'"
proof (cases "map_of (nd_children (net_nodes net dc)) i")
  case None
  from new_child_ok [OF assms(1,2) _ _ _ _ _ _ _ _ None, of "node_new RackNode i" RackNode "\<lambda>dn. dn"] assms(3)
  show ?thesis
    using None by (auto simp: get_or_create_rack_def alloc_node_def Let_def)
next
  case (Some r)
  then show ?thesis
    using old_child_ok [OF assms(1) Some, of RackNode] assms(1,3) by (auto simp: get_or_create_rack_def)
qed

lemma get_or_create_data_node_ok:
  assumes "tree_ok net" "rack < net_next net" "nd_type (net_nodes net rack) = RackNode"
  shows "\<exists>r net'. get_or_create_data_node rack i ip port url mx net = Some (Ok r, net') \<and> tree_ok net' \<and> grown net net' \<and>
    child_at DataNodeNode rack i r net'"
proof (cases "map_of (nd_children (net_nodes net rack)) i")
  case None
  let ?dn = "\<lparr>dn_ip = ip, dn_port = port, dn_public_url = url, dn_last_seen = 0, dn_volumes = [],
      dn_ec_shards = [], dn_ec_shard_count = 0\<rparr>"
  from new_child_ok [OF assms(1,2) _ _ _ _ _ _ _ _ None,
      of "(node_new DataNodeNode i)\<lparr>nd_max_volume_count := mx\<rparr>" DataNodeNode "\<lambda>_. ?dn"] assms(3)
  show ?thesis
    using None by (auto simp: get_or_create_data_node_def data_node_new_def alloc_node_def Let_def)
next
  case (Some r)
  then show ?thesis
    using old_child_ok [OF assms(1) Some, of DataNodeNode] assms(1,3) by (auto simp: get_or_create_data_node_def)
qed

subsection \<open>A volume server connects\<close>

definition get_or_default :: "string \<Rightarrow> string" where
  "get_or_default s = (if s = [] then ''default'' else s)"

text \<open>
  The tree part of the first heartbeat: \<open>ip\<close> is what the server calls itself, \<open>remote\<close> the address it
  connects from.
\<close>

definition update_topology ::
    "nref \<Rightarrow> string \<Rightarrow> string \<Rightarrow> string \<Rightarrow> string \<Rightarrow> u32 \<Rightarrow> string \<Rightarrow> u32 \<Rightarrow> net \<Rightarrow>
     ((nref, volume_error) result \<times> net) option" where
  "update_topology topo ip remote data_center rack port public_url max_volume_count net =
     (let ip = (if ip = [] then remote else ip);
          data_center = get_or_default data_center;
          rack = get_or_default rack
      in do {
        (r, net) \<leftarrow> get_or_create_data_center topo data_center net;
        case r of
          Err e \<Rightarrow> Some (Err e, net)
        | Panic \<Rightarrow> Some (Panic, net)
        | Ok dc \<Rightarrow> do {
            let net = set_parent (Some topo) dc net;
            (r, net) \<leftarrow> get_or_create_rack dc rack net;
            case r of
              Err e \<Rightarrow> Some (Err e, net)
            | Panic \<Rightarrow> Some (Panic, net)
            | Ok rack \<Rightarrow> do {
                let net = set_parent (Some dc) rack net;
                (r, net) \<leftarrow> get_or_create_data_node rack (ip @ '':'' @ fmt_dec (unat port)) ip (ucast port)
                  public_url (uint max_volume_count) net;
                case r of
                  Ok dn \<Rightarrow> Some (Ok dn, set_parent (Some rack) dn net)
                | _ \<Rightarrow> Some (Panic, net)
              }
          }
      })"

lemma set_parent_same: "nd_parent (net_nodes net n) = p \<Longrightarrow> set_parent p n net = net"
  by (auto simp: set_parent_def upd_node_def)

lemma update_topology_ok:
  assumes "tree_ok net" "topo < net_next net" "nd_type (net_nodes net topo) = TopologyNode"
  shows "\<exists>dn net' rack dc. update_topology topo ip remote dcn rn port url mx net = Some (Ok dn, net') \<and> tree_ok net' \<and> grown net net' \<and>
    child_at DataCenterNode topo (get_or_default dcn) dc net' \<and> child_at RackNode dc (get_or_default rn) rack net' \<and>
    child_at DataNodeNode rack ((if ip = [] then remote else ip) @ '':'' @ fmt_dec (unat port)) dn net'"
proof -
  let ?ip = "if ip = [] then remote else ip"
  obtain dc n1 where n1: "get_or_create_data_center topo (get_or_default dcn) net = Some (Ok dc, n1)" "tree_ok n1" "grown net n1"
      "child_at DataCenterNode topo (get_or_default dcn) dc n1"
    using get_or_create_data_center_ok [OF assms] by blast
  obtain rack n2 where n2: "get_or_create_rack dc (get_or_default rn) n1 = Some (Ok rack, n2)" "tree_ok n2" "grown n1 n2"
      "child_at RackNode dc (get_or_default rn) rack n2"
    using get_or_create_rack_ok [OF n1(2), of dc] n1(4) unfolding child_at_def by blast
  obtain dn n3 where n3: "get_or_create_data_node rack (?ip @ '':'' @ fmt_dec (unat port)) ?ip (ucast port) url (uint mx) n2 =
        Some (Ok dn, n3)" "tree_ok n3" "grown n2 n3" "child_at DataNodeNode rack (?ip @ '':'' @ fmt_dec (unat port)) dn n3"
    using get_or_create_data_node_ok [OF n2(2), of rack] n2(4) unfolding child_at_def by blast
  have "set_parent (Some topo) dc n1 = n1" "set_parent (Some dc) rack n2 = n2" "set_parent (Some rack) dn n3 = n3"
    using n1(4) n2(4) n3(4) by (simp_all add: set_parent_same child_at_def)
  then have "update_topology topo ip remote dcn rn port url mx net = Some (Ok dn, n3)"
    using n1(1) n2(1) n3(1) unfolding update_topology_def Let_def by simp
  then show ?thesis
    using n3(2,4) grown_trans [OF grown_trans [OF n1(3) n2(3)] n3(3)] child_at_grown [OF n1(4) grown_trans [OF n2(3) n3(3)]]
      child_at_grown [OF n2(4) n3(3)] by blast
qed

subsection \<open>A volume server disconnects\<close>

text \<open>The tree part of \<open>unregister_data_node\<close>.\<close>

definition unlink_data_node :: "nref \<Rightarrow> net \<Rightarrow> net option" where
  "unlink_data_node x net = do {
     net \<leftarrow> adjust_volume_count (- nd_volume_count (net_nodes net x)) x net;
     net \<leftarrow> adjust_active_volume_count (- nd_active_volume_count (net_nodes net x)) x net;
     net \<leftarrow> adjust_max_volume_count (- nd_max_volume_count (net_nodes net x)) x net;
     case nd_parent (net_nodes net x) of
       Some rack \<Rightarrow> unlink_child_node rack (nd_id (net_nodes net x)) net
     | None \<Rightarrow> Some net
   }"

lemma linked_data_node:
  assumes "tree_ok net" "nd_parent (net_nodes net x) = Some rack"
  shows "(nd_id (net_nodes net x), x) \<in> set (nd_children (net_nodes net rack))" "rack < net_next net"
proof -
  show "(nd_id (net_nodes net x), x) \<in> set (nd_children (net_nodes net rack))"
    using assms by (simp add: tree_ok_def linked_def)
  show "rack < net_next net"
    using assms unused_not_linked(2) [OF assms(1), of rack x] by (meson not_le)
qed

lemma same_shape_detach: "same_shape a b \<Longrightarrow> same_shape (detach n i c a) (detach n i c b)"
  by (auto simp: same_shape_def detach_def set_parent_def)

lemma unlink_data_node_ok:
  assumes "tree_ok net" "nd_type (net_nodes net x) = DataNodeNode" "nd_parent (net_nodes net x) = Some rack"
  shows "\<exists>net'. unlink_data_node x net = Some net' \<and> tree_ok net' \<and>
    same_shape (detach rack (nd_id (net_nodes net x)) x net) net' \<and> (\<forall>m. nmax net m \<le> nmax net' m)"
proof -
  have bt: "tree_but x net"
    using assms tree_but_of_ok by blast
  obtain n1 where n1: "adjust_counter VolumeCount (- nd_volume_count (net_nodes net x)) x net = Some n1" "tree_but x n1" "same_shape net n1" "nmax n1 = nmax net"
    using tree_but_adjust_counter [OF bt] by blast
  obtain n2 where n2: "adjust_counter ActiveVolumeCount (- nd_active_volume_count (net_nodes n1 x)) x n1 = Some n2" "tree_but x n2" "same_shape n1 n2" "nmax n2 = nmax n1"
    using tree_but_adjust_counter [OF n1(2)] by blast
  obtain n3 where n3: "adjust_counter MaxVolumeCount (- nd_max_volume_count (net_nodes n2 x)) x n2 = Some n3" "tree_but x n3" "same_shape n2 n3" "nmax n3 = nmax n2"
    using tree_but_adjust_counter [OF n2(2)] by blast
  have sh: "same_shape net n3"
    using same_shape_trans n1(3) n2(3) n3(3) by blast
  have mem: "(nd_id (net_nodes n3 x), x) \<in> set (nd_children (net_nodes n3 rack))" "rack < net_next n3"
    using linked_data_node [OF assms(1,3)] sh by (simp_all add: same_shape_def)
  obtain net' where net': "unlink_child_node rack (nd_id (net_nodes n3 x)) n3 = Some net'" "tree_ok net'"
      "same_shape (detach rack (nd_id (net_nodes n3 x)) x n3) net'" "\<forall>m. nmax n3 m \<le> nmax net' m"
    using unlink_child_node_ok [OF n3(2) mem] by blast
  have "unlink_data_node x net = Some net'"
    using n1(1) n2(1) n3(1) net'(1) assms(3) sh
    by (simp add: unlink_data_node_def adjust_volume_count_def adjust_active_volume_count_def adjust_max_volume_count_def
      same_shape_def)
  moreover have "same_shape (detach rack (nd_id (net_nodes net x)) x net) net'"
  proof (rule same_shape_trans [OF same_shape_detach [OF sh]])
    have "nd_id (net_nodes n3 x) = nd_id (net_nodes net x)"
      using sh by (simp add: same_shape_def)
    then show "same_shape (detach rack (nd_id (net_nodes net x)) x n3) net'"
      using net'(3) by simp
  qed
  moreover have "\<forall>m. nmax net m \<le> nmax net' m"
    using net'(4) n1(4) n2(4) n3(4) by (simp add: fun_eq_iff)
  ultimately show ?thesis
    using net'(2) by blast
qed

text \<open>A data node that lost its place in the tree is linked again, under the names as they are in the heartbeat.\<close>

definition register_data_node ::
    "nref \<Rightarrow> string \<Rightarrow> string \<Rightarrow> nref \<Rightarrow> net \<Rightarrow> ((unit, volume_error) result \<times> net) option" where
  "register_data_node topo dc_name rack_name x net =
     (if nd_parent (net_nodes net x) \<noteq> None then Some (Ok (), net)
      else do {
        (r, net) \<leftarrow> get_or_create_data_center topo dc_name net;
        case r of
          Err e \<Rightarrow> Some (Err e, net)
        | Panic \<Rightarrow> Some (Panic, net)
        | Ok dc \<Rightarrow> do {
            (r, net) \<leftarrow> get_or_create_rack dc rack_name net;
            case r of
              Err e \<Rightarrow> Some (Err e, net)
            | Panic \<Rightarrow> Some (Panic, net)
            | Ok rack \<Rightarrow> do {
                net \<leftarrow> link_child_node rack x net;
                Some (Ok (), set_parent (Some rack) x net)
              }
          }
      })"

subsection \<open>Reserving a slot\<close>

definition free_sum :: "net \<Rightarrow> nref list \<Rightarrow> int" where
  "free_sum net cs = (\<Sum>c \<leftarrow> cs. free_space (net_nodes net c))"

lemma pick_child_ok:
  "0 \<le> rand \<Longrightarrow> rand < free_sum net cs \<Longrightarrow>
     \<exists>c r. pick_child net cs rand = Some (c, r) \<and> c \<in> set cs \<and> 0 \<le> r \<and> r < free_space (net_nodes net c)"
proof (induction cs arbitrary: rand)
  case (Cons c cs)
  show ?case
  proof (cases "free_space (net_nodes net c) \<le> 0")
    case True
    then have "rand < free_sum net cs"
      using Cons.prems(2) by (simp add: free_sum_def)
    then show ?thesis
      using Cons.IH [OF Cons.prems(1)] True by (auto simp: Let_def)
  next
    case False
    then show ?thesis
      using Cons.IH [of "rand - free_space (net_nodes net c)"] Cons.prems by (auto simp: Let_def free_sum_def)
  qed
qed (simp add: free_sum_def)

lemma sum_list_diff: "(\<Sum>x \<leftarrow> xs. f x - g x) = (\<Sum>x \<leftarrow> xs. f x) - (\<Sum>x \<leftarrow> xs. g x :: int)"
  by (induction xs) simp_all

text \<open>Without erasure-coded shards the free space of an inner node is the sum over its children.\<close>

lemma free_space_sum:
  assumes "tree_ok net" "nd_type (net_nodes net n) \<noteq> DataNodeNode" "\<forall>m. nd_ec_shard_count (net_nodes net m) = 0"
  shows "free_space (net_nodes net n) = free_sum net (map snd (nd_children (net_nodes net n)))"
proof -
  have "excess MaxVolumeCount net n = 0" "excess VolumeCount net n = 0"
    using assms(1,2) by (simp_all add: tree_ok_def)
  then show ?thesis
    using assms(3)
    by (simp add: free_space_def free_sum_def excess_def child_sum_def sum_list_diff [symmetric] o_def case_prod_beta)
qed

text \<open>The strict descendants of a node.\<close>

abbreviation under :: "net \<Rightarrow> nref \<Rightarrow> nref \<Rightarrow> bool" where
  "under net \<equiv> (\<lambda>c p. nd_parent (net_nodes net c) = Some p)\<^sup>+\<^sup>+"

lemma reserve_one_volume_ok:
  assumes "tree_ok net" "\<forall>m. nd_ec_shard_count (net_nodes net m) = 0"
    and "nd_type (net_nodes net n) \<noteq> DataNodeNode" "0 \<le> rand" "rand < free_space (net_nodes net n)"
  shows "\<exists>d. reserve_one_volume net n rand = Some (Ok d) \<and> nd_type (net_nodes net d) = DataNodeNode \<and>
    0 < free_space (net_nodes net d) \<and> under net d n"
  using assms(3-5)
proof (induction "nlevel net n" arbitrary: n rand rule: less_induct)
  case less
  obtain c r where c: "pick_child net (map snd (nd_children (net_nodes net n))) rand = Some (c, r)"
      "c \<in> set (map snd (nd_children (net_nodes net n)))" "0 \<le> r" "r < free_space (net_nodes net c)"
    using pick_child_ok [OF less.prems(2)] less.prems(3) free_space_sum [OF assms(1) less.prems(1) assms(2)] by metis
  have lk: "linked net"
    using assms(1) by (simp add: tree_ok_def)
  have par: "nd_parent (net_nodes net c) = Some n"
    using c(2) linked_child [OF lk] by auto
  show ?case
  proof (cases "nd_type (net_nodes net c) = DataNodeNode")
    case True
    then show ?thesis
      using c par by (subst reserve_one_volume.simps) (auto simp: is_data_node_def downcast_def intro!: tranclp.r_into_trancl)
  next
    case False
    obtain d where d: "reserve_one_volume net c r = Some (Ok d)" "nd_type (net_nodes net d) = DataNodeNode"
        "0 < free_space (net_nodes net d)" "under net d c"
      using less.hyps [OF linked_parent_less [OF lk par] False c(3,4)] by blast
    have "reserve_one_volume net n rand = Some (Ok d)"
      using c(1) False d(1) by (subst reserve_one_volume.simps) (simp add: is_data_node_def)
    moreover have "under net d n"
      using d(4) par by (rule tranclp.trancl_into_trancl)
    ultimately show ?thesis
      using d(2,3) by blast
  qed
qed

subsection \<open>Runs\<close>

lemma delta_update_volumes_ok:
  assumes "node_ok x net"
  shows "\<exists>net'. delta_update_volumes news dels x net = Some net' \<and> node_ok x net' \<and> volumes_changed x net net' \<and>
    map_of (vols net' x) = (\<lambda>i. if i \<in> vi_id ` set dels then None else map_of (vols net x) i) ++
      map_of (rev (map (\<lambda>v. (vi_id v, v)) news))"
proof -
  obtain n1 where n1: "delete_volumes dels x net = Some n1" "node_ok x n1" "volumes_changed x net n1"
      "map_of (vols n1 x) = (\<lambda>i. if i \<in> vi_id ` set dels then None else map_of (vols net x) i)"
    using delete_volumes_ok [OF assms] by blast
  obtain new n2 where n2: "add_volumes news x n1 = Some (new, n2)" "node_ok x n2" "volumes_changed x n1 n2"
      "map_of (vols n2 x) = map_of (vols n1 x) ++ map_of (rev (map (\<lambda>v. (vi_id v, v)) news))"
    using add_volumes_ok [OF n1(2)] by blast
  then show ?thesis
    using n1 volumes_changed_trans [OF n1(3) n2(3)] by (simp add: delta_update_volumes_def)
qed

lemma update_volumes_report:
  assumes nok: "node_ok x net"
  shows "\<exists>new dels net'. update_volumes infos x net = Some (new, dels, net') \<and> node_ok x net' \<and> volumes_changed x net net' \<and>
    map_of (dn_volumes (net_dns net' x)) = map_of (rev (map (\<lambda>v. (vi_id v, v)) infos)) \<and>
    nd_volume_count (net_nodes net' x) = int (card (vi_id ` set infos)) \<and>
    vi_id ` set new = vi_id ` set infos - fst ` set (dn_volumes (net_dns net x)) \<and>
    vi_id ` set dels = fst ` set (dn_volumes (net_dns net x)) - vi_id ` set infos \<and>
    set new \<subseteq> set infos \<and> set dels \<subseteq> snd ` set (dn_volumes (net_dns net x)) \<union> set infos"
proof -
  let ?ids = "map (vi_id \<circ> snd) (filter (\<lambda>(i, _). i \<notin> vi_id ` set infos) (vols net x))"
  have "?ids = map fst (filter (\<lambda>(i, _). i \<notin> vi_id ` set infos) (vols net x))"
    using nok by (intro map_cong) (auto simp: node_ok_def dn_ok_def)
  then have ids: "set ?ids = fst ` set (vols net x) - vi_id ` set infos"
    by (simp only: set_map set_filter) (auto simp: image_iff)
  obtain new n1 where n1: "add_volumes infos x net = Some (new, n1)" "node_ok x n1" "volumes_changed x net n1"
      "map_of (vols n1 x) = map_of (vols net x) ++ map_of (rev (map (\<lambda>v. (vi_id v, v)) infos))"
      "vi_id ` set new = vi_id ` set infos - fst ` set (vols net x)" "set new \<subseteq> set infos"
    using add_volumes_ok [OF nok] by blast
  from drop_ids_ok [OF n1(2)] obtain dels n2 where n2: "drop_ids ?ids x n1 = Some (dels, n2)" "node_ok x n2" "volumes_changed x n1 n2"
      "map_of (vols n2 x) = (\<lambda>i. if i \<in> set ?ids then None else map_of (vols n1 x) i)"
      "vi_id ` set dels = set ?ids \<inter> fst ` set (vols n1 x)" "set dels \<subseteq> snd ` set (vols n1 x)"
    by blast
  have dom_rep: "dom (map_of (rev (map (\<lambda>v. (vi_id v, v)) infos))) = vi_id ` set infos"
    by (simp add: dom_map_of_conv_image_fst image_image)
  have d1: "fst ` set (vols n1 x) = fst ` set (vols net x) \<union> vi_id ` set infos"
    using arg_cong [OF n1(4), of dom] dom_rep by (auto simp: dom_map_of_conv_image_fst)
  have m2: "map_of (vols n2 x) = map_of (rev (map (\<lambda>v. (vi_id v, v)) infos))"
  proof
    fix i
    show "map_of (vols n2 x) i = map_of (rev (map (\<lambda>v. (vi_id v, v)) infos)) i"
    proof (cases "i \<in> vi_id ` set infos")
      case True
      then show ?thesis
        unfolding n2(4) n1(4) ids using dom_rep by (auto simp: map_add_def split: option.splits)
    next
      case False
      then have "map_of (rev (map (\<lambda>v. (vi_id v, v)) infos)) i = None"
        using dom_rep by blast
      moreover have "map_of (vols net x) i = None" if "i \<notin> fst ` set (vols net x)"
        using that by (simp add: map_of_eq_None_iff)
      ultimately show ?thesis
        unfolding n2(4) n1(4) ids using False by (simp add: map_add_def)
    qed
  qed
  have "distinct (map fst (vols n2 x))" "nd_volume_count (net_nodes n2 x) = int (length (vols n2 x))"
    using n2(2) by (simp_all add: node_ok_def dn_ok_def)
  moreover have "fst ` set (vols n2 x) = vi_id ` set infos"
    using arg_cong [OF m2, of dom] dom_rep by (simp add: dom_map_of_conv_image_fst)
  ultimately have "nd_volume_count (net_nodes n2 x) = int (card (vi_id ` set infos))"
    by (metis distinct_card length_map set_map)
  moreover have "vi_id ` set dels = fst ` set (vols net x) - vi_id ` set infos"
    using n2(5) unfolding ids d1 by blast
  moreover have "update_volumes infos x net = Some (new, dels, n2)"
    using n1(1) n2(1) by (simp add: update_volumes_def Let_def)
  moreover have "snd ` set (vols n1 x) \<subseteq> snd ` set (vols net x) \<union> set infos"
  proof -
    have "distinct (map fst (vols n1 x))"
      using n1(2) by (simp add: node_ok_def dn_ok_def)
    then have "map_of (vols net x) i = Some v \<or> v \<in> set infos" if "(i, v) \<in> set (vols n1 x)" for i v
      using that n1(4) map_of_SomeD [of "rev (map (\<lambda>v. (vi_id v, v)) infos)" i v]
      by (auto simp: map_add_Some_iff map_of_eq_Some_iff [symmetric] simp del: map_of_eq_Some_iff)
    then show ?thesis
      by (force dest: map_of_SomeD)
  qed
  then have "set dels \<subseteq> snd ` set (vols net x) \<union> set infos"
    using n2(6) by blast
  ultimately show ?thesis
    using n1(5,6) n2(2) volumes_changed_trans [OF n1(3) n2(3)] m2 by (intro exI conjI) assumption+
qed

text \<open>What heartbeats and disconnections do to the tree, with the topology node at 0.\<close>

inductive tree_step :: "net \<Rightarrow> net \<Rightarrow> bool" where
  connect: "update_topology 0 ip remote dc rack port url mx net = Some (r, net') \<Longrightarrow> tree_step net net'"
| report: "nd_type (net_nodes net x) = DataNodeNode \<Longrightarrow> nd_parent (net_nodes net x) \<noteq> None \<Longrightarrow>
    update_volumes infos x net = Some (new, dels, net') \<Longrightarrow> tree_step net net'"
| delta: "nd_type (net_nodes net x) = DataNodeNode \<Longrightarrow> nd_parent (net_nodes net x) \<noteq> None \<Longrightarrow>
    delta_update_volumes news olds x net = Some net' \<Longrightarrow> tree_step net net'"
| disconnect: "nd_type (net_nodes net x) = DataNodeNode \<Longrightarrow> nd_parent (net_nodes net x) \<noteq> None \<Longrightarrow>
    unlink_data_node x net = Some net' \<Longrightarrow> tree_step net net'"

definition rooted :: "net \<Rightarrow> bool" where
  "rooted net \<longleftrightarrow> 0 < net_next net \<and> nd_type (net_nodes net 0) = TopologyNode"

lemma rooted_step:
  assumes "tree_step net net'" "tree_ok net" "rooted net"
  shows "tree_ok net' \<and> rooted net'"
  using assms(1)
proof cases
  case (connect ip remote dc rack port url mx r)
  then show ?thesis
    using update_topology_ok [OF assms(2), of 0 ip remote dc rack port url mx] assms(3) unfolding rooted_def grown_def
    by (metis (no_types, lifting) Pair_inject less_le_trans option.inject)
next
  case (report x infos new dels)
  have "node_ok x net'" "volumes_changed x net net'"
    using update_volumes_report [OF node_ok_of_tree [OF assms(2) report(1,2)], of infos] report(3) by auto
  then show ?thesis
    using node_ok_tree assms(3) by (simp add: rooted_def volumes_changed_def)
next
  case (delta x news olds)
  have "node_ok x net' \<and> volumes_changed x net net'"
    using delta_update_volumes_ok [OF node_ok_of_tree [OF assms(2) delta(1,2)], of news olds] delta(3) by auto
  then show ?thesis
    using node_ok_tree assms(3) by (auto simp: rooted_def volumes_changed_def)
next
  case (disconnect x)
  then obtain rack where rack: "nd_parent (net_nodes net x) = Some rack"
    by auto
  have "tree_ok net' \<and> same_shape (detach rack (nd_id (net_nodes net x)) x net) net'"
    using unlink_data_node_ok [OF assms(2) disconnect(1) rack] disconnect(3) by auto
  then show ?thesis
    using assms(3) by (auto simp: rooted_def same_shape_def detach_def set_parent_def)
qed

interpretation tree_run: kept_by_steps topology_net tree_step "\<lambda>net. tree_ok net \<and> rooted net"
proof
  show "tree_ok topology_net \<and> rooted topology_net"
    by (simp add: tree_ok_topology_net) (simp add: rooted_def topology_net_def)
qed (use rooted_step in blast)

lemmas tree_ok_reachable = tree_run.inv_reachable

lemma child_level: "tree_ok net \<Longrightarrow> (i, c) \<in> set (nd_children (net_nodes net n)) \<Longrightarrow> Suc (nlevel net c) = nlevel net n"
  unfolding tree_ok_def linked_def by blast

lemma child_data_node:
  assumes "tree_ok net" "(i, c) \<in> set (nd_children (net_nodes net n))" "nlevel net n = 1"
  shows "dn_ok net c"
proof -
  have "nd_type (net_nodes net c) = DataNodeNode"
    using child_level [OF assms(1,2)] assms(3) by (simp add: level_inject [symmetric])
  moreover have "nd_parent (net_nodes net c) = Some n"
    using assms(1,2) linked_child by (auto simp: tree_ok_def)
  ultimately show ?thesis
    using assms(1) by (simp add: tree_ok_def)
qed

lemma counter_is_sum:
  assumes "tree_ok net" "nd_type (net_nodes net n) \<noteq> DataNodeNode"
  shows "counter_of k (net_nodes net n) = (\<Sum>(_, c) \<leftarrow> nd_children (net_nodes net n). counter_of k (net_nodes net c))"
proof -
  have "excess k net n = 0"
    using assms by (simp add: tree_ok_def)
  then show ?thesis
    by (simp add: excess_def child_sum_def)
qed

lemma sum_children_cong:
  "xs = ys \<Longrightarrow> (\<And>i c. (i, c) \<in> set ys \<Longrightarrow> f c = g c) \<Longrightarrow> (\<Sum>(_, c) \<leftarrow> xs. f c) = (\<Sum>(_, c) \<leftarrow> ys. g c)"
  by (auto intro!: arg_cong [of _ _ sum_list] map_cong)

lemma volume_count_sum:
  assumes "tree_ok net" "nlevel net n \<noteq> 0"
  shows "nd_volume_count (net_nodes net n) = (\<Sum>(_, c) \<leftarrow> nd_children (net_nodes net n). nd_volume_count (net_nodes net c))"
  using counter_is_sum [OF assms(1), of n VolumeCount] assms(2) by (cases "nd_type (net_nodes net n)") simp_all

lemma under_nmax:
  assumes "tree_ok net" "under net a b"
  shows "nmax net a \<le> nmax net b"
proof -
  have step: "nmax net c \<le> nmax net p" if "nd_parent (net_nodes net c) = Some p" for c p
    using assms(1) that unfolding tree_ok_def linked_def max_ok_def by blast
  show ?thesis
    using assms(2) by (induction rule: tranclp_induct) (use step in \<open>auto intro: order_trans\<close>)
qed

subsection \<open>Properties\<close>

text \<open>A cluster of one data node, reference 3, with room for two volumes.\<close>

definition demo_net :: net where
  "demo_net = snd (the (update_topology 0 ''10.0.0.1'' [] ''dc'' [] 80 [] 2 topology_net))"

definition demo_volume :: volume_info where
  "demo_volume = \<lparr>vi_id = 7, vi_size = 0, vi_replica_placement = rp_default, vi_ttl = ttl_default,
     vi_collection = [], vi_version = CURRENT_VERSION, vi_file_count = 0, vi_delete_count = 0,
     vi_delete_bytes = 0, vi_read_only = False\<rparr>"

lemmas demo_eval =
  demo_net_def update_topology_def get_or_default_def topology_net_def get_or_create_data_center_def
  get_or_create_rack_def get_or_create_data_node_def data_node_new_def alloc_node_def node_new_def link_child_node_def
  set_parent_def adjust_max_volume_count_def adjust_volume_count_def adjust_ec_shard_count_def
  adjust_active_volume_count_def upd_node_def upd_dn_def adjust_counter.simps adjust_max_volume_id.simps Let_def
  free_space_def

lemma demo_connect: "update_topology 0 ''10.0.0.1'' [] ''dc'' [] 80 [] 2 topology_net = Some (Ok 3, demo_net)"
  and demo_type: "nd_type (net_nodes demo_net 3) = DataNodeNode"
  and demo_parents: "nd_parent (net_nodes demo_net 3) = Some 2" "nd_parent (net_nodes demo_net 2) = Some 1"
    "nd_parent (net_nodes demo_net 1) = Some 0"
  and demo_free: "free_space (net_nodes demo_net 0) = 2"
  by (simp_all add: demo_eval)


lemma demo_root: "nd_type (net_nodes demo_net 0) = TopologyNode" and demo_no_volumes: "dn_volumes (net_dns demo_net m) = []"
  and demo_no_ec: "\<forall>m. nd_ec_shard_count (net_nodes demo_net m) = 0"
  by (simp_all add: demo_eval)

lemma demo_run: "tree_step\<^sup>*\<^sup>* topology_net demo_net"
  by (rule r_into_rtranclp) (rule tree_step.connect [OF demo_connect])

lemma tree_ok_demo: "tree_ok demo_net"
  using tree_ok_reachable [OF demo_run] by simp

text \<open>
  C17. A full heartbeat report always finishes, leaves the data node with exactly the reported volumes (the last
  report of an id wins), names as new the ids that were not there and as deleted the ids no longer reported,
  touches no other data node and no link of the tree, and keeps every counter of every inner node equal to the
  sum over its children and the data node's volume counter equal to the number of its volumes.
\<close>

theorem update_volumes_installs_report:
  assumes "tree_ok net" "nd_type (net_nodes net x) = DataNodeNode" "nd_parent (net_nodes net x) \<noteq> None"
  shows "\<exists>new dels net'. update_volumes infos x net = Some (new, dels, net') \<and> tree_ok net' \<and> volumes_changed x net net' \<and>
    map_of (dn_volumes (net_dns net' x)) = map_of (rev (map (\<lambda>v. (vi_id v, v)) infos)) \<and>
    nd_volume_count (net_nodes net' x) = int (card (vi_id ` set infos)) \<and>
    vi_id ` set new = vi_id ` set infos - fst ` set (dn_volumes (net_dns net x)) \<and>
    vi_id ` set dels = fst ` set (dn_volumes (net_dns net x)) - vi_id ` set infos"
  using update_volumes_report [OF node_ok_of_tree [OF assms], of infos]
  by (elim exE conjE) (intro exI conjI, assumption, erule node_ok_tree, assumption+)




theorem update_volumes_installs_report_witness:
  "\<exists>new dels net'. update_volumes [demo_volume] 3 demo_net = Some (new, dels, net') \<and> tree_ok net' \<and>
     map_of (dn_volumes (net_dns net' 3)) = [7 \<mapsto> demo_volume] \<and> nd_volume_count (net_nodes net' 3) = 1"
  using update_volumes_installs_report [OF tree_ok_demo demo_type, of "[demo_volume]"] demo_parents
  by (auto simp: demo_volume_def)

text \<open>
  C18. As long as no data node holds erasure-coded shards, a random number below the free space that a rack, a
  data center or the topology reports always leads to a data node below it that has a free slot: the search
  ends and does not fail.
\<close>

theorem reserve_one_volume_finds_slot:
  assumes "tree_step\<^sup>*\<^sup>* topology_net net" "\<forall>m. nd_ec_shard_count (net_nodes net m) = 0"
    and "nd_type (net_nodes net n) \<noteq> DataNodeNode" "0 \<le> rand" "rand < free_space (net_nodes net n)"
  shows "\<exists>d. reserve_one_volume net n rand = Some (Ok d) \<and> nd_type (net_nodes net d) = DataNodeNode \<and>
    0 < free_space (net_nodes net d) \<and> under net d n"
  using reserve_one_volume_ok [OF conjunct1 [OF tree_ok_reachable [OF assms(1)]] assms(2-)] .

theorem reserve_one_volume_finds_slot_witness:
  "\<exists>d. reserve_one_volume demo_net 0 1 = Some (Ok d) \<and> 0 < free_space (net_nodes demo_net d)"
  using reserve_one_volume_finds_slot [OF demo_run, of 0 1]
    demo_no_ec demo_root demo_free by auto

text \<open>
  With shards on two nodes of a rack the rack promises a slot more than its nodes have: it rounds the shards
  once, they round twice. The search fails.
\<close>

definition shard_net :: net where
  "shard_net = demo_net\<lparr>net_nodes := (\<lambda>n. (node_new NoneNode [])\<lparr>nd_max_volume_count := 4, nd_ec_shard_count := 2, nd_type := RackNode,
       nd_children := [(''a'', 1), (''b'', 2)]\<rparr>)
     (1 := (node_new DataNodeNode ''a'')\<lparr>nd_max_volume_count := 2, nd_ec_shard_count := 1, nd_parent := Some 0\<rparr>,
      2 := (node_new DataNodeNode ''b'')\<lparr>nd_max_volume_count := 2, nd_ec_shard_count := 1, nd_parent := Some 0\<rparr>)\<rparr>"

theorem reserve_one_volume_fails_with_shards:
  "free_space (net_nodes shard_net 0) = 3 \<and>
   (\<exists>e. reserve_one_volume shard_net 0 2 = Some (Err (VNoFreeSpace e)))"
  by (subst reserve_one_volume.simps) (simp add: shard_net_def free_space_def node_new_def Let_def)


text \<open>
  A node that is unregistered, because an older connection of its server ends, and registered again by the
  next heartbeat is back in the tree without any capacity, and under a rack with an empty name where the
  first heartbeat had used the default.
\<close>

theorem relinked_node_has_no_capacity:
  "\<exists>net1 net2. unlink_data_node 3 demo_net = Some net1 \<and> register_data_node 0 ''dc'' [] 3 net1 = Some (Ok (), net2) \<and>
     free_space (net_nodes demo_net 3) = 2 \<and> free_space (net_nodes net2 3) = 0 \<and>
     rack_id demo_net 3 = ''default'' \<and> rack_id net2 3 = []"
  by (simp add: unlink_data_node_def register_data_node_def unlink_child_node_def rack_id_def parent_id_def downcast_def demo_eval)

end
