(* ===== verification/TopoLayout.thy ===== *)
theory TopoLayout
  imports TopoTree Sequence
begin

section \<open>Volume layouts and collections\<close>

text \<open>
  \<open>topology/volume_layout.rs\<close> and \<open>topology/collection.rs\<close>: which volumes of one replication and time to
  live can be written, and where their copies are. The concurrent sets of read-only and oversized volumes are
  sets, the locations an association list from volume ids to references of data nodes in the store of
  \<open>TopoNode\<close>. Two locations are the same when address and port agree.

  The random number generator is a parameter: a state and a function that draws below a bound, of which the
  properties assume only that the number is below the bound (\<open>rng_ok\<close>).
\<close>

subsection \<open>Random numbers\<close>

type_synonym 'r rng = "'r \<Rightarrow> nat \<Rightarrow> nat \<times> 'r"

definition rng_ok :: "'r rng \<Rightarrow> bool" where
  "rng_ok gen \<longleftrightarrow> (\<forall>r n. 0 < n \<longrightarrow> fst (gen r n) < n)"

text \<open>\<open>gen_range(0..n)\<close> panics on an empty range.\<close>

definition gen_range :: "'r rng \<Rightarrow> 'r \<Rightarrow> nat \<Rightarrow> (nat \<times> 'r, 'e) result" where
  "gen_range gen r n = (if n = 0 then Panic else Ok (gen r n))"

definition counting_rng :: "nat rng" where
  "counting_rng r n = (r mod n, Suc r)"

lemma rng_ok_counting: "rng_ok counting_rng"
  by (simp add: rng_ok_def counting_rng_def)

subsection \<open>Volume layouts\<close>

record volume_layout =
  vl_rp :: replica_placement
  vl_ttl :: "ttl option"
  vl_volume_size_limit :: u64
  vl_writable_volumes :: "volume_id list"
  vl_readonly_volumes :: "volume_id set"
  vl_oversize_volumes :: "volume_id set"
  vl_locations :: "(volume_id \<times> nref list) list"

definition volume_layout_new :: "replica_placement \<Rightarrow> ttl option \<Rightarrow> u64 \<Rightarrow> volume_layout" where
  "volume_layout_new rp ttl volume_size_limit =
     \<lparr>vl_rp = rp, vl_ttl = ttl, vl_volume_size_limit = volume_size_limit, vl_writable_volumes = [],
      vl_readonly_volumes = {}, vl_oversize_volumes = {}, vl_locations = []\<rparr>"

record volume_grow_option =
  vgo_collection :: string
  vgo_replica_placement :: replica_placement
  vgo_ttl :: ttl
  vgo_preallocate :: int
  vgo_data_center :: string
  vgo_rack :: string
  vgo_data_node :: string

text \<open>The test on a location that counting and picking share.\<close>

definition matches_option :: "net \<Rightarrow> volume_grow_option \<Rightarrow> nref \<Rightarrow> bool" where
  "matches_option net option node \<longleftrightarrow>
     data_center_id net node = vgo_data_center option \<and>
     \<not> (vgo_rack option \<noteq> [] \<and> rack_id net node \<noteq> vgo_rack option) \<and>
     \<not> (vgo_data_node option \<noteq> [] \<and> nd_id (net_nodes net node) \<noteq> vgo_data_node option)"

definition active_volume_count :: "net \<Rightarrow> volume_grow_option \<Rightarrow> volume_layout \<Rightarrow> nat" where
  "active_volume_count net option vl =
     (if vgo_data_center option = [] then length (vl_writable_volumes vl)
      else \<Sum>vid \<leftarrow> vl_writable_volumes vl.
        case map_of (vl_locations vl) vid of
          Some nodes \<Rightarrow> length (filter (matches_option net option) nodes)
        | None \<Rightarrow> 0)"

text \<open>The candidates in the order of the two loops, and the reservoir of size one over them.\<close>

definition write_candidates :: "net \<Rightarrow> volume_grow_option \<Rightarrow> volume_layout \<Rightarrow> (volume_id \<times> nref list) list" where
  "write_candidates net option vl =
     concat (map (\<lambda>vid.
       case map_of (vl_locations vl) vid of
         Some nodes \<Rightarrow> map (\<lambda>_. (vid, nodes)) (filter (matches_option net option) nodes)
       | None \<Rightarrow> []) (vl_writable_volumes vl))"

fun reservoir_one :: "'r rng \<Rightarrow> 'r \<Rightarrow> nat \<Rightarrow> 'a option \<Rightarrow> 'a list \<Rightarrow> 'a option \<times> 'r" where
  "reservoir_one gen r n picked [] = (picked, r)"
| "reservoir_one gen r n picked (c # cs) =
     (let n = n + 1;
          (d, r) = gen r n
      in reservoir_one gen r n (if d < 1 then Some c else picked) cs)"

definition layout_pick_for_write ::
    "'r rng \<Rightarrow> 'r \<Rightarrow> net \<Rightarrow> volume_grow_option \<Rightarrow> volume_layout \<Rightarrow> (volume_id \<times> nref list, volume_error) result \<times> 'r" where
  "layout_pick_for_write gen r net option vl =
     (if vl_writable_volumes vl = [] then (Err VNoWritableVolumes, r)
      else if vgo_data_center option = [] then
        let (i, r) = gen r (length (vl_writable_volumes vl));
            vid = vl_writable_volumes vl ! i
        in (case map_of (vl_locations vl) vid of
              Some data_nodes \<Rightarrow> (Ok (vid, data_nodes), r)
            | None \<Rightarrow> (Err (VNotFound vid), r))
      else
        (case reservoir_one gen r 0 None (write_candidates net option vl) of
           (Some (vid, nodes), r) \<Rightarrow> (Ok (vid, nodes), r)
         | (None, r) \<Rightarrow> (Err VNoWritableVolumes, r)))"

definition same_address :: "net \<Rightarrow> nref \<Rightarrow> nref \<Rightarrow> bool" where
  "same_address net a b \<longleftrightarrow>
     dn_ip (net_dns net a) = dn_ip (net_dns net b) \<and> dn_port (net_dns net a) = dn_port (net_dns net b)"

fun set_node :: "net \<Rightarrow> nref \<Rightarrow> nref list \<Rightarrow> nref list" where
  "set_node net dn [] = [dn]"
| "set_node net dn (l # ls) = (if same_address net l dn then dn # ls else l # set_node net dn ls)"

definition is_oversize :: "volume_layout \<Rightarrow> volume_info \<Rightarrow> bool" where
  "is_oversize vl v \<longleftrightarrow> vi_size v \<ge> vl_volume_size_limit vl"

definition is_writable :: "volume_layout \<Rightarrow> volume_info \<Rightarrow> bool" where
  "is_writable vl v \<longleftrightarrow> \<not> is_oversize vl v \<and> vi_version v = CURRENT_VERSION \<and> \<not> vi_read_only v"

definition set_volume_writable :: "volume_id \<Rightarrow> volume_layout \<Rightarrow> bool \<times> volume_layout" where
  "set_volume_writable vid vl =
     (if vid \<in> set (vl_writable_volumes vl) then (False, vl)
      else (True, vl\<lparr>vl_writable_volumes := vl_writable_volumes vl @ [vid]\<rparr>))"

text \<open>Removes the last occurrence.\<close>

definition remove_from_writable :: "volume_id \<Rightarrow> volume_layout \<Rightarrow> bool \<times> volume_layout" where
  "remove_from_writable vid vl =
     (if vid \<in> set (vl_writable_volumes vl)
      then (True, vl\<lparr>vl_writable_volumes := rev (remove1 vid (rev (vl_writable_volumes vl)))\<rparr>)
      else (False, vl))"

definition remember_oversized_volume :: "volume_info \<Rightarrow> volume_layout \<Rightarrow> volume_layout" where
  "remember_oversized_volume v vl =
     (if is_oversize vl v
      then vl\<lparr>vl_oversize_volumes := insert (vi_id v) (vl_oversize_volumes vl)\<rparr>
      else vl\<lparr>vl_oversize_volumes := vl_oversize_volumes vl - {vi_id v}\<rparr>)"

definition ensure_correct_writable :: "volume_info \<Rightarrow> volume_layout \<Rightarrow> volume_layout" where
  "ensure_correct_writable v vl =
     (case map_of (vl_locations vl) (vi_id v) of
        Some locations \<Rightarrow>
          if length locations \<ge> copy_count (vl_rp vl) \<and> is_writable vl v then
            if vi_id v \<notin> vl_oversize_volumes vl then snd (set_volume_writable (vi_id v) vl) else vl
          else snd (remove_from_writable (vi_id v) vl)
      | None \<Rightarrow> vl)"

definition set_readonly :: "volume_id \<Rightarrow> bool \<Rightarrow> volume_layout \<Rightarrow> volume_layout" where
  "set_readonly vid ro vl =
     vl\<lparr>vl_readonly_volumes := (if ro then insert vid (vl_readonly_volumes vl) else vl_readonly_volumes vl - {vid})\<rparr>"

text \<open>The loop over the locations; false when it returns early.\<close>

fun check_locations :: "net \<Rightarrow> volume_id \<Rightarrow> nref list \<Rightarrow> volume_layout \<Rightarrow> bool \<times> volume_layout" where
  "check_locations net vid [] vl = (True, vl)"
| "check_locations net vid (l # ls) vl =
     (case get_volume net l vid of
        Some v \<Rightarrow>
          if vi_read_only v
          then (False, set_readonly (vi_id v) True (snd (remove_from_writable (vi_id v) vl)))
          else check_locations net vid ls (set_readonly (vi_id v) False vl)
      | None \<Rightarrow> (False, set_readonly vid False (snd (remove_from_writable vid vl))))"

definition register_volume :: "net \<Rightarrow> volume_info \<Rightarrow> nref \<Rightarrow> volume_layout \<Rightarrow> volume_layout" where
  "register_volume net v dn vl =
     (let locations = set_node net dn (case map_of (vl_locations vl) (vi_id v) of Some ls \<Rightarrow> ls | None \<Rightarrow> []);
          vl = vl\<lparr>vl_locations := AList.update (vi_id v) locations (vl_locations vl)\<rparr>;
          (all_checked, vl) = check_locations net (vi_id v) locations vl
      in if all_checked then ensure_correct_writable v (remember_oversized_volume v vl) else vl)"

definition set_volume_available :: "net \<Rightarrow> volume_id \<Rightarrow> nref \<Rightarrow> volume_layout \<Rightarrow> bool \<times> volume_layout" where
  "set_volume_available net vid data_node vl =
     (case map_of (vl_locations vl) vid of
        Some ls \<Rightarrow>
          let ls = set_node net data_node ls;
              vl = vl\<lparr>vl_locations := AList.update vid ls (vl_locations vl)\<rparr>
          in if length ls = copy_count (vl_rp vl) then set_volume_writable vid vl else (False, vl)
      | None \<Rightarrow> (False, vl))"

definition set_volume_unavailable :: "net \<Rightarrow> volume_id \<Rightarrow> nref \<Rightarrow> volume_layout \<Rightarrow> bool \<times> volume_layout" where
  "set_volume_unavailable net vid data_node vl =
     (case map_of (vl_locations vl) vid of
        Some ls \<Rightarrow>
          let ls = filter (\<lambda>node. \<not> same_address net node data_node) ls;
              vl = vl\<lparr>vl_locations := AList.update vid ls (vl_locations vl)\<rparr>
          in if length ls < copy_count (vl_rp vl) then remove_from_writable vid vl else (False, vl)
      | None \<Rightarrow> (False, vl))"

text \<open>Removes the first location with the address, if there is one.\<close>

fun remove_location :: "net \<Rightarrow> nref \<Rightarrow> nref list \<Rightarrow> nref list option" where
  "remove_location net dn [] = None"
| "remove_location net dn (l # ls) =
     (if same_address net l dn then Some ls else map_option ((#) l) (remove_location net dn ls))"

definition unregister_volume :: "net \<Rightarrow> volume_info \<Rightarrow> nref \<Rightarrow> volume_layout \<Rightarrow> volume_layout" where
  "unregister_volume net v data_node vl =
     (case map_of (vl_locations vl) (vi_id v) of
        Some ls \<Rightarrow>
          (case remove_location net data_node ls of
             Some ls \<Rightarrow>
               let vl = ensure_correct_writable v (vl\<lparr>vl_locations := AList.update (vi_id v) ls (vl_locations vl)\<rparr>)
               in vl\<lparr>vl_locations := filter (\<lambda>(_, ls). ls \<noteq> []) (vl_locations vl)\<rparr>
           | None \<Rightarrow> vl)
      | None \<Rightarrow> vl)"

definition layout_lookup :: "volume_layout \<Rightarrow> volume_id \<Rightarrow> nref list option" where
  "layout_lookup vl vid = map_of (vl_locations vl) vid"


subsection \<open>The invariant of a layout\<close>

abbreviation addr :: "net \<Rightarrow> nref \<Rightarrow> string \<times> u16" where
  "addr net n \<equiv> (dn_ip (net_dns net n), dn_port (net_dns net n))"

definition layout_ok :: "net \<Rightarrow> volume_layout \<Rightarrow> bool" where
  "layout_ok net vl \<longleftrightarrow>
     0 < copy_count (vl_rp vl) \<and> distinct (vl_writable_volumes vl) \<and> distinct (map fst (vl_locations vl)) \<and>
     (\<forall>vid \<in> set (vl_writable_volumes vl). \<exists>ls. map_of (vl_locations vl) vid = Some ls \<and> copy_count (vl_rp vl) \<le> length ls) \<and>
     (\<forall>vid ls. map_of (vl_locations vl) vid = Some ls \<longrightarrow> distinct (map (addr net) ls))"

lemma layout_ok_new: "0 < copy_count rp \<Longrightarrow> layout_ok net (volume_layout_new rp ttl limit)"
  by (simp add: layout_ok_def volume_layout_new_def)

lemma addr_set_node:
  "set (map (addr net) (set_node net dn ls)) = insert (addr net dn) (set (map (addr net) ls))"
  by (induction ls) (auto simp: same_address_def)

lemma set_node_props:
  assumes "distinct (map (addr net) ls)"
  shows "distinct (map (addr net) (set_node net dn ls))" "length ls \<le> length (set_node net dn ls)"
    "length (set_node net dn ls) \<le> Suc (length ls)" "dn \<in> set (set_node net dn ls)"
    "set (set_node net dn ls) \<subseteq> insert dn (set ls)"
proof -
  show "distinct (map (addr net) (set_node net dn ls))"
    using assms
  proof (induction ls)
    case (Cons l ls)
    then show ?case
      using addr_set_node [of net dn ls] by (auto simp: same_address_def image_iff)
  qed simp
qed (induction ls; auto)+

lemma remove_location_props:
  assumes "remove_location net dn ls = Some ls'" "distinct (map (addr net) ls)"
  shows "distinct (map (addr net) ls')" "Suc (length ls') = length ls" "set ls' \<subseteq> set ls"
  using assms
proof (induction ls arbitrary: ls')
  case (Cons l ls)
  {
    case 1
    then show ?case
      using Cons.IH by (fastforce split: if_splits)
  next
    case 2
    then show ?case
      using Cons.IH(2) by (auto split: if_splits)
  next
    case 3
    then show ?case
      using Cons.IH(3) by (fastforce split: if_splits)
  }
qed simp_all

lemma layout_ok_locations:
  assumes "layout_ok net vl" "distinct (map (addr net) ls)"
    and "vid \<notin> set (vl_writable_volumes vl) \<or> copy_count (vl_rp vl) \<le> length ls"
  shows "layout_ok net (vl\<lparr>vl_locations := AList.update vid ls (vl_locations vl)\<rparr>)"
  using assms by (auto simp: layout_ok_def distinct_update update_conv')

lemma writable_removed:
  assumes "layout_ok net vl"
  shows "layout_ok net (snd (remove_from_writable vid vl))"
    "vid \<notin> set (vl_writable_volumes (snd (remove_from_writable vid vl)))"
    "set (vl_writable_volumes (snd (remove_from_writable vid vl))) \<subseteq> set (vl_writable_volumes vl)"
    "vl_locations (snd (remove_from_writable vid vl)) = vl_locations vl" "vl_rp (snd (remove_from_writable vid vl)) = vl_rp vl"
  using assms by (auto simp: layout_ok_def remove_from_writable_def dest: in_set_remove1 notin_set_remove1)


lemma writable_set:
  assumes "layout_ok net vl" "map_of (vl_locations vl) vid = Some ls" "copy_count (vl_rp vl) \<le> length ls"
  shows "layout_ok net (snd (set_volume_writable vid vl))" "vid \<in> set (vl_writable_volumes (snd (set_volume_writable vid vl)))"
    "vl_locations (snd (set_volume_writable vid vl)) = vl_locations vl"
  using assms by (auto simp: layout_ok_def set_volume_writable_def)

lemma remove_from_writable_commute:
  "snd (remove_from_writable vid (vl\<lparr>vl_locations := L\<rparr>)) = (snd (remove_from_writable vid vl))\<lparr>vl_locations := L\<rparr>"
  by (simp add: remove_from_writable_def)

lemma layout_ok_frames [simp]:
  "layout_ok net (set_readonly vid ro vl) \<longleftrightarrow> layout_ok net vl"
  "layout_ok net (remember_oversized_volume v vl) \<longleftrightarrow> layout_ok net vl"
  by (simp_all add: layout_ok_def set_readonly_def remember_oversized_volume_def)

lemma frames_simps [simp]:
  "vl_locations (set_readonly vid ro vl) = vl_locations vl" "vl_rp (set_readonly vid ro vl) = vl_rp vl"
  "vl_writable_volumes (set_readonly vid ro vl) = vl_writable_volumes vl"
  "vl_locations (remember_oversized_volume v vl) = vl_locations vl" "vl_rp (remember_oversized_volume v vl) = vl_rp vl"
  "vl_writable_volumes (remember_oversized_volume v vl) = vl_writable_volumes vl"
  by (simp_all add: set_readonly_def remember_oversized_volume_def)

lemma rp_simps [simp]:
  "vl_rp (snd (set_volume_writable vid vl)) = vl_rp vl" "vl_rp (snd (remove_from_writable vid vl)) = vl_rp vl"
  "vl_locations (snd (set_volume_writable vid vl)) = vl_locations vl" "vl_locations (snd (remove_from_writable vid vl)) = vl_locations vl"
  by (simp_all add: set_volume_writable_def remove_from_writable_def)

text \<open>Whatever the locations of the volume were, deciding about it anew restores the invariant.\<close>

lemma layout_ok_ensure:
  assumes "layout_ok net vl" "distinct (map (addr net) ls)"
    and "vl' = vl\<lparr>vl_locations := AList.update (vi_id v) ls (vl_locations vl)\<rparr>"
  shows "layout_ok net (ensure_correct_writable v vl')"
proof (cases "copy_count (vl_rp vl) \<le> length ls")
  case True
  then have ok: "layout_ok net vl'"
    using layout_ok_locations [OF assms(1,2)] assms(3) by blast
  then show ?thesis
    using True writable_set(1) [OF ok] writable_removed(1) [OF ok] assms(3)
    by (auto simp: ensure_correct_writable_def update_conv')
next
  case False
  have "layout_ok net ((snd (remove_from_writable (vi_id v) vl))\<lparr>vl_locations := AList.update (vi_id v) ls (vl_locations vl)\<rparr>)"
    using layout_ok_locations [OF writable_removed(1) [OF assms(1)] assms(2)] writable_removed(2) [OF assms(1)] by force
  then show ?thesis
    using False assms(3) by (simp add: ensure_correct_writable_def update_conv' remove_from_writable_commute)
qed

lemma ensure_simps [simp]:
  "vl_rp (ensure_correct_writable v vl) = vl_rp vl" "vl_locations (ensure_correct_writable v vl) = vl_locations vl"
  by (simp_all add: ensure_correct_writable_def split: option.splits)

lemma check_locations_ok:
  assumes "layout_ok net vl"
  shows "layout_ok net (snd (check_locations net vid ls vl))"
  using assms
proof (induction ls arbitrary: vl)
  case (Cons l ls)
  then show ?case
    using Cons.IH [of "set_readonly _ False vl"] writable_removed(1) by (auto split: option.splits)
qed simp

lemma check_locations_simps [simp]:
  "vl_locations (snd (check_locations net vid ls vl)) = vl_locations vl" "vl_rp (snd (check_locations net vid ls vl)) = vl_rp vl"
  by (induction ls arbitrary: vl) (auto split: option.splits)

lemma check_locations_limit: "vl_volume_size_limit (snd (check_locations net vid ls vl)) = vl_volume_size_limit vl"
  by (induction ls arbitrary: vl) (auto simp: set_readonly_def remove_from_writable_def split: option.splits)

lemma location_distinct:
  assumes "layout_ok net vl"
  shows "distinct (map (addr net) (case map_of (vl_locations vl) vid of Some ls \<Rightarrow> ls | None \<Rightarrow> []))"
  using assms by (auto simp: layout_ok_def split: option.splits)

lemma register_volume_ok:
  assumes "layout_ok net vl"
  shows "layout_ok net (register_volume net v dn vl)"
proof -
  let ?old = "case map_of (vl_locations vl) (vi_id v) of Some ls \<Rightarrow> ls | None \<Rightarrow> []"
  let ?ls = "set_node net dn ?old" and ?vl = "vl\<lparr>vl_locations := AList.update (vi_id v) (set_node net dn ?old) (vl_locations vl)\<rparr>"
  note props = set_node_props [OF location_distinct [OF assms, of "vi_id v"], of dn]
  have "vi_id v \<notin> set (vl_writable_volumes vl) \<or> copy_count (vl_rp vl) \<le> length ?ls"
    using assms props(2) by (fastforce simp: layout_ok_def)
  then have ok: "layout_ok net ?vl"
    by (rule layout_ok_locations [OF assms props(1)])
  obtain b vl1 where c: "check_locations net (vi_id v) ?ls ?vl = (b, vl1)"
    by fastforce
  have ok1: "layout_ok net vl1" and l1: "vl_locations vl1 = AList.update (vi_id v) ?ls (vl_locations vl)"
    using check_locations_ok [OF ok, of "vi_id v" ?ls] check_locations_simps(1) [of net "vi_id v" ?ls ?vl] c by simp_all
  have "layout_ok net (ensure_correct_writable v (remember_oversized_volume v vl1))"
  proof (rule layout_ok_ensure [of net "remember_oversized_volume v vl1"])
    show "layout_ok net (remember_oversized_volume v vl1)"
      using ok1 by simp
    show "distinct (map (addr net) ?ls)"
      by (rule props(1))
    show "remember_oversized_volume v vl1 = (remember_oversized_volume v vl1)\<lparr>vl_locations :=
        AList.update (vi_id v) ?ls (vl_locations (remember_oversized_volume v vl1))\<rparr>"
      using l1 by (simp add: remember_oversized_volume_def)
  qed
  then show ?thesis
    using c ok1 by (simp add: register_volume_def Let_def)
qed


lemma unregister_volume_ok:
  assumes "layout_ok net vl"
  shows "layout_ok net (unregister_volume net v dn vl)"
proof -
  have "layout_ok net (vl1\<lparr>vl_locations := filter (\<lambda>(_, ls). ls \<noteq> []) (vl_locations vl1)\<rparr>)" if ok: "layout_ok net vl1" for vl1
  proof -
    let ?L = "filter (\<lambda>(_, ls). ls \<noteq> []) (vl_locations vl1)"
    have d: "distinct (map fst (vl_locations vl1))"
      using ok by (simp add: layout_ok_def)
    have keep: "map_of ?L vid = Some ls \<longleftrightarrow> map_of (vl_locations vl1) vid = Some ls \<and> ls \<noteq> []" for vid ls
      using d by (simp add: map_of_eq_Some_iff distinct_map_filter)
    have "\<exists>ls. map_of ?L vid = Some ls \<and> copy_count (vl_rp vl1) \<le> length ls" if vid: "vid \<in> set (vl_writable_volumes vl1)" for vid
    proof -
      obtain ls where "map_of (vl_locations vl1) vid = Some ls" "copy_count (vl_rp vl1) \<le> length ls"
        using ok vid by (auto simp: layout_ok_def)
      then show ?thesis
        using ok keep by (force simp: layout_ok_def)
    qed
    then show ?thesis
      using ok keep d by (auto simp: layout_ok_def distinct_map_filter)
  qed
  moreover have "layout_ok net (ensure_correct_writable v (vl\<lparr>vl_locations := AList.update (vi_id v) ls' (vl_locations vl)\<rparr>))"
    if "map_of (vl_locations vl) (vi_id v) = Some ls" "remove_location net dn ls = Some ls'" for ls ls'
  proof (rule layout_ok_ensure [OF assms _ refl])
    show "distinct (map (addr net) ls')"
      using remove_location_props(1) [OF that(2)] assms that(1) by (simp add: layout_ok_def)
  qed
  ultimately show ?thesis
    using assms by (auto simp: unregister_volume_def Let_def simp del: ensure_simps split: option.splits)
qed

lemma set_volume_available_ok:
  assumes "layout_ok net vl"
  shows "layout_ok net (snd (set_volume_available net vid dn vl))"
proof (cases "map_of (vl_locations vl) vid")
  case None
  then show ?thesis
    using assms by (simp add: set_volume_available_def)
next
  case (Some ls)
  let ?vl = "vl\<lparr>vl_locations := AList.update vid (set_node net dn ls) (vl_locations vl)\<rparr>"
  have "distinct (map (addr net) ls)"
    using assms Some by (simp add: layout_ok_def)
  note props = set_node_props [OF this, of dn]
  have "vid \<notin> set (vl_writable_volumes vl) \<or> copy_count (vl_rp vl) \<le> length (set_node net dn ls)"
    using assms Some props(2) by (fastforce simp: layout_ok_def)
  then have ok: "layout_ok net ?vl"
    by (rule layout_ok_locations [OF assms props(1)])
  then show ?thesis
    using Some writable_set(1) [OF ok, of vid "set_node net dn ls"] by (simp add: set_volume_available_def Let_def update_conv')
qed

lemma set_volume_unavailable_ok:
  assumes "layout_ok net vl"
  shows "layout_ok net (snd (set_volume_unavailable net vid dn vl))"
proof (cases "map_of (vl_locations vl) vid")
  case None
  then show ?thesis
    using assms by (simp add: set_volume_unavailable_def)
next
  case (Some ls)
  let ?ls = "filter (\<lambda>node. \<not> same_address net node dn) ls"
  have d: "distinct (map (addr net) ?ls)"
    using assms Some by (simp add: layout_ok_def distinct_map_filter)
  show ?thesis
  proof (cases "length ?ls < copy_count (vl_rp vl)")
    case True
    have "layout_ok net ((snd (remove_from_writable vid vl))\<lparr>vl_locations := AList.update vid ?ls (vl_locations vl)\<rparr>)"
      using layout_ok_locations [OF writable_removed(1) [OF assms] d] writable_removed(2) [OF assms] by force
    then show ?thesis
      using Some True by (simp add: set_volume_unavailable_def Let_def remove_from_writable_commute)
  next
    case False
    then show ?thesis
      using layout_ok_locations [OF assms d, of vid] Some by (simp add: set_volume_unavailable_def Let_def)
  qed
qed

subsection \<open>When a volume becomes writable\<close>

lemma check_locations_writable:
  assumes "layout_ok net vl" "\<forall>l \<in> set ls. \<forall>v. get_volume net l vid = Some v \<longrightarrow> vi_id v = vid"
  shows "(fst (check_locations net vid ls vl) \<longleftrightarrow>
      (\<forall>l \<in> set ls. \<exists>v. get_volume net l vid = Some v \<and> \<not> vi_read_only v)) \<and>
    (\<not> fst (check_locations net vid ls vl) \<longrightarrow> vid \<notin> set (vl_writable_volumes (snd (check_locations net vid ls vl))))"
  using assms
proof (induction ls arbitrary: vl)
  case (Cons l ls)
  then show ?case
    using Cons.IH [of "set_readonly vid False vl"] writable_removed(2) [OF Cons.prems(1), of vid]
    by (cases "get_volume net l vid") auto
qed simp

text \<open>The locations of a volume after one more data node reported it.\<close>

abbreviation new_locations :: "net \<Rightarrow> volume_layout \<Rightarrow> volume_id \<Rightarrow> nref \<Rightarrow> nref list" where
  "new_locations net vl vid dn \<equiv>
     set_node net dn (case map_of (vl_locations vl) vid of Some ls \<Rightarrow> ls | None \<Rightarrow> [])"

lemma ensure_writable_iff:
  assumes "layout_ok net vl" "map_of (vl_locations vl) (vi_id v) = Some ls"
  shows "vi_id v \<in> set (vl_writable_volumes (ensure_correct_writable v (remember_oversized_volume v vl))) \<longleftrightarrow>
    copy_count (vl_rp vl) \<le> length ls \<and> is_writable vl v"
proof -
  let ?vl = "remember_oversized_volume v vl"
  have w: "is_writable ?vl v \<longleftrightarrow> is_writable vl v"
    by (simp add: is_writable_def is_oversize_def remember_oversized_volume_def)
  have "vi_id v \<notin> vl_oversize_volumes ?vl" if "is_writable vl v"
    using that by (simp add: is_writable_def remember_oversized_volume_def)
  then show ?thesis
    using assms writable_set(2) [of net ?vl "vi_id v" ls] writable_removed(2) [of net ?vl "vi_id v"] w
    by (simp add: ensure_correct_writable_def)
qed


subsection \<open>Picking a volume\<close>

lemma reservoir_one_picks:
  assumes "reservoir_one gen r n p cs = (Some x, r')"
  shows "x \<in> set cs \<or> p = Some x"
  using assms
proof (induction cs arbitrary: r n p)
  case (Cons c cs)
  obtain d r1 where g: "gen r (Suc n) = (d, r1)"
    by fastforce
  show ?case
    using Cons.IH [of r1 "Suc n" "if d < 1 then Some c else p"] Cons.prems g by (auto simp: Let_def split: if_splits)
qed simp

lemma reservoir_one_Some: "p \<noteq> None \<Longrightarrow> fst (reservoir_one gen r n p cs) \<noteq> None"
proof (induction cs arbitrary: r n p)
  case (Cons c cs)
  obtain d r1 where g: "gen r (Suc n) = (d, r1)"
    by fastforce
  show ?case
    using Cons.IH [of "if d < 1 then Some c else p" r1 "Suc n"] Cons.prems g by (auto simp: Let_def split: if_splits)
qed simp

text \<open>The first draw is below one, so the first candidate is taken.\<close>

lemma reservoir_one_nonempty:
  assumes "rng_ok gen" "cs \<noteq> []"
  shows "fst (reservoir_one gen r 0 None cs) \<noteq> None"
proof -
  obtain c cs' where cs: "cs = c # cs'"
    using assms(2) by (cases cs) auto
  obtain d r1 where g: "gen r 1 = (d, r1)"
    by fastforce
  have "d < 1"
    using assms(1) g unfolding rng_ok_def by (metis fst_conv zero_less_one)
  then show ?thesis
    using reservoir_one_Some [of "Some c" gen r1 1 cs'] cs g by (simp add: Let_def)
qed

lemma active_volume_count_candidates:
  assumes "vgo_data_center option \<noteq> []"
  shows "active_volume_count net option vl = length (write_candidates net option vl)"
proof -
  have "(\<Sum>vid \<leftarrow> vs. case map_of L vid of Some nodes \<Rightarrow> length (filter (matches_option net option) nodes) | None \<Rightarrow> 0) =
      length (concat (map (\<lambda>vid. case map_of L vid of
        Some nodes \<Rightarrow> map (\<lambda>_. (vid, nodes)) (filter (matches_option net option) nodes) | None \<Rightarrow> []) vs))"
    for vs and L :: "(volume_id \<times> nref list) list"
    by (induction vs) (auto split: option.splits)
  then show ?thesis
    using assms by (simp add: active_volume_count_def write_candidates_def)
qed

lemma layout_pick_ok:
  assumes "layout_ok net vl" "rng_ok gen" "0 < active_volume_count net option vl"
  shows "\<exists>vid nodes r'. layout_pick_for_write gen r net option vl = (Ok (vid, nodes), r') \<and>
    vid \<in> set (vl_writable_volumes vl) \<and> map_of (vl_locations vl) vid = Some nodes \<and>
    copy_count (vl_rp vl) \<le> length nodes \<and> distinct (map (addr net) nodes) \<and>
    (vgo_data_center option = [] \<or> (\<exists>n \<in> set nodes. matches_option net option n))"
proof (cases "vgo_data_center option = []")
  case True
  let ?W = "vl_writable_volumes vl"
  have ne: "?W \<noteq> []"
    using assms(3) True by (auto simp: active_volume_count_def)
  obtain i r1 where g: "gen r (length ?W) = (i, r1)"
    by fastforce
  have "i < length ?W"
    using assms(2) ne g unfolding rng_ok_def by (metis fst_conv length_greater_0_conv)
  then have "?W ! i \<in> set ?W"
    by simp
  then obtain ls where "map_of (vl_locations vl) (?W ! i) = Some ls" "copy_count (vl_rp vl) \<le> length ls"
    using assms(1) by (auto simp: layout_ok_def)
  then show ?thesis
    using True ne g \<open>?W ! i \<in> set ?W\<close> assms(1) by (simp add: layout_pick_for_write_def layout_ok_def)
next
  case False
  let ?C = "write_candidates net option vl"
  have "?C \<noteq> []"
    using assms(3) active_volume_count_candidates [OF False, of net vl] by auto
  then obtain vid nodes r1 where p: "reservoir_one gen r 0 None ?C = (Some (vid, nodes), r1)"
    using reservoir_one_nonempty [OF assms(2), of ?C r] by (cases "reservoir_one gen r 0 None ?C") auto
  have "(vid, nodes) \<in> set ?C"
    using reservoir_one_picks [OF p] by simp
  then have m: "vid \<in> set (vl_writable_volumes vl)" "map_of (vl_locations vl) vid = Some nodes"
      "\<exists>n \<in> set nodes. matches_option net option n"
    by (auto simp: write_candidates_def split: option.splits)
  then show ?thesis
    using False p assms(1) by (cases "vl_writable_volumes vl") (auto simp: layout_pick_for_write_def layout_ok_def)
qed


subsection \<open>Properties\<close>

lemma register_volume_writable:
  assumes "layout_ok net vl" "\<forall>l \<in> set (new_locations net vl (vi_id v) dn). \<forall>v'. get_volume net l (vi_id v) = Some v' \<longrightarrow> vi_id v' = vi_id v"
  shows "vi_id v \<in> set (vl_writable_volumes (register_volume net v dn vl)) \<longleftrightarrow>
    (\<forall>l \<in> set (new_locations net vl (vi_id v) dn). \<exists>v'. get_volume net l (vi_id v) = Some v' \<and> \<not> vi_read_only v') \<and>
    copy_count (vl_rp vl) \<le> length (new_locations net vl (vi_id v) dn) \<and> is_writable vl v"
proof -
  let ?ls = "new_locations net vl (vi_id v) dn"
  let ?vl = "vl\<lparr>vl_locations := AList.update (vi_id v) ?ls (vl_locations vl)\<rparr>"
  note props = set_node_props [OF location_distinct [OF assms(1), of "vi_id v"], of dn]
  have "vi_id v \<notin> set (vl_writable_volumes vl) \<or> copy_count (vl_rp vl) \<le> length ?ls"
    using assms(1) props(2) by (fastforce simp: layout_ok_def)
  then have ok: "layout_ok net ?vl"
    by (rule layout_ok_locations [OF assms(1) props(1)])
  obtain b vl1 where c: "check_locations net (vi_id v) ?ls ?vl = (b, vl1)"
    by fastforce
  have l1: "layout_ok net vl1" "vl_locations vl1 = vl_locations ?vl" "vl_rp vl1 = vl_rp vl"
    using check_locations_ok [OF ok, of "vi_id v" ?ls] check_locations_simps [of net "vi_id v" ?ls ?vl] c by simp_all
  have lim: "vl_volume_size_limit vl1 = vl_volume_size_limit vl"
    using check_locations_limit [of net "vi_id v" ?ls ?vl] c by simp
  then have w: "is_writable vl1 v \<longleftrightarrow> is_writable vl v"
    by (simp add: is_writable_def is_oversize_def)
  show ?thesis
    using check_locations_writable [OF ok assms(2)] c l1 w
      ensure_writable_iff [OF l1(1), of v ?ls] by (auto simp: register_volume_def Let_def update_conv')
qed

text \<open>
  C16. A report of a volume makes it writable exactly when every data node known to hold it has it on record and
  not read-only, there are at least as many of them as the layout's placement has copies, and the reported
  volume is below the size limit, of the current version and not read-only.
\<close>

theorem register_volume_decides_writable:
  assumes "layout_ok net vl" "\<forall>l v'. get_volume net l (vi_id v) = Some v' \<longrightarrow> vi_id v' = vi_id v"
  shows "vi_id v \<in> set (vl_writable_volumes (register_volume net v dn vl)) \<longleftrightarrow>
    (\<forall>l \<in> set (set_node net dn (case map_of (vl_locations vl) (vi_id v) of Some ls \<Rightarrow> ls | None \<Rightarrow> [])).
       \<exists>v'. get_volume net l (vi_id v) = Some v' \<and> \<not> vi_read_only v') \<and>
    copy_count (vl_rp vl) \<le> length (set_node net dn (case map_of (vl_locations vl) (vi_id v) of Some ls \<Rightarrow> ls | None \<Rightarrow> [])) \<and>
    vi_size v < vl_volume_size_limit vl \<and> vi_version v = CURRENT_VERSION \<and> \<not> vi_read_only v"
  using register_volume_writable [OF assms(1), where v = v and dn = dn] assms(2) by (simp add: is_writable_def is_oversize_def not_le conj_ac)

theorem register_volume_decides_writable_witness:
  "7 \<in> set (vl_writable_volumes
     (register_volume (insert_volume 3 demo_volume demo_net) demo_volume 3 (volume_layout_new rp_default None 1000)))"
proof -
  let ?net = "insert_volume 3 demo_volume demo_net"
  have "get_volume ?net 3 7 = Some demo_volume"
    by (simp add: get_volume_def insert_volume_def demo_volume_def update_conv')
  moreover have "vi_id v' = 7" if "get_volume ?net l 7 = Some v'" for l v'
    using that by (auto simp: get_volume_def insert_volume_def demo_volume_def update_conv' demo_no_volumes split: if_splits)
  moreover have "layout_ok ?net (volume_layout_new rp_default None 1000)"
    by (rule layout_ok_new) (simp add: copy_count_def rp_default_def)
  ultimately show ?thesis
    using register_volume_decides_writable [of ?net "volume_layout_new rp_default None 1000" demo_volume 3]
    by (simp add: volume_layout_new_def demo_volume_def copy_count_def rp_default_def)
qed

end
