(* ===== verification/Topo.thy ===== *)
theory Topo
  imports TopoLayout FileId
begin

section \<open>The topology\<close>

text \<open>
  \<open>topology/collection.rs\<close> and \<open>topology/topology.rs\<close>: the tree of \<open>TopoTree\<close>, the sequencer, and for every
  collection the layouts by replication and time to live. A layout is shared by reference in the code and
  always reached through its collection and key, so an operation on it is an update at that place. What a
  data node reports goes first to its own table and the counters of the tree and then to the layouts.
\<close>

subsection \<open>Collections\<close>

record collection =
  cl_name :: string
  cl_volume_size_limit :: u64
  cl_volume_layouts :: "(string \<times> volume_layout) list"

definition collection_new :: "string \<Rightarrow> u64 \<Rightarrow> collection" where
  "collection_new name volume_size_limit =
     \<lparr>cl_name = name, cl_volume_size_limit = volume_size_limit, cl_volume_layouts = []\<rparr>"

definition layout_key :: "replica_placement \<Rightarrow> ttl option \<Rightarrow> string" where
  "layout_key rp ttl = (case ttl of Some ttl \<Rightarrow> rp_display rp @ ttl_display ttl | None \<Rightarrow> rp_display rp)"

definition get_or_create_volume_layout ::
    "replica_placement \<Rightarrow> ttl option \<Rightarrow> collection \<Rightarrow> volume_layout \<times> collection" where
  "get_or_create_volume_layout rp ttl c =
     (let key = layout_key rp ttl in
      case map_of (cl_volume_layouts c) key of
        Some vl \<Rightarrow> (vl, c)
      | None \<Rightarrow>
          let vl = volume_layout_new rp ttl (cl_volume_size_limit c)
          in (vl, c\<lparr>cl_volume_layouts := AList.update key vl (cl_volume_layouts c)\<rparr>))"

fun first_location :: "volume_layout list \<Rightarrow> volume_id \<Rightarrow> nref list option" where
  "first_location [] vid = None"
| "first_location (vl # vls) vid =
     (case layout_lookup vl vid of Some ls \<Rightarrow> Some ls | None \<Rightarrow> first_location vls vid)"

definition collection_lookup :: "collection \<Rightarrow> volume_id \<Rightarrow> nref list option" where
  "collection_lookup c vid = first_location (map snd (cl_volume_layouts c)) vid"

subsection \<open>The state\<close>

record ec_shard_locations =
  esl_collection :: string
  esl_locations :: "nref list list"

record 'f topology =
  tp_net :: net
  tp_sequencer :: "'f sequencer"
  tp_collections :: "(string \<times> collection) list"
  tp_ec_shards :: "(volume_id \<times> ec_shard_locations) list"
  tp_volume_size_limit :: u64

definition topology_new :: "'f sequencer \<Rightarrow> u64 \<Rightarrow> 'f topology" where
  "topology_new sequencer volume_size_limit =
     \<lparr>tp_net = topology_net, tp_sequencer = sequencer, tp_collections = [], tp_ec_shards = [],
      tp_volume_size_limit = volume_size_limit\<rparr>"

text \<open>
  \<open>get_volume_layout\<close> followed by an operation on the layout: the collection and the layout are created when
  they are missing.
\<close>

definition get_volume_layout ::
    "string \<Rightarrow> replica_placement \<Rightarrow> ttl \<Rightarrow> (volume_layout \<Rightarrow> 'a \<times> volume_layout) \<Rightarrow> 'f topology \<Rightarrow> 'a \<times> 'f topology" where
  "get_volume_layout name rp ttl f t =
     (let c = (case map_of (tp_collections t) name of
                 Some c \<Rightarrow> c
               | None \<Rightarrow> collection_new name (tp_volume_size_limit t));
          (vl, c) = get_or_create_volume_layout rp (Some ttl) c;
          (a, vl) = f vl;
          c = c\<lparr>cl_volume_layouts := AList.update (layout_key rp (Some ttl)) vl (cl_volume_layouts c)\<rparr>
      in (a, t\<lparr>tp_collections := AList.update name c (tp_collections t)\<rparr>))"

fun first_collection :: "collection list \<Rightarrow> volume_id \<Rightarrow> nref list option" where
  "first_collection [] vid = None"
| "first_collection (c # cs) vid =
     (case collection_lookup c vid of Some ls \<Rightarrow> Some ls | None \<Rightarrow> first_collection cs vid)"

definition topology_lookup :: "'f topology \<Rightarrow> string \<Rightarrow> volume_id \<Rightarrow> nref list option" where
  "topology_lookup t collection vid =
     (if collection = [] then first_collection (map snd (tp_collections t)) vid
      else case map_of (tp_collections t) collection of
        Some c \<Rightarrow> collection_lookup c vid
      | None \<Rightarrow> None)"

definition has_writable_volume :: "volume_grow_option \<Rightarrow> 'f topology \<Rightarrow> bool \<times> 'f topology" where
  "has_writable_volume option t =
     get_volume_layout (vgo_collection option) (vgo_replica_placement option) (vgo_ttl option)
       (\<lambda>vl. (active_volume_count (tp_net t) option vl > 0, vl)) t"

definition pick_for_write ::
    "('f, string) flake_next \<Rightarrow> 'r rng \<Rightarrow> 'r \<Rightarrow> u64 \<Rightarrow> volume_grow_option \<Rightarrow> 'f topology \<Rightarrow>
     (file_id \<times> u64 \<times> nref, volume_error) result \<times> 'r \<times> 'f topology" where
  "pick_for_write flake_next gen r count option t =
     (case sequencer_next_file_id flake_next (tp_sequencer t) count of
        Err (e, s) \<Rightarrow> (Err (VBox e), r, t\<lparr>tp_sequencer := s\<rparr>)
      | Panic \<Rightarrow> (Panic, r, t)
      | Ok (key, s) \<Rightarrow>
          let t = t\<lparr>tp_sequencer := s\<rparr>;
              ((picked, r), t) =
                get_volume_layout (vgo_collection option) (vgo_replica_placement option) (vgo_ttl option)
                  (\<lambda>vl. (layout_pick_for_write gen r (tp_net t) option vl, vl)) t
          in (case picked of
                Err e \<Rightarrow> (Err e, r, t)
              | Panic \<Rightarrow> (Panic, r, t)
              | Ok (vid, []) \<Rightarrow> (Panic, r, t)
              | Ok (vid, node # _) \<Rightarrow>
                  let (hash, r) = gen r (2 ^ 32)
                  in (Ok (file_id_new vid key (of_nat hash), count, node), r, t)))"

subsection \<open>Reports of data nodes\<close>

definition register_volume_layout :: "volume_info \<Rightarrow> nref \<Rightarrow> 'f topology \<Rightarrow> 'f topology" where
  "register_volume_layout v dn t =
     snd (get_volume_layout (vi_collection v) (vi_replica_placement v) (vi_ttl v)
       (\<lambda>vl. ((), register_volume (tp_net t) v dn vl)) t)"

definition unregister_volume_layout :: "volume_info \<Rightarrow> nref \<Rightarrow> 'f topology \<Rightarrow> 'f topology" where
  "unregister_volume_layout v dn t =
     snd (get_volume_layout (vi_collection v) (vi_replica_placement v) (vi_ttl v)
       (\<lambda>vl. ((), unregister_volume (tp_net t) v dn vl)) t)"

definition make_unavailable :: "nref \<Rightarrow> volume_id \<times> volume_info \<Rightarrow> 'f topology \<Rightarrow> 'f topology" where
  "make_unavailable dn p t =
     (case p of (vid, v) \<Rightarrow>
        snd (get_volume_layout (vi_collection v) (vi_replica_placement v) (vi_ttl v)
          (set_volume_unavailable (tp_net t) vid dn) t))"

text \<open>The messages that convert; the others are logged.\<close>

definition converted :: "('a, 'e) result list \<Rightarrow> 'a list" where
  "converted rs = concat (map (\<lambda>r. case r of Ok x \<Rightarrow> [x] | _ \<Rightarrow> []) rs)"

definition sync_data_node_registration ::
    "volume_information_message list \<Rightarrow> nref \<Rightarrow> 'f topology \<Rightarrow> (volume_info list \<times> volume_info list \<times> 'f topology) option" where
  "sync_data_node_registration volumes dn t =
     (case update_volumes (converted (map volume_info_new volumes)) dn (tp_net t) of
        None \<Rightarrow> None
      | Some (new_volumes, deleted_volumes, net) \<Rightarrow>
          let t = t\<lparr>tp_net := net\<rparr>;
              t = fold (\<lambda>v. register_volume_layout v dn) new_volumes t;
              t = fold (\<lambda>v. unregister_volume_layout v dn) deleted_volumes t
          in Some (new_volumes, deleted_volumes, t))"

definition incremental_sync_data_node_registration ::
    "volume_short_information_message list \<Rightarrow> volume_short_information_message list \<Rightarrow> nref \<Rightarrow> 'f topology \<Rightarrow>
     'f topology option" where
  "incremental_sync_data_node_registration new_volumes deleted_volumes dn t =
     (let new_vis = converted (map volume_info_new_from_short new_volumes);
          old_vis = converted (map volume_info_new_from_short deleted_volumes)
      in case delta_update_volumes new_vis old_vis dn (tp_net t) of
           None \<Rightarrow> None
         | Some net \<Rightarrow>
             let t = t\<lparr>tp_net := net\<rparr>;
                 t = fold (\<lambda>v. register_volume_layout v dn) new_vis t;
                 t = fold (\<lambda>v. unregister_volume_layout v dn) old_vis t
             in Some t)"

definition unregister_data_node :: "nref \<Rightarrow> 'f topology \<Rightarrow> 'f topology option" where
  "unregister_data_node dn t =
     (let t = fold (make_unavailable dn) (dn_volumes (net_dns (tp_net t) dn)) t
      in case unlink_data_node dn (tp_net t) of
           None \<Rightarrow> None
         | Some net \<Rightarrow> Some (t\<lparr>tp_net := net\<rparr>))"

definition next_volume_id :: "'f topology \<Rightarrow> volume_id" where
  "next_volume_id t = nd_max_volume_id (net_nodes (tp_net t) 0) + 1"

definition set_max_sequence :: "u64 \<Rightarrow> 'f topology \<Rightarrow> 'f topology" where
  "set_max_sequence seq t = t\<lparr>tp_sequencer := sequencer_set_max (tp_sequencer t) seq\<rparr>"


subsection \<open>The invariant\<close>

definition entry_ok :: "net \<Rightarrow> string \<Rightarrow> volume_layout \<Rightarrow> bool" where
  "entry_ok net key vl \<longleftrightarrow> layout_ok net vl \<and> rp_digits (vl_rp vl) \<and> key = layout_key (vl_rp vl) (vl_ttl vl) \<and>
     (\<forall>vid ls. map_of (vl_locations vl) vid = Some ls \<longrightarrow> (\<forall>l \<in> set ls. l < net_next net)) \<and>
     (\<forall>vid \<in> fst ` set (vl_locations vl). vid \<le> nmax net 0)"

text \<open>Every volume on record came from a message, with a placement of digits.\<close>

definition vols_ok :: "net \<Rightarrow> bool" where
  "vols_ok net \<longleftrightarrow> (\<forall>x. \<forall>v \<in> snd ` set (vols net x). rp_digits (vi_replica_placement v))"

definition topo_ok :: "'f topology \<Rightarrow> bool" where
  "topo_ok t \<longleftrightarrow> tree_ok (tp_net t) \<and> rooted (tp_net t) \<and> vols_ok (tp_net t) \<and>
     (\<forall>name c key vl. map_of (tp_collections t) name = Some c \<longrightarrow> map_of (cl_volume_layouts c) key = Some vl \<longrightarrow>
        entry_ok (tp_net t) key vl)"

text \<open>Addresses of existing nodes stay and the root's largest volume id does not fall.\<close>

definition addr_kept :: "net \<Rightarrow> net \<Rightarrow> bool" where
  "addr_kept net net' \<longleftrightarrow> net_next net \<le> net_next net' \<and> nmax net 0 \<le> nmax net' 0 \<and>
     (\<forall>m < net_next net. addr net' m = addr net m)"

lemma addr_kept_grown: "grown net net' \<Longrightarrow> rooted net \<Longrightarrow> addr_kept net net'"
  by (simp add: addr_kept_def grown_def rooted_def)

lemma addr_kept_volumes: "volumes_changed x net net' \<Longrightarrow> addr_kept net net'"
  by (auto simp: addr_kept_def volumes_changed_def)

lemma entry_ok_kept:
  assumes "entry_ok net key vl" "addr_kept net net'"
  shows "entry_ok net' key vl"
proof -
  have "distinct (map (addr net') ls)" if ls: "map_of (vl_locations vl) vid = Some ls" for vid ls
  proof -
    have "map (addr net') ls = map (addr net) ls"
      using assms ls by (intro map_cong refl) (auto simp: entry_ok_def addr_kept_def)
    moreover have "distinct (map (addr net) ls)"
      using assms(1) ls unfolding entry_ok_def layout_ok_def by blast
    ultimately show ?thesis
      by (simp only:)
  qed
  then have "layout_ok net' vl"
    using assms(1) unfolding entry_ok_def layout_ok_def by blast
  moreover have "l < net_next net'" if "map_of (vl_locations vl) vid = Some ls" "l \<in> set ls" for vid ls l
    using assms that less_le_trans unfolding entry_ok_def addr_kept_def by blast
  moreover have "\<forall>vid \<in> fst ` set (vl_locations vl). vid \<le> nmax net' 0"
    using assms order_trans unfolding entry_ok_def addr_kept_def by blast
  ultimately show ?thesis
    using assms(1) by (simp add: entry_ok_def)
qed

lemma topo_ok_net:
  assumes "topo_ok t" "tree_ok net'" "rooted net'" "addr_kept (tp_net t) net'" "vols_ok net'"
  shows "topo_ok (t\<lparr>tp_net := net'\<rparr>)"
  unfolding topo_ok_def
proof (intro conjI allI impI)
  show "entry_ok (tp_net (t\<lparr>tp_net := net'\<rparr>)) key vl"
    if "map_of (tp_collections (t\<lparr>tp_net := net'\<rparr>)) name = Some c" "map_of (cl_volume_layouts c) key = Some vl" for name c key vl
    using assms(1) that entry_ok_kept [OF _ assms(4), of key vl] by (simp add: topo_ok_def)
qed (use assms in simp_all)

lemma layout_key_digits:
  assumes "rp_digits rp" "rp_digits rp'" "layout_key rp ttl = layout_key rp' ttl'"
  shows "rp = rp'"
proof -
  have len: "length (rp_display rp) = 3" if "rp_digits rp" for rp
    using that by (simp add: rp_display_def rp_digits_def fmt_dec_digit)
  have key: "take 3 (layout_key rp ttl) = rp_display rp" if "rp_digits rp" for rp ttl
    using len [OF that] by (simp add: layout_key_def split: option.splits)
  have "rp_display rp = rp_display rp'"
    using key [OF assms(1), of ttl] key [OF assms(2), of ttl'] assms(3) by simp
  then have "rp_new (rp_display rp) = Ok rp'"
    using rp_display_new [OF assms(2)] by (simp only:)
  with rp_display_new [OF assms(1)] show ?thesis
    by simp
qed

text \<open>The layout an operation works on.\<close>

definition the_layout :: "'f topology \<Rightarrow> string \<Rightarrow> replica_placement \<Rightarrow> ttl \<Rightarrow> volume_layout" where
  "the_layout t name rp ttl =
     fst (get_or_create_volume_layout rp (Some ttl)
       (case map_of (tp_collections t) name of Some c \<Rightarrow> c | None \<Rightarrow> collection_new name (tp_volume_size_limit t)))"

lemma get_volume_layout_fst: "fst (get_volume_layout name rp ttl f t) = fst (f (the_layout t name rp ttl))"
  by (simp add: get_volume_layout_def the_layout_def Let_def split: prod.splits)

lemma the_layout_after:
  "the_layout (snd (get_volume_layout name rp ttl f t)) name rp ttl = snd (f (the_layout t name rp ttl))"
  by (simp add: get_volume_layout_def the_layout_def get_or_create_volume_layout_def Let_def update_conv'
    split: prod.splits option.splits)

lemma get_volume_layout_ok:
  assumes "topo_ok t" "rp_digits rp"
    and f: "\<And>vl. entry_ok (tp_net t) (layout_key rp (Some ttl)) vl \<Longrightarrow> vl_rp vl = rp \<Longrightarrow>
      entry_ok (tp_net t) (layout_key rp (Some ttl)) (snd (f vl))"
  shows "topo_ok (snd (get_volume_layout name rp ttl f t)) \<and> tp_net (snd (get_volume_layout name rp ttl f t)) = tp_net t \<and>
    entry_ok (tp_net t) (layout_key rp (Some ttl)) (the_layout t name rp ttl) \<and> vl_rp (the_layout t name rp ttl) = rp"
proof -
  let ?key = "layout_key rp (Some ttl)"
  obtain c where c: "c = (case map_of (tp_collections t) name of Some c \<Rightarrow> c | None \<Rightarrow> collection_new name (tp_volume_size_limit t))"
    by simp
  have entries: "entry_ok (tp_net t) key vl" if "map_of (cl_volume_layouts c) key = Some vl" for key vl
    using assms(1) that c by (auto simp: topo_ok_def collection_new_def split: option.splits)
  obtain vl c1 where g: "get_or_create_volume_layout rp (Some ttl) c = (vl, c1)"
    by fastforce
  have vl: "entry_ok (tp_net t) ?key vl \<and> vl_rp vl = rp"
  proof (cases "map_of (cl_volume_layouts c) ?key")
    case None
    then have "vl = volume_layout_new rp (Some ttl) (cl_volume_size_limit c)"
      using g by (simp add: get_or_create_volume_layout_def Let_def)
    then show ?thesis
      using assms(2) layout_ok_new [of rp "tp_net t"] copy_count_digits [OF assms(2)]
      by (simp add: entry_ok_def) (simp add: volume_layout_new_def)
  next
    case (Some vl')
    then have "entry_ok (tp_net t) ?key vl"
      using g entries by (auto simp: get_or_create_volume_layout_def Let_def)
    then show ?thesis
      using layout_key_digits [OF _ assms(2), of "vl_rp vl" "vl_ttl vl" "Some ttl"] by (simp add: entry_ok_def)
  qed
  have c1: "entry_ok (tp_net t) key vl'" if "map_of (cl_volume_layouts c1) key = Some vl'" for key vl'
    using that g vl entries
    by (auto simp: get_or_create_volume_layout_def Let_def update_conv' split: option.splits if_splits)
  obtain a vl2 where fv: "f vl = (a, vl2)"
    by fastforce
  have res: "get_volume_layout name rp ttl f t = (a, t\<lparr>tp_collections := AList.update name
      (c1\<lparr>cl_volume_layouts := AList.update ?key vl2 (cl_volume_layouts c1)\<rparr>) (tp_collections t)\<rparr>)"
    unfolding get_volume_layout_def c [symmetric] by (simp add: g fv Let_def)
  have the: "the_layout t name rp ttl = vl"
    unfolding the_layout_def c [symmetric] by (simp add: g)
  have "entry_ok (tp_net t) ?key vl2"
    using f [of vl] vl fv by simp
  then show ?thesis
    using assms(1) c1 vl fv unfolding res the by (auto simp: topo_ok_def update_conv' split: if_splits)
qed


subsection \<open>Every operation keeps the invariant\<close>

lemma layout_ttl_simps [simp]:
  "vl_ttl (snd (set_volume_writable vid vl)) = vl_ttl vl" "vl_ttl (snd (remove_from_writable vid vl)) = vl_ttl vl"
  "vl_ttl (set_readonly vid ro vl) = vl_ttl vl" "vl_ttl (remember_oversized_volume v vl) = vl_ttl vl"
  "vl_ttl (ensure_correct_writable v vl) = vl_ttl vl" "vl_ttl (snd (check_locations net vid ls vl)) = vl_ttl vl"
proof -
  show w: "vl_ttl (snd (set_volume_writable vid vl)) = vl_ttl vl" "vl_ttl (snd (remove_from_writable vid vl)) = vl_ttl vl" for vid vl
    by (simp_all add: set_volume_writable_def remove_from_writable_def)
  show s: "vl_ttl (set_readonly vid ro vl) = vl_ttl vl" "vl_ttl (remember_oversized_volume v vl) = vl_ttl vl" for vid ro vl
    by (simp_all add: set_readonly_def remember_oversized_volume_def)
  show "vl_ttl (ensure_correct_writable v vl) = vl_ttl vl"
    by (simp add: ensure_correct_writable_def w split: option.splits)
  show "vl_ttl (snd (check_locations net vid ls vl)) = vl_ttl vl"
    by (induction ls arbitrary: vl) (auto simp: w s split: option.splits)
qed

lemma register_volume_simps [simp]:
  "vl_locations (register_volume net v dn vl) =
     AList.update (vi_id v) (new_locations net vl (vi_id v) dn) (vl_locations vl)"
  "vl_rp (register_volume net v dn vl) = vl_rp vl" "vl_ttl (register_volume net v dn vl) = vl_ttl vl"
proof -
  let ?ls = "new_locations net vl (vi_id v) dn"
  let ?vl = "vl\<lparr>vl_locations := AList.update (vi_id v) ?ls (vl_locations vl)\<rparr>"
  obtain b vl1 where c: "check_locations net (vi_id v) ?ls ?vl = (b, vl1)"
    by fastforce
  have "vl_locations vl1 = vl_locations ?vl" "vl_rp vl1 = vl_rp ?vl" "vl_ttl vl1 = vl_ttl ?vl"
    using check_locations_simps [of net "vi_id v" ?ls ?vl] layout_ttl_simps(6) [of net "vi_id v" ?ls ?vl] c by simp_all
  then show "vl_locations (register_volume net v dn vl) = AList.update (vi_id v) ?ls (vl_locations vl)"
    "vl_rp (register_volume net v dn vl) = vl_rp vl" "vl_ttl (register_volume net v dn vl) = vl_ttl vl"
    by (simp_all add: register_volume_def Let_def c)
qed

lemma entry_ok_max: "entry_ok net key vl \<Longrightarrow> vid \<in> fst ` set (vl_locations vl) \<Longrightarrow> vid \<le> nmax net 0"
  unfolding entry_ok_def by blast

lemma entry_ok_register:
  assumes "entry_ok net key vl" "dn < net_next net" "vi_id v \<le> nmax net 0"
  shows "entry_ok net key (register_volume net v dn vl)"
proof -
  have ok: "layout_ok net vl" and old: "\<And>vid ls l. map_of (vl_locations vl) vid = Some ls \<Longrightarrow> l \<in> set ls \<Longrightarrow> l < net_next net"
    using assms(1) unfolding entry_ok_def by blast+
  have "set (new_locations net vl (vi_id v) dn) \<subseteq> insert dn (set (case map_of (vl_locations vl) (vi_id v) of Some ls \<Rightarrow> ls | None \<Rightarrow> []))"
    by (rule set_node_props(5) [OF location_distinct [OF ok]])
  then have "l < net_next net" if "l \<in> set (new_locations net vl (vi_id v) dn)" for l
    using that assms(2) old by (auto split: option.splits)
  then have "\<forall>vid ls. map_of (vl_locations (register_volume net v dn vl)) vid = Some ls \<longrightarrow> (\<forall>l \<in> set ls. l < net_next net)"
    using old by (simp add: update_conv')
  moreover have "\<forall>vid \<in> fst ` set (vl_locations (register_volume net v dn vl)). vid \<le> nmax net 0"
    using assms(1,3) set_alist_update [of "vi_id v" "new_locations net vl (vi_id v) dn" "vl_locations vl"]
    unfolding entry_ok_def register_volume_simps by force
  ultimately show ?thesis
    using assms(1) register_volume_ok [OF ok] by (simp add: entry_ok_def)
qed

lemma unregister_volume_simps [simp]:
  "vl_rp (unregister_volume net v dn vl) = vl_rp vl" "vl_ttl (unregister_volume net v dn vl) = vl_ttl vl"
  by (simp_all add: unregister_volume_def Let_def split: option.splits)

lemma unregister_volume_locations:
  assumes "layout_ok net vl" "map_of (vl_locations (unregister_volume net v dn vl)) vid = Some ls"
  shows "\<exists>ls'. map_of (vl_locations vl) vid = Some ls' \<and> set ls \<subseteq> set ls'"
proof (cases "map_of (vl_locations vl) (vi_id v)")
  case None
  then show ?thesis
    using assms(2) by (auto simp: unregister_volume_def)
next
  case (Some old)
  show ?thesis
  proof (cases "remove_location net dn old")
    case None
    then show ?thesis
      using Some assms(2) by (auto simp: unregister_volume_def)
  next
    case (Some rest)
    have d: "distinct (map (addr net) old)" "distinct (map fst (vl_locations vl))"
      using assms(1) \<open>map_of (vl_locations vl) (vi_id v) = Some old\<close> unfolding layout_ok_def by blast+
    have sub: "set rest \<subseteq> set old"
      by (rule remove_location_props(3) [OF Some d(1)])
    have "(vid, ls) \<in> set (AList.update (vi_id v) rest (vl_locations vl))"
      using assms(2) Some \<open>map_of (vl_locations vl) (vi_id v) = Some old\<close> map_of_SomeD
      by (fastforce simp: unregister_volume_def Let_def)
    then have "map_of (AList.update (vi_id v) rest (vl_locations vl)) vid = Some ls"
      using d(2) by (simp add: distinct_update)
    then show ?thesis
      using sub \<open>map_of (vl_locations vl) (vi_id v) = Some old\<close> by (auto simp: update_conv' split: if_splits)
  qed
qed

lemma entry_ok_unregister:
  assumes "entry_ok net key vl"
  shows "entry_ok net key (unregister_volume net v dn vl)"
proof -
  have ok: "layout_ok net vl"
    using assms by (simp add: entry_ok_def)
  have "l < net_next net" if "map_of (vl_locations (unregister_volume net v dn vl)) vid = Some ls" "l \<in> set ls" for vid ls l
    using unregister_volume_locations [OF ok that(1)] that(2) assms unfolding entry_ok_def by blast
  moreover have "fst ` set (vl_locations (unregister_volume net v dn vl)) \<subseteq> fst ` set (vl_locations vl)"
  proof -
    have "vid \<in> fst ` set (vl_locations vl)" if vid: "vid \<in> fst ` set (vl_locations (unregister_volume net v dn vl))" for vid
    proof -
      obtain ls where "map_of (vl_locations (unregister_volume net v dn vl)) vid = Some ls"
        using vid by (metis domD dom_map_of_conv_image_fst)
      then show ?thesis
        using unregister_volume_locations [OF ok] by (metis domI dom_map_of_conv_image_fst)
    qed
    then show ?thesis
      by blast
  qed
  then have "\<forall>vid \<in> fst ` set (vl_locations (unregister_volume net v dn vl)). vid \<le> nmax net 0"
    using entry_ok_max [OF assms] by blast
  ultimately show ?thesis
    using assms unregister_volume_ok [OF ok] by (simp add: entry_ok_def)
qed

lemma entry_ok_unavailable:
  assumes "entry_ok net key vl"
  shows "entry_ok net key (snd (set_volume_unavailable net vid dn vl))"
proof -
  have ok: "layout_ok net vl"
    using assms by (simp add: entry_ok_def)
  have "l < net_next net"
    if "map_of (vl_locations (snd (set_volume_unavailable net vid dn vl))) i = Some ls" "l \<in> set ls" for i ls l
    using that assms
    by (auto simp: entry_ok_def set_volume_unavailable_def Let_def update_conv' split: option.splits if_splits)
  moreover have "vl_rp (snd (set_volume_unavailable net vid dn vl)) = vl_rp vl" "vl_ttl (snd (set_volume_unavailable net vid dn vl)) = vl_ttl vl"
    by (simp_all add: set_volume_unavailable_def Let_def split: option.splits)
  moreover have "fst ` set (vl_locations (snd (set_volume_unavailable net vid dn vl))) = fst ` set (vl_locations vl)"
  proof (cases "map_of (vl_locations vl) vid")
    case (Some ls)
    then have "vid \<in> fst ` set (vl_locations vl)"
      by (metis domI dom_map_of_conv_image_fst)
    then show ?thesis
      using Some dom_update [of vid _ "vl_locations vl"]
      by (simp add: set_volume_unavailable_def Let_def dom_map_of_conv_image_fst insert_absorb)
  qed (simp add: set_volume_unavailable_def)
  then have "\<forall>i \<in> fst ` set (vl_locations (snd (set_volume_unavailable net vid dn vl))). i \<le> nmax net 0"
    using entry_ok_max [OF assms] by blast
  ultimately show ?thesis
    using assms set_volume_unavailable_ok [OF ok] by (simp add: entry_ok_def)
qed


lemma register_volume_layout_ok:
  assumes "topo_ok t" "rp_digits (vi_replica_placement v)" "dn < net_next (tp_net t)" "vi_id v \<le> nmax (tp_net t) 0"
  shows "topo_ok (register_volume_layout v dn t)" "tp_net (register_volume_layout v dn t) = tp_net t"
  using get_volume_layout_ok [OF assms(1,2), of "vi_ttl v" "\<lambda>vl. ((), register_volume (tp_net t) v dn vl)" "vi_collection v"]
    entry_ok_register [OF _ assms(3,4)] by (simp_all add: register_volume_layout_def)

lemma unregister_volume_layout_ok:
  assumes "topo_ok t" "rp_digits (vi_replica_placement v)"
  shows "topo_ok (unregister_volume_layout v dn t)" "tp_net (unregister_volume_layout v dn t) = tp_net t"
  using get_volume_layout_ok [OF assms(1,2), of "vi_ttl v" "\<lambda>vl. ((), unregister_volume (tp_net t) v dn vl)" "vi_collection v"]
    entry_ok_unregister by (simp_all add: unregister_volume_layout_def)

lemma make_unavailable_ok:
  assumes "topo_ok t" "rp_digits (vi_replica_placement v)"
  shows "topo_ok (make_unavailable dn (vid, v) t)" "tp_net (make_unavailable dn (vid, v) t) = tp_net t"
  using get_volume_layout_ok [OF assms(1,2), of "vi_ttl v" "set_volume_unavailable (tp_net t) vid dn" "vi_collection v"]
    entry_ok_unavailable by (simp_all add: make_unavailable_def)

lemma fold_keeps:
  assumes "\<And>x s. x \<in> set xs \<Longrightarrow> P s \<Longrightarrow> P (f x s) \<and> g (f x s) = g s" "P s"
  shows "P (fold f xs s) \<and> g (fold f xs s) = g s"
  using assms
proof (induction xs arbitrary: s)
  case (Cons x xs)
  from Cons.prems have "P (f x s)" "g (f x s) = g s"
    by auto
  with Cons.IH [of "f x s"] Cons.prems(1) show ?case
    by simp
qed simp

lemma fold_register_ok:
  assumes "topo_ok t" "\<forall>v \<in> set vs. rp_digits (vi_replica_placement v)" "dn < net_next (tp_net t)"
    "\<forall>v \<in> set vs. vi_id v \<le> nmax (tp_net t) 0"
  shows "topo_ok (fold (\<lambda>v. register_volume_layout v dn) vs t) \<and> tp_net (fold (\<lambda>v. register_volume_layout v dn) vs t) = tp_net t"
  using fold_keeps [of vs "\<lambda>s. topo_ok s \<and> dn < net_next (tp_net s) \<and> nmax (tp_net s) 0 = nmax (tp_net t) 0"
      "\<lambda>v. register_volume_layout v dn" tp_net t] assms
  by (simp add: register_volume_layout_ok)

lemma fold_unregister_ok:
  assumes "topo_ok t" "\<forall>v \<in> set vs. rp_digits (vi_replica_placement v)"
  shows "topo_ok (fold (\<lambda>v. unregister_volume_layout v dn) vs t) \<and> tp_net (fold (\<lambda>v. unregister_volume_layout v dn) vs t) = tp_net t"
  by (rule fold_keeps) (use assms in \<open>simp_all add: unregister_volume_layout_ok\<close>)

lemma fold_unavailable_ok:
  assumes "topo_ok t" "\<forall>v \<in> snd ` set ps. rp_digits (vi_replica_placement v)"
  shows "topo_ok (fold (make_unavailable dn) ps t) \<and> tp_net (fold (make_unavailable dn) ps t) = tp_net t"
  by (rule fold_keeps) (use assms in \<open>force simp: make_unavailable_ok\<close>)+

lemma converted_digits:
  "v \<in> set (converted (map volume_info_new ms)) \<Longrightarrow> rp_digits (vi_replica_placement v)"
  "v \<in> set (converted (map volume_info_new_from_short ss)) \<Longrightarrow> rp_digits (vi_replica_placement v)"
proof -
  have "rp_digits (vi_replica_placement v)" if "volume_info_new m = Ok v" for m v
    using that rp_from_u8_ok [of "ucast (vim_replica_placement m)"]
    by (auto simp: volume_info_new_def rbind_Ok_iff)
  then show "v \<in> set (converted (map volume_info_new ms)) \<Longrightarrow> rp_digits (vi_replica_placement v)"
    by (auto simp: converted_def split: result.splits)
  have "rp_digits (vi_replica_placement v)" if "volume_info_new_from_short m = Ok v" for m v
    using that rp_from_u8_ok [of "ucast (vsm_replica_placement m)"]
    by (auto simp: volume_info_new_from_short_def rbind_Ok_iff)
  then show "v \<in> set (converted (map volume_info_new_from_short ss)) \<Longrightarrow> rp_digits (vi_replica_placement v)"
    by (auto simp: converted_def split: result.splits)
qed


lemma vols_ok_volumes:
  assumes "vols_ok net" "volumes_changed x net net'"
    and "\<forall>v \<in> snd ` set (vols net' x). v \<in> snd ` set (vols net x) \<or> rp_digits (vi_replica_placement v)"
  shows "vols_ok net'"
  unfolding vols_ok_def
proof (intro allI ballI)
  fix y v
  assume v: "v \<in> snd ` set (vols net' y)"
  show "rp_digits (vi_replica_placement v)"
  proof (cases "y = x")
    case True
    then show ?thesis
      using assms(1,3) v unfolding vols_ok_def by blast
  next
    case False
    then have "vols net' y = vols net y"
      using assms(2) by (auto simp: volumes_changed_def)
    then show ?thesis
      using assms(1) v unfolding vols_ok_def by metis
  qed
qed

lemma rooted_volumes: "rooted net \<Longrightarrow> volumes_changed x net net' \<Longrightarrow> rooted net'"
  by (auto simp: rooted_def volumes_changed_def)

text \<open>A data node in the tree.\<close>

definition live :: "nref \<Rightarrow> net \<Rightarrow> bool" where
  "live x net \<longleftrightarrow> nd_type (net_nodes net x) = DataNodeNode \<and> under net x 0"

lemma under_chain:
  assumes "nd_parent (net_nodes net x) = Some r" "nd_parent (net_nodes net r) = Some d" "nd_parent (net_nodes net d) = Some z"
  shows "under net x z"
  by (rule tranclp.trancl_into_trancl [OF tranclp.trancl_into_trancl [OF tranclp.r_into_trancl]]) (rule assms)+

lemma live_parent: "live x net \<Longrightarrow> nd_parent (net_nodes net x) \<noteq> None"
  by (auto simp: live_def dest: tranclpD)

lemma live_node_ok: "tree_ok net \<Longrightarrow> live x net \<Longrightarrow> node_ok x net"
  using node_ok_of_tree live_parent by (simp add: live_def)

lemma live_lt: "tree_ok net \<Longrightarrow> live x net \<Longrightarrow> x < net_next net"
  by (auto simp: live_def tree_ok_def unused_def not_le [symmetric])

lemma under_volumes: "volumes_changed x net net' \<Longrightarrow> under net' = under net"
  by (simp add: volumes_changed_def)

lemma live_volumes: "volumes_changed x net net' \<Longrightarrow> live y net' \<longleftrightarrow> live y net"
  using under_volumes [of x net net'] by (simp add: live_def volumes_changed_def)

lemma live_max:
  assumes "tree_ok net" "live x net" "i \<in> fst ` set (vols net x)"
  shows "i \<le> nmax net 0"
proof -
  have "i \<le> nmax net x"
    using live_node_ok [OF assms(1,2)] assms(3) by (auto simp: node_ok_def dn_ok_def)
  then show ?thesis
    using under_nmax [OF assms(1)] assms(2) unfolding live_def by (meson order_trans)
qed

lemma sync_ok:
  assumes "topo_ok t" "live x (tp_net t)"
  shows "\<exists>new dels t'. sync_data_node_registration ms x t = Some (new, dels, t') \<and> topo_ok t' \<and>
    volumes_changed x (tp_net t) (tp_net t') \<and>
    map_of (vols (tp_net t') x) = map_of (rev (map (\<lambda>v. (vi_id v, v)) (converted (map volume_info_new ms)))) \<and>
    vi_id ` set new = vi_id ` set (converted (map volume_info_new ms)) - fst ` set (vols (tp_net t) x) \<and>
    vi_id ` set dels = fst ` set (vols (tp_net t) x) - vi_id ` set (converted (map volume_info_new ms))"
proof -
  let ?infos = "converted (map volume_info_new ms)" and ?net = "tp_net t"
  have ok: "tree_ok ?net" "rooted ?net" "vols_ok ?net"
    using assms(1) by (simp_all add: topo_ok_def)
  obtain new dels net' where u: "update_volumes ?infos x ?net = Some (new, dels, net')" "node_ok x net'"
      "volumes_changed x ?net net'" "map_of (vols net' x) = map_of (rev (map (\<lambda>v. (vi_id v, v)) ?infos))"
      "set new \<subseteq> set ?infos" "set dels \<subseteq> snd ` set (vols ?net x) \<union> set ?infos"
      "vi_id ` set new = vi_id ` set ?infos - fst ` set (vols ?net x)" "vi_id ` set dels = fst ` set (vols ?net x) - vi_id ` set ?infos"
    using update_volumes_report [OF live_node_ok [OF ok(1) assms(2)], of ?infos] by (elim exE conjE) (rule that)
  have dig: "\<forall>v \<in> set ?infos. rp_digits (vi_replica_placement v)"
    using converted_digits(1) by blast
  have "v \<in> set ?infos" if v: "v \<in> snd ` set (vols net' x)" for v
  proof -
    obtain i where "(i, v) \<in> set (vols net' x)"
      using v by auto
    moreover have "distinct (map fst (vols net' x))"
      using u(2) by (simp add: node_ok_def dn_ok_def)
    ultimately have "map_of (rev (map (\<lambda>v. (vi_id v, v)) ?infos)) i = Some v"
      using u(4) by (metis map_of_eq_Some_iff)
    then show ?thesis
      by (auto dest!: map_of_SomeD)
  qed
  then have vo: "vols_ok net'"
    using vols_ok_volumes [OF ok(3) u(3)] dig by blast
  let ?t1 = "t\<lparr>tp_net := net'\<rparr>"
  have t1: "topo_ok ?t1"
    using topo_ok_net [OF assms(1) node_ok_tree [OF u(2)] rooted_volumes [OF ok(2) u(3)] addr_kept_volumes [OF u(3)] vo] .
  have lt: "x < net_next (tp_net ?t1)"
    using live_lt [OF ok(1) assms(2)] u(3) by (auto simp: volumes_changed_def)
  have "fst ` set (vols net' x) = vi_id ` set ?infos"
    using arg_cong [OF u(4), of dom] by (simp add: dom_map_of_conv_image_fst image_image)
  then have mx: "\<forall>v \<in> set new. vi_id v \<le> nmax (tp_net ?t1) 0"
    using live_max [OF node_ok_tree [OF u(2)], of x] live_volumes [OF u(3)] assms(2) u(5) by auto
  let ?t2 = "fold (\<lambda>v. register_volume_layout v x) new ?t1"
  have t2: "topo_ok ?t2" "tp_net ?t2 = net'"
    using fold_register_ok [OF t1 _ lt mx] u(5) dig by auto
  have "\<forall>v \<in> set dels. rp_digits (vi_replica_placement v)"
    using u(6) dig ok(3) unfolding vols_ok_def by blast
  then have t3: "topo_ok (fold (\<lambda>v. unregister_volume_layout v x) dels ?t2)"
      "tp_net (fold (\<lambda>v. unregister_volume_layout v x) dels ?t2) = net'"
    using fold_unregister_ok [OF t2(1), of dels x] t2(2) by auto
  then show ?thesis
    using u(1,3,4,7,8) by (simp add: sync_data_node_registration_def Let_def)
qed


lemma incremental_sync_ok:
  assumes "topo_ok t" "live x (tp_net t)"
  shows "\<exists>t'. incremental_sync_data_node_registration news olds x t = Some t' \<and> topo_ok t' \<and>
    volumes_changed x (tp_net t) (tp_net t')"
proof -
  let ?new = "converted (map volume_info_new_from_short news)" and ?old = "converted (map volume_info_new_from_short olds)"
  let ?net = "tp_net t"
  have ok: "tree_ok ?net" "rooted ?net" "vols_ok ?net"
    using assms(1) by (simp_all add: topo_ok_def)
  obtain net' where u: "delta_update_volumes ?new ?old x ?net = Some net'" "node_ok x net'" "volumes_changed x ?net net'"
      "map_of (vols net' x) = (\<lambda>i. if i \<in> vi_id ` set ?old then None else map_of (vols ?net x) i) ++
        map_of (rev (map (\<lambda>v. (vi_id v, v)) ?new))"
    using delta_update_volumes_ok [OF live_node_ok [OF ok(1) assms(2)]] by blast
  have dig: "\<forall>v \<in> set ?new. rp_digits (vi_replica_placement v)" "\<forall>v \<in> set ?old. rp_digits (vi_replica_placement v)"
    using converted_digits(2) by blast+
  have "v \<in> snd ` set (vols ?net x) \<or> v \<in> set ?new" if v: "v \<in> snd ` set (vols net' x)" for v
  proof -
    obtain i where "(i, v) \<in> set (vols net' x)"
      using v by auto
    moreover have "distinct (map fst (vols net' x))"
      using u(2) by (simp add: node_ok_def dn_ok_def)
    ultimately have "map_of (vols net' x) i = Some v"
      by simp
    then have "map_of (rev (map (\<lambda>v. (vi_id v, v)) ?new)) i = Some v \<or> map_of (vols ?net x) i = Some v"
      using u(4) by (auto simp: map_add_Some_iff split: if_splits)
    then show ?thesis
      by (force dest!: map_of_SomeD)
  qed
  then have vo: "vols_ok net'"
    using vols_ok_volumes [OF ok(3) u(3)] dig(1) by blast
  let ?t1 = "t\<lparr>tp_net := net'\<rparr>"
  have t1: "topo_ok ?t1"
    using topo_ok_net [OF assms(1) node_ok_tree [OF u(2)] rooted_volumes [OF ok(2) u(3)] addr_kept_volumes [OF u(3)] vo] .
  have lt: "x < net_next (tp_net ?t1)"
    using live_lt [OF ok(1) assms(2)] u(3) by (auto simp: volumes_changed_def)
  have "vi_id ` set ?new \<subseteq> dom (map_of (vols net' x))"
    unfolding u(4) by (auto simp: dom_map_of_conv_image_fst image_image)
  then have mx: "\<forall>v \<in> set ?new. vi_id v \<le> nmax (tp_net ?t1) 0"
    using live_max [OF node_ok_tree [OF u(2)], of x] live_volumes [OF u(3)] assms(2)
    unfolding dom_map_of_conv_image_fst by auto
  let ?t2 = "fold (\<lambda>v. register_volume_layout v x) ?new ?t1"
  have t2: "topo_ok ?t2" "tp_net ?t2 = net'"
    using fold_register_ok [OF t1 dig(1) lt mx] by auto
  then show ?thesis
    using u(1,3) fold_unregister_ok [OF t2(1) dig(2), of x]
    by (simp add: incremental_sync_data_node_registration_def Let_def)
qed

lemma unregister_data_node_ok:
  assumes "topo_ok t" "live x (tp_net t)"
  shows "\<exists>t'. unregister_data_node x t = Some t' \<and> topo_ok t' \<and> nd_parent (net_nodes (tp_net t') x) = None \<and>
    net_dns (tp_net t') = net_dns (tp_net t) \<and> (\<forall>m. nd_type (net_nodes (tp_net t') m) = nd_type (net_nodes (tp_net t) m)) \<and>
    (\<forall>m. m \<noteq> x \<longrightarrow> nd_parent (net_nodes (tp_net t') m) = nd_parent (net_nodes (tp_net t) m))"
proof -
  let ?net = "tp_net t" and ?t1 = "fold (make_unavailable x) (dn_volumes (net_dns (tp_net t) x)) t"
  have ok: "tree_ok ?net" "rooted ?net" "vols_ok ?net"
    using assms(1) by (simp_all add: topo_ok_def)
  have t1: "topo_ok ?t1" "tp_net ?t1 = ?net"
    using fold_unavailable_ok [OF assms(1), of "vols ?net x" x] ok(3) unfolding vols_ok_def by blast+
  obtain rack where rack: "nd_parent (net_nodes ?net x) = Some rack"
    using live_parent [OF assms(2)] by auto
  obtain net' where u: "unlink_data_node x ?net = Some net'" "tree_ok net'" "same_shape (detach rack (nd_id (net_nodes ?net x)) x ?net) net'"
      "\<forall>m. nmax ?net m \<le> nmax net' m"
    using unlink_data_node_ok [OF ok(1) _ rack] assms(2) unfolding live_def by blast
  have dns: "net_dns net' = net_dns ?net" "net_next net' = net_next ?net" "\<And>m. nd_type (net_nodes net' m) = nd_type (net_nodes ?net m)"
      "nd_parent (net_nodes net' x) = None" "\<And>m. m \<noteq> x \<Longrightarrow> nd_parent (net_nodes net' m) = nd_parent (net_nodes ?net m)"
    using u(3) by (auto simp: same_shape_def detach_def set_parent_def upd_node_def)
  have "topo_ok (?t1\<lparr>tp_net := net'\<rparr>)"
    by (rule topo_ok_net [OF t1(1) u(2)]) (use ok dns t1(2) u(4) in \<open>simp_all add: rooted_def addr_kept_def vols_ok_def\<close>)
  then show ?thesis
    using u(1) t1(2) dns(1,3-5) by (simp add: unregister_data_node_def Let_def)
qed

text \<open>A data node in the tree hangs three links below the root.\<close>

lemma tranclp_parent:
  assumes "tranclp (\<lambda>c p. nd_parent (net_nodes net c) = Some p) x z" "nd_parent (net_nodes net x) = Some y"
  shows "y = z \<or> tranclp (\<lambda>c p. nd_parent (net_nodes net c) = Some p) y z"
  using tranclpD [OF assms(1)] assms(2) by (auto dest: rtranclpD)

lemma live_chain:
  assumes "tree_ok net" "rooted net" "live x net"
  obtains rack dc where "nd_parent (net_nodes net x) = Some rack" "nd_parent (net_nodes net rack) = Some dc"
    "nd_parent (net_nodes net dc) = Some 0" "nlevel net rack = 1" "nlevel net dc = 2"
proof -
  have lk: "linked net" and l0: "nlevel net 0 = 3" and lx: "nlevel net x = 0"
    using assms by (simp_all add: tree_ok_def rooted_def live_def)
  have up: "nlevel net p = Suc (nlevel net c)" if "nd_parent (net_nodes net c) = Some p" for c p
    using lk that unfolding linked_def by simp
  obtain rack where r: "nd_parent (net_nodes net x) = Some rack"
    using live_parent [OF assms(3)] by auto
  have "under net rack 0"
    using tranclp_parent [OF _ r, of 0] assms(3) up [OF r] l0 lx by (auto simp: live_def)
  then obtain dc where d: "nd_parent (net_nodes net rack) = Some dc"
    by (auto dest: tranclpD)
  have "under net dc 0"
    using tranclp_parent [OF \<open>under net rack 0\<close> d] up [OF r] up [OF d] l0 lx by auto
  then obtain z where z: "nd_parent (net_nodes net dc) = Some z"
    by (auto dest: tranclpD)
  have "z = 0"
  proof (rule ccontr)
    assume "z \<noteq> 0"
    then have "under net z 0"
      using tranclp_parent [OF \<open>under net dc 0\<close> z] by simp
    then obtain q where "nd_parent (net_nodes net z) = Some q" "q = 0 \<or> under net q 0"
      using tranclpD [of _ z 0] by (auto dest: rtranclpD)
    then have "nlevel net q = 4"
      using up [OF r] up [OF d] up [OF z] up [of z q] lx by simp
    then have "under net q 0" "nd_parent (net_nodes net q) = None"
      using \<open>q = 0 \<or> under net q 0\<close> l0 up [of q] level_le by (auto, metis Suc_n_not_le_n option.exhaust)
    then show False
      by (auto dest: tranclpD)
  qed
  then show thesis
    using that r d z up [OF r] up [OF d] lx by auto
qed

lemma live_of_chain:
  assumes "nd_type (net_nodes net x) = DataNodeNode" "nd_parent (net_nodes net x) = Some rack"
    "nd_parent (net_nodes net rack) = Some dc" "nd_parent (net_nodes net dc) = Some 0"
  shows "live x net"
  using under_chain [OF assms(2-4)] assms(1) by (simp add: live_def)

lemma live_others:
  assumes "topo_ok t" "unregister_data_node x t = Some t'" "live x (tp_net t)" "live y (tp_net t)" "y \<noteq> x"
  shows "live y (tp_net t')"
proof -
  have ok: "tree_ok (tp_net t)" "rooted (tp_net t)"
    using assms(1) by (simp_all add: topo_ok_def)
  obtain rack dc where c: "nd_parent (net_nodes (tp_net t) y) = Some rack" "nd_parent (net_nodes (tp_net t) rack) = Some dc"
      "nd_parent (net_nodes (tp_net t) dc) = Some 0" "nlevel (tp_net t) rack = 1" "nlevel (tp_net t) dc = 2"
    by (rule live_chain [OF ok assms(4)])
  have "rack \<noteq> x" "dc \<noteq> x"
    using assms(3) c(4,5) by (auto simp: live_def)
  then show ?thesis
    using unregister_data_node_ok [OF assms(1,3)] assms(2,4,5) c(1-3) live_of_chain [of "tp_net t'" y rack dc]
    by (auto simp: live_def)
qed

lemma live_grown:
  assumes "tree_ok net" "rooted net" "grown net net'" "live y net"
  shows "live y net'"
proof -
  obtain rack dc where c: "nd_parent (net_nodes net y) = Some rack" "nd_parent (net_nodes net rack) = Some dc"
      "nd_parent (net_nodes net dc) = Some 0"
    by (rule live_chain [OF assms(1,2,4)])
  moreover have "m < net_next net" if "nd_parent (net_nodes net m) = Some p" for m p
    using assms(1) that by (auto simp: tree_ok_def unused_def not_le [symmetric])
  ultimately show ?thesis
    using assms(3,4) live_of_chain [of net' y rack dc] by (simp add: grown_def live_def)
qed

lemma connect_ok:
  assumes "topo_ok t" "update_topology 0 ip remote dc rack port url mx (tp_net t) = Some (r, net')"
  shows "topo_ok (t\<lparr>tp_net := net'\<rparr>)" "\<exists>x. r = Ok x \<and> live x net'" "live y (tp_net t) \<Longrightarrow> live y net'"
proof -
  have ok: "tree_ok (tp_net t)" "0 < net_next (tp_net t)" "nd_type (net_nodes (tp_net t) 0) = TopologyNode" "vols_ok (tp_net t)"
    using assms(1) by (simp_all add: topo_ok_def rooted_def)
  obtain x rack' dc' where g: "r = Ok x" "tree_ok net'" "grown (tp_net t) net'"
      "child_at DataCenterNode 0 (get_or_default dc) dc' net'" "child_at RackNode dc' (get_or_default rack) rack' net'"
      "child_at DataNodeNode rack' ((if ip = [] then remote else ip) @ '':'' @ fmt_dec (unat port)) x net'"
    using update_topology_ok [OF ok(1-3), of ip remote dc rack port url mx] assms(2) by (elim exE conjE) (rule that, auto)
  have r: "rooted net'"
    using ok(2,3) g(3) by (auto simp: rooted_def grown_def)
  have vo: "vols_ok net'"
    unfolding vols_ok_def
  proof (intro allI ballI)
    fix y v
    assume v: "v \<in> snd ` set (vols net' y)"
    have "net_dns net' y = net_dns (tp_net t) y \<or> vols net' y = []"
      using g(3) by (simp add: grown_def)
    then show "rp_digits (vi_replica_placement v)"
      using v ok(4) by (fastforce simp: vols_ok_def)
  qed
  show "live y (tp_net t) \<Longrightarrow> live y net'"
    using live_grown [OF ok(1) _ g(3)] ok(2,3) by (simp add: rooted_def)
  show "topo_ok (t\<lparr>tp_net := net'\<rparr>)"
    by (rule topo_ok_net [OF assms(1) g(2) r addr_kept_grown [OF g(3)] vo]) (use ok in \<open>simp add: rooted_def\<close>)
  show "\<exists>x. r = Ok x \<and> live x net'"
    using g(1,4-6) under_chain [of net' x rack' dc' 0] by (simp add: live_def child_at_def)
qed

lemma has_writable_volume_ok:
  assumes "topo_ok t" "rp_digits (vgo_replica_placement option)"
  shows "topo_ok (snd (has_writable_volume option t))" "tp_net (snd (has_writable_volume option t)) = tp_net t"
  using get_volume_layout_ok [OF assms, of "vgo_ttl option" "\<lambda>vl. (active_volume_count (tp_net t) option vl > 0, vl)" "vgo_collection option"]
  by (simp_all add: has_writable_volume_def)


lemma pick_for_write_ok:
  assumes "topo_ok t" "rp_digits (vgo_replica_placement option)"
  shows "topo_ok (snd (snd (pick_for_write flake_next gen r count option t)))"
    "tp_net (snd (snd (pick_for_write flake_next gen r count option t))) = tp_net t"
proof -
  have seq: "topo_ok (t\<lparr>tp_sequencer := s\<rparr>)" for s
    using assms(1) by (simp add: topo_ok_def)
  have g: "topo_ok t' \<and> tp_net t' = tp_net t"
    if "get_volume_layout (vgo_collection option) (vgo_replica_placement option) (vgo_ttl option)
        (\<lambda>vl. (layout_pick_for_write gen r (tp_net t) option vl, vl)) (t\<lparr>tp_sequencer := s\<rparr>) = (x, t')" for s x t'
    using get_volume_layout_ok [OF seq [of s] assms(2), of "vgo_ttl option"
        "\<lambda>vl. (layout_pick_for_write gen r (tp_net t) option vl, vl)" "vgo_collection option"] that
    by simp
  show "topo_ok (snd (snd (pick_for_write flake_next gen r count option t)))"
    using seq assms(1) by (auto simp: pick_for_write_def Let_def dest: g split: result.splits prod.splits list.splits)
  show "tp_net (snd (snd (pick_for_write flake_next gen r count option t))) = tp_net t"
    by (auto simp: pick_for_write_def Let_def dest: g split: result.splits prod.splits list.splits)
qed

lemma pick_for_write_picks:
  assumes "topo_ok t" "rng_ok gen" "rp_digits (vgo_replica_placement option)"
    and "fst (has_writable_volume option t)"
    and "sequencer_next_file_id flake_next (tp_sequencer t) count = Ok (key, s)"
  shows "\<exists>vid node nodes hash r' t'. pick_for_write flake_next gen r count option t = (Ok (file_id_new vid key hash, count, node), r', t') \<and>
    topo_ok t' \<and>
    vid \<in> set (vl_writable_volumes (the_layout t (vgo_collection option) (vgo_replica_placement option) (vgo_ttl option))) \<and>
    layout_lookup (the_layout t (vgo_collection option) (vgo_replica_placement option) (vgo_ttl option)) vid = Some nodes \<and>
    node = hd nodes \<and> copy_count (vgo_replica_placement option) \<le> length nodes \<and>
    distinct (map (addr (tp_net t)) nodes)"
proof -
  let ?rp = "vgo_replica_placement option" and ?ttl = "vgo_ttl option" and ?name = "vgo_collection option"
  let ?vl = "the_layout t ?name ?rp ?ttl"
  have l: "entry_ok (tp_net t) (layout_key ?rp (Some ?ttl)) ?vl" "vl_rp ?vl = ?rp"
    using get_volume_layout_ok [OF assms(1,3), of ?ttl "\<lambda>vl. ((), vl)" ?name] by simp_all
  have "0 < active_volume_count (tp_net t) option ?vl"
    using assms(4) by (simp add: has_writable_volume_def get_volume_layout_fst)
  then obtain vid nodes r1 where p: "layout_pick_for_write gen r (tp_net t) option ?vl = (Ok (vid, nodes), r1)"
      "vid \<in> set (vl_writable_volumes ?vl)" "map_of (vl_locations ?vl) vid = Some nodes" "copy_count ?rp \<le> length nodes"
      "distinct (map (addr (tp_net t)) nodes)"
    using layout_pick_ok [OF _ assms(2), of "tp_net t" ?vl option r] l unfolding entry_ok_def by auto
  have "0 < copy_count ?rp"
    using copy_count_digits [OF assms(3)] by simp
  then obtain node rest where nodes: "nodes = node # rest"
    using p(4) by (cases nodes) auto
  let ?t = "t\<lparr>tp_sequencer := s\<rparr>" and ?f = "\<lambda>vl. (layout_pick_for_write gen r (tp_net t) option vl, vl)"
  have "the_layout ?t ?name ?rp ?ttl = ?vl"
    by (simp add: the_layout_def cong: option.case_cong)
  then have "fst (get_volume_layout ?name ?rp ?ttl ?f ?t) = (Ok (vid, node # rest), r1)"
    using p(1) nodes by (simp add: get_volume_layout_fst)
  then obtain t' where g: "get_volume_layout ?name ?rp ?ttl ?f ?t = ((Ok (vid, node # rest), r1), t')"
    by (cases "get_volume_layout ?name ?rp ?ttl ?f ?t") auto
  obtain hash r2 where h: "gen r1 (2 ^ 32) = (hash, r2)"
    by fastforce
  have res: "pick_for_write flake_next gen r count option t = (Ok (file_id_new vid key (of_nat hash), count, node), r2, t')"
    using assms(5) g h by (simp add: pick_for_write_def Let_def)
  have "topo_ok t'"
    using pick_for_write_ok(1) [OF assms(1,3), of flake_next gen r count] res by simp
  then show ?thesis
    using res p(2-5) nodes by (intro exI [of _ vid] exI [of _ node] exI [of _ nodes] exI [of _ "of_nat hash"] exI [of _ r2]
      exI [of _ t']) (simp add: layout_lookup_def)
qed

lemma layout_pick_none:
  assumes "active_volume_count net option vl = 0"
  shows "layout_pick_for_write gen r net option vl = (Err VNoWritableVolumes, r)"
proof (cases "vgo_data_center option = []")
  case False
  then have "write_candidates net option vl = []"
    using active_volume_count_candidates [OF False, of net vl] assms by simp
  then show ?thesis
    using False by (simp add: layout_pick_for_write_def)
qed (use assms in \<open>simp add: layout_pick_for_write_def active_volume_count_def\<close>)

lemma pick_for_write_none:
  assumes "\<not> fst (has_writable_volume option t)"
    and "sequencer_next_file_id flake_next (tp_sequencer t) count = Ok (key, s)"
  shows "\<exists>t'. pick_for_write flake_next gen r count option t = (Err VNoWritableVolumes, r, t')"
proof -
  let ?rp = "vgo_replica_placement option" and ?ttl = "vgo_ttl option" and ?name = "vgo_collection option"
  let ?t = "t\<lparr>tp_sequencer := s\<rparr>" and ?f = "\<lambda>vl. (layout_pick_for_write gen r (tp_net t) option vl, vl)"
  have "the_layout ?t ?name ?rp ?ttl = the_layout t ?name ?rp ?ttl"
    by (simp add: the_layout_def cong: option.case_cong)
  then have "fst (get_volume_layout ?name ?rp ?ttl ?f ?t) = (Err VNoWritableVolumes, r)"
    using assms(1) layout_pick_none by (simp add: get_volume_layout_fst has_writable_volume_def)
  then obtain t' where "get_volume_layout ?name ?rp ?ttl ?f ?t = ((Err VNoWritableVolumes, r), t')"
    by (cases "get_volume_layout ?name ?rp ?ttl ?f ?t") auto
  then show ?thesis
    using assms(2) by (simp add: pick_for_write_def Let_def)
qed

lemma sequencer_no_panic: "sequencer_next_file_id flake_next s count \<noteq> Panic"
  by (auto simp: sequencer_next_file_id_def snowflake_next_file_id_def split: sequencer.splits prod.splits sum.splits)

text \<open>Reading a layout through \<open>get_volume_layout\<close> does not change what it is.\<close>

lemma the_layout_pick:
  assumes "pick_for_write flake_next gen r count option t = (Ok p, r', t')"
  shows "the_layout t' (vgo_collection option) (vgo_replica_placement option) (vgo_ttl option) =
    the_layout t (vgo_collection option) (vgo_replica_placement option) (vgo_ttl option)"
proof -
  let ?rp = "vgo_replica_placement option" and ?ttl = "vgo_ttl option" and ?name = "vgo_collection option"
  obtain key s where k: "sequencer_next_file_id flake_next (tp_sequencer t) count = Ok (key, s)"
    using assms by (auto simp: pick_for_write_def split: result.splits)
  let ?t = "t\<lparr>tp_sequencer := s\<rparr>" and ?f = "\<lambda>vl. (layout_pick_for_write gen r (tp_net t) option vl, vl)"
  have "t' = snd (get_volume_layout ?name ?rp ?ttl ?f ?t)"
    using assms k by (auto simp: pick_for_write_def Let_def split: result.splits prod.splits list.splits)
  moreover have "the_layout ?t ?name ?rp ?ttl = the_layout t ?name ?rp ?ttl"
    by (simp add: the_layout_def cong: option.case_cong)
  ultimately show ?thesis
    by (simp add: the_layout_after)
qed

subsection \<open>Properties\<close>

text \<open>A master that knows one volume, on the data node of \<open>demo_net\<close>.\<close>

definition demo_net1 :: net where
  "demo_net1 = snd (the (add_or_update_volume demo_volume 3 demo_net))"

definition demo_topology :: "unit topology" where
  "demo_topology = register_volume_layout demo_volume 3
     ((topology_new (Memory memory_sequencer_new) 1000)\<lparr>tp_net := demo_net1\<rparr>)"

definition demo_option :: volume_grow_option where
  "demo_option = \<lparr>vgo_collection = [], vgo_replica_placement = rp_default, vgo_ttl = ttl_default, vgo_preallocate = 0,
     vgo_data_center = [], vgo_rack = [], vgo_data_node = []\<rparr>"

lemma demo_net1_facts:
  "add_or_update_volume demo_volume 3 demo_net = Some (True, demo_net1)" "node_ok 3 demo_net1"
  "volumes_changed 3 demo_net demo_net1" "vols demo_net1 3 = [(7, demo_volume)]"
  "y \<noteq> 3 \<Longrightarrow> vols demo_net1 y = []" "rooted demo_net1" "live 3 demo_net1"
proof -
  have "node_ok 3 demo_net"
    by (rule node_ok_of_tree [OF tree_ok_demo]) (simp_all add: demo_type demo_parents)
  from add_or_update_volume_ok [OF this, of demo_volume] obtain net' where n: "add_or_update_volume demo_volume 3 demo_net = Some (True, net')"
      "node_ok 3 net'" "volumes_changed 3 demo_net net'" "vols net' 3 = [(7, demo_volume)]"
    by (auto simp: demo_no_volumes demo_volume_def)
  then have e: "demo_net1 = net'"
    by (simp add: demo_net1_def)
  show "add_or_update_volume demo_volume 3 demo_net = Some (True, demo_net1)" "node_ok 3 demo_net1"
    "volumes_changed 3 demo_net demo_net1" "vols demo_net1 3 = [(7, demo_volume)]"
    using n by (simp_all add: e)
  show "y \<noteq> 3 \<Longrightarrow> vols demo_net1 y = []"
    using n(3) demo_no_volumes by (auto simp: e volumes_changed_def)
  have "rooted demo_net"
    using tree_ok_reachable [OF demo_run] by simp
  then show "rooted demo_net1"
    using rooted_volumes [OF _ n(3)] by (simp add: e)
  show "live 3 demo_net1"
    using live_volumes [OF n(3), of 3] demo_type under_chain [OF demo_parents] by (simp add: e live_def)
qed

lemma demo_topology_ok: "topo_ok demo_topology" "tp_net demo_topology = demo_net1"
proof -
  have d: "rp_digits (vi_replica_placement demo_volume)"
    by (simp add: demo_volume_def rp_digits_def rp_default_def)
  let ?t = "(topology_new (Memory memory_sequencer_new) 1000)\<lparr>tp_net := demo_net1\<rparr> :: unit topology"
  have "vols_ok demo_net1"
    unfolding vols_ok_def
  proof (intro allI ballI)
    fix y v
    assume "v \<in> snd ` set (vols demo_net1 y)"
    then show "rp_digits (vi_replica_placement v)"
      using demo_net1_facts(4,5) d by (cases "y = 3") auto
  qed
  then have t: "topo_ok ?t"
    using demo_net1_facts(6) node_ok_tree [OF demo_net1_facts(2)] by (simp add: topo_ok_def topology_new_def)
  have "vi_id demo_volume \<le> nmax demo_net1 0"
    using live_max [OF node_ok_tree [OF demo_net1_facts(2)] demo_net1_facts(7)] by (simp add: demo_net1_facts(4) demo_volume_def)
  then show "topo_ok demo_topology" "tp_net demo_topology = demo_net1"
    unfolding demo_topology_def
    using register_volume_layout_ok [OF t d, of 3] live_lt [OF node_ok_tree [OF demo_net1_facts(2)] demo_net1_facts(7)] by simp_all
qed

lemma demo_writable: "7 \<in> set (vl_writable_volumes (the_layout demo_topology [] rp_default ttl_default))"
proof -
  let ?t = "(topology_new (Memory memory_sequencer_new) 1000)\<lparr>tp_net := demo_net1\<rparr> :: unit topology"
  let ?vl = "volume_layout_new rp_default (Some ttl_default) 1000"
  have "the_layout ?t [] rp_default ttl_default = ?vl"
    by (simp add: the_layout_def topology_new_def collection_new_def get_or_create_volume_layout_def Let_def)
  then have l: "the_layout demo_topology [] rp_default ttl_default = register_volume demo_net1 demo_volume 3 ?vl"
    unfolding demo_topology_def register_volume_layout_def
    by (simp add: the_layout_after demo_volume_def)
  have "vi_id v' = 7" if "get_volume demo_net1 l 7 = Some v'" for l v'
    using that demo_net1_facts(4,5) by (cases "l = 3") (auto simp: get_volume_def demo_volume_def)
  moreover have "layout_ok demo_net1 ?vl"
    by (rule layout_ok_new) (simp add: copy_count_def rp_default_def)
  ultimately have "vi_id demo_volume \<in> set (vl_writable_volumes (register_volume demo_net1 demo_volume 3 ?vl))"
    by (subst register_volume_writable) (simp_all add: demo_volume_def get_volume_def demo_net1_facts(4) [unfolded demo_volume_def]
      volume_layout_new_def copy_count_def rp_default_def is_writable_def is_oversize_def)
  then show ?thesis
    by (simp add: l demo_volume_def)
qed

text \<open>
  C9. Whenever the master finds a writable volume for a request and the sequencer delivers a key, picking one
  for a write succeeds: it returns a writable volume whose locations are at least as many data nodes, with
  pairwise different addresses, as the requested placement has copies, the first of them as the node to write
  to, and the file id carries that volume and the delivered key.
\<close>

theorem pick_for_write_gives_replicated_volume:
  assumes "topo_ok t" "rng_ok gen" "rp_digits (vgo_replica_placement option)"
    and "fst (has_writable_volume option t)"
    and "sequencer_next_file_id flake_next (tp_sequencer t) count = Ok (key, s)"
  shows "\<exists>vid node nodes hash r' t'. pick_for_write flake_next gen r count option t = (Ok (file_id_new vid key hash, count, node), r', t') \<and>
    topo_ok t' \<and>
    vid \<in> set (vl_writable_volumes (the_layout t (vgo_collection option) (vgo_replica_placement option) (vgo_ttl option))) \<and>
    layout_lookup (the_layout t (vgo_collection option) (vgo_replica_placement option) (vgo_ttl option)) vid = Some nodes \<and>
    node = hd nodes \<and> copy_count (vgo_replica_placement option) \<le> length nodes \<and>
    distinct (map (\<lambda>n. (dn_ip (net_dns (tp_net t) n), dn_port (net_dns (tp_net t) n))) nodes)"
  by (rule pick_for_write_picks [OF assms])


theorem pick_for_write_gives_replicated_volume_witness:
  "\<exists>vid node nodes hash r' t'. pick_for_write (\<lambda>f. (Inl ''none'', f)) counting_rng 0 1 demo_option demo_topology =
     (Ok (file_id_new vid 1 hash, 1, node), r', t') \<and> 1 \<le> length nodes \<and>
     layout_lookup (the_layout demo_topology [] rp_default ttl_default) vid = Some nodes"
proof -
  have "fst (has_writable_volume demo_option demo_topology)"
    using demo_writable by (auto simp: has_writable_volume_def get_volume_layout_fst demo_option_def active_volume_count_def)
  moreover have "rp_digits (vgo_replica_placement demo_option)"
    by (simp add: demo_option_def rp_digits_def rp_default_def)
  moreover have "tp_sequencer demo_topology = Memory memory_sequencer_new"
    by (simp add: demo_topology_def register_volume_layout_def get_volume_layout_def topology_new_def Let_def split: prod.splits)
  then have "sequencer_next_file_id (\<lambda>f. (Inl ''none'', f)) (tp_sequencer demo_topology) 1 = Ok (1, Memory \<lparr>counter = 2\<rparr>)"
    by (simp add: sequencer_next_file_id_def memory_sequencer_new_def memory_next_file_id_def)
  ultimately show ?thesis
    using pick_for_write_gives_replicated_volume [OF demo_topology_ok(1) rng_ok_counting, of demo_option "\<lambda>f. (Inl ''none'', f)" 1 1 _ 0]
    by (fastforce simp: demo_option_def copy_count_def rp_default_def)
qed

text \<open>
  C34. A full report that only names volumes the data node already has on record, and all of them, leaves every
  layout as it is, whatever the report says about them: a volume that has become read-only or has outgrown the
  size limit stays writable for the master.
\<close>

theorem sync_ignores_changes_of_known_volumes:
  assumes "topo_ok t" "live x (tp_net t)"
    and "vi_id ` set (converted (map volume_info_new ms)) = fst ` set (dn_volumes (net_dns (tp_net t) x))"
  shows "\<exists>t'. sync_data_node_registration ms x t = Some ([], [], t') \<and> tp_collections t' = tp_collections t"
proof -
  let ?infos = "converted (map volume_info_new ms)"
  have "tree_ok (tp_net t)"
    using assms(1) by (simp add: topo_ok_def)
  from update_volumes_report [OF live_node_ok [OF this assms(2)], of ?infos] obtain new dels net' where
      u: "update_volumes ?infos x (tp_net t) = Some (new, dels, net')"
        "vi_id ` set new = vi_id ` set ?infos - fst ` set (vols (tp_net t) x)"
        "vi_id ` set dels = fst ` set (vols (tp_net t) x) - vi_id ` set ?infos"
    by (elim exE conjE) (rule that)
  then have "new = []" "dels = []"
    using assms(3) by simp_all
  then show ?thesis
    using u(1) by (simp add: sync_data_node_registration_def Let_def)
qed

definition demo_report :: volume_information_message where
  "demo_report = \<lparr>vim_id = 7, vim_size = 5000, vim_collection = [], vim_file_count = 0, vim_delete_count = 0,
     vim_deleted_bytes = 0, vim_read_only = True, vim_replica_placement = 0, vim_version = 2, vim_ttl = 0\<rparr>"

theorem sync_ignores_changes_of_known_volumes_witness:
  "\<exists>t'. sync_data_node_registration [demo_report] 3 demo_topology = Some ([], [], t') \<and>
     7 \<in> set (vl_writable_volumes (the_layout t' [] rp_default ttl_default))"
proof -
  have "case volume_info_new demo_report of Ok v \<Rightarrow> vi_id v = 7 | _ \<Rightarrow> False"
    by code_simp
  then have "vi_id ` set (converted (map volume_info_new [demo_report])) = fst ` set (vols (tp_net demo_topology) 3)"
    by (auto simp: converted_def demo_topology_ok demo_net1_facts(4) split: result.splits)
  then obtain t' where t': "sync_data_node_registration [demo_report] 3 demo_topology = Some ([], [], t')"
      "tp_collections t' = tp_collections demo_topology"
    using sync_ignores_changes_of_known_volumes [OF demo_topology_ok(1), of 3 "[demo_report]"] demo_net1_facts(7) demo_topology_ok(2)
    by auto
  have "map_of (tp_collections demo_topology) [] \<noteq> None"
    by (simp add: demo_topology_def register_volume_layout_def get_volume_layout_def demo_volume_def topology_new_def Let_def
      update_conv' split: prod.splits)
  then have "the_layout t' [] rp_default ttl_default = the_layout demo_topology [] rp_default ttl_default"
    using t'(2) by (auto simp: the_layout_def)
  then show ?thesis
    using t'(1) demo_writable by simp
qed

end
