(* ===== verification/TopoGrow.thy ===== *)
theory TopoGrow
  imports Topo
begin

section \<open>Growing volumes\<close>

text \<open>
  \<open>topology/volume_grow.rs\<close>: choosing data nodes that honour a replica placement, creating a volume on them
  and registering it. The call that creates the volume on a data node goes over the network; it is a parameter
  \<open>allocate\<close> that answers for a data node and a volume id. Counters of eight bits wrap as in a release build.
\<close>

subsection \<open>Picking nodes\<close>

definition find_volume_count :: "nat \<Rightarrow> nat" where
  "find_volume_count count = (if count = 1 then 7 else if count = 2 then 6 else if count = 3 then 3 else 1)"

text \<open>
  The loop over the other candidates: the first ones fill the slots, each later one replaces a slot with a
  probability. The flag says that the last slot has been filled.
\<close>

fun fill_rest :: "'r rng \<Rightarrow> 'r \<Rightarrow> nat \<Rightarrow> bool \<Rightarrow> nref option list \<Rightarrow> nref list \<Rightarrow> bool \<times> nref option list \<times> 'r" where
  "fill_rest gen r i ret rest_nodes [] = (ret, rest_nodes, r)"
| "fill_rest gen r i ret rest_nodes (node # candidates) =
     (if i < length rest_nodes
      then fill_rest gen r (i + 1) (ret \<or> i = length rest_nodes - 1) (rest_nodes[i := Some node]) candidates
      else
        let (d, r) = gen r (i + 1)
        in fill_rest gen r (i + 1) ret (if d < length rest_nodes then rest_nodes[d := Some node] else rest_nodes) candidates)"

definition randomly_pick_nodes ::
    "'r rng \<Rightarrow> 'r \<Rightarrow> net \<Rightarrow> nref list \<Rightarrow> (nref \<Rightarrow> bool) \<Rightarrow> nat \<Rightarrow> (nref \<times> nref option list, volume_error) result \<times> 'r" where
  "randomly_pick_nodes gen r net children flt nodes_num =
     (let candidates = filter flt children in
      if candidates = [] then (Err (VNoFreeSpace ''find main node failed''), r)
      else
        let (first_idx, r) = gen r (length candidates);
            main_dn = candidates ! first_idx;
            candidates = filter (\<lambda>node. \<not> nd_id (net_nodes net node) = nd_id (net_nodes net main_dn) \<and>
              \<not> free_space (net_nodes net node) \<le> 0) children;
            (ret, rest_nodes, r) = fill_rest gen r 0 (nodes_num = 0) (replicate nodes_num None) candidates
        in if ret then (Ok (main_dn, rest_nodes), r)
           else (Err (VNoFreeSpace ''not enough node found''), r))"

abbreviation kids :: "net \<Rightarrow> nref \<Rightarrow> nref list" where
  "kids net n \<equiv> map snd (nd_children (net_nodes net n))"

definition possible_nodes :: "net \<Rightarrow> nref \<Rightarrow> nref list" where
  "possible_nodes net rack = filter (\<lambda>dn. free_space (net_nodes net dn) \<ge> 1) (kids net rack)"

definition data_center_filter :: "net \<Rightarrow> volume_grow_option \<Rightarrow> nref \<Rightarrow> bool" where
  "data_center_filter net option node \<longleftrightarrow>
     (let rp = vgo_replica_placement option;
          possible_racks_count :: u8 =
            of_nat (length (filter (\<lambda>rack. (of_nat (length (possible_nodes net rack)) :: u8) > same_rack_count rp) (kids net node)))
      in \<not> (vgo_data_center option \<noteq> [] \<and> nd_id (net_nodes net node) \<noteq> vgo_data_center option) \<and>
         \<not> length (kids net node) < unat (diff_rack_count rp) + 1 \<and>
         \<not> free_space (net_nodes net node) < uint (diff_rack_count rp + same_rack_count rp) + 1 \<and>
         \<not> possible_racks_count < diff_rack_count rp + 1)"

definition rack_filter :: "net \<Rightarrow> volume_grow_option \<Rightarrow> nref \<Rightarrow> bool" where
  "rack_filter net option node \<longleftrightarrow>
     (let rp = vgo_replica_placement option
      in \<not> (vgo_rack option \<noteq> [] \<and> vgo_rack option \<noteq> nd_id (net_nodes net node)) \<and>
         \<not> free_space (net_nodes net node) < uint (same_rack_count rp) + 1 \<and>
         \<not> length (kids net node) < unat (same_rack_count rp) + 1 \<and>
         \<not> length (possible_nodes net node) < unat (same_rack_count rp) + 1)"

definition data_node_filter :: "net \<Rightarrow> volume_grow_option \<Rightarrow> nref \<Rightarrow> bool" where
  "data_node_filter net option node \<longleftrightarrow>
     \<not> (vgo_data_node option \<noteq> [] \<and> vgo_data_node option \<noteq> nd_id (net_nodes net node)) \<and>
     \<not> free_space (net_nodes net node) < 1"

text \<open>One data node below each of the given racks or data centers.\<close>

fun reserve_each :: "'r rng \<Rightarrow> 'r \<Rightarrow> net \<Rightarrow> nref list \<Rightarrow> ((nref list, volume_error) result \<times> 'r) option" where
  "reserve_each gen r net [] = Some (Ok [], r)"
| "reserve_each gen r net (n # ns) =
     (if free_space (net_nodes net n) \<le> 0 then Some (Panic, r)
      else
        let (random, r) = gen r (nat (free_space (net_nodes net n)))
        in case reserve_one_volume net n (int random) of
             None \<Rightarrow> None
           | Some (Err e) \<Rightarrow> Some (Err e, r)
           | Some Panic \<Rightarrow> Some (Panic, r)
           | Some (Ok node) \<Rightarrow>
               (case reserve_each gen r net ns of
                  None \<Rightarrow> None
                | Some (Ok nodes, r) \<Rightarrow> Some (Ok (node # nodes), r)
                | Some (Err e, r) \<Rightarrow> Some (Err e, r)
                | Some (Panic, r) \<Rightarrow> Some (Panic, r)))"

fun downcast_each :: "net \<Rightarrow> nref list \<Rightarrow> (nref list, volume_error) result" where
  "downcast_each net [] = Ok []"
| "downcast_each net (n # ns) = rbind (downcast_node net n) (\<lambda>n. rbind (downcast_each net ns) (\<lambda>ns. Ok (n # ns)))"

definition flatten_nodes :: "nref option list \<Rightarrow> nref list" where
  "flatten_nodes ns = concat (map (\<lambda>x. case x of Some n \<Rightarrow> [n] | None \<Rightarrow> []) ns)"

definition find_empty_slots ::
    "'r rng \<Rightarrow> 'r \<Rightarrow> volume_grow_option \<Rightarrow> net \<Rightarrow> ((nref list, volume_error) result \<times> 'r) option" where
  "find_empty_slots gen r option net =
     (let rp = vgo_replica_placement option in
      case randomly_pick_nodes gen r net (kids net 0) (data_center_filter net option) (unat (diff_data_center_count rp)) of
        (Err e, r) \<Rightarrow> Some (Err e, r)
      | (Panic, r) \<Rightarrow> Some (Panic, r)
      | (Ok (main_data_center, other_centers), r) \<Rightarrow>
     (case randomly_pick_nodes gen r net (kids net main_data_center) (rack_filter net option) (unat (diff_rack_count rp)) of
        (Err e, r) \<Rightarrow> Some (Err e, r)
      | (Panic, r) \<Rightarrow> Some (Panic, r)
      | (Ok (main_rack, other_racks), r) \<Rightarrow>
     (case randomly_pick_nodes gen r net (kids net main_rack) (data_node_filter net option) (unat (same_rack_count rp)) of
        (Err e, r) \<Rightarrow> Some (Err e, r)
      | (Panic, r) \<Rightarrow> Some (Panic, r)
      | (Ok (main_dn, other_nodes), r) \<Rightarrow>
     (case downcast_each net (main_dn # flatten_nodes other_nodes) of
        Err e \<Rightarrow> Some (Err e, r)
      | Panic \<Rightarrow> Some (Panic, r)
      | Ok ret \<Rightarrow>
     (case reserve_each gen r net (flatten_nodes other_racks @ flatten_nodes other_centers) of
        None \<Rightarrow> None
      | Some (Err e, r) \<Rightarrow> Some (Err e, r)
      | Some (Panic, r) \<Rightarrow> Some (Panic, r)
      | Some (Ok others, r) \<Rightarrow> Some (Ok (ret @ others), r))))))"

subsection \<open>Creating the volume\<close>

type_synonym allocate = "nref \<Rightarrow> volume_id \<Rightarrow> volume_grow_option \<Rightarrow> (unit, volume_error) result"

definition grown_volume :: "volume_id \<Rightarrow> volume_grow_option \<Rightarrow> volume_info" where
  "grown_volume vid option =
     \<lparr>vi_id = vid, vi_size = 0, vi_replica_placement = vgo_replica_placement option, vi_ttl = vgo_ttl option,
      vi_collection = vgo_collection option, vi_version = CURRENT_VERSION, vi_file_count = 0, vi_delete_count = 0,
      vi_delete_bytes = 0, vi_read_only = False\<rparr>"

fun grow_volume :: "allocate \<Rightarrow> volume_id \<Rightarrow> volume_grow_option \<Rightarrow> nref list \<Rightarrow> 'f topology \<Rightarrow>
    ((unit, volume_error) result \<times> 'f topology) option" where
  "grow_volume allocate vid option [] t = Some (Ok (), t)"
| "grow_volume allocate vid option (dn # nodes) t =
     (case allocate dn vid option of
        Err e \<Rightarrow> Some (Err e, t)
      | Panic \<Rightarrow> Some (Panic, t)
      | Ok _ \<Rightarrow>
          (case add_or_update_volume (grown_volume vid option) dn (tp_net t) of
             None \<Rightarrow> None
           | Some (_, net) \<Rightarrow>
               grow_volume allocate vid option nodes
                 (register_volume_layout (grown_volume vid option) dn (t\<lparr>tp_net := net\<rparr>))))"

definition find_and_grow ::
    "'r rng \<Rightarrow> allocate \<Rightarrow> 'r \<Rightarrow> volume_grow_option \<Rightarrow> 'f topology \<Rightarrow> ((nat, volume_error) result \<times> 'r \<times> 'f topology) option" where
  "find_and_grow gen allocate r option t =
     (case find_empty_slots gen r option (tp_net t) of
        None \<Rightarrow> None
      | Some (Err e, r) \<Rightarrow> Some (Err e, r, t)
      | Some (Panic, r) \<Rightarrow> Some (Panic, r, t)
      | Some (Ok nodes, r) \<Rightarrow>
          (case grow_volume allocate (next_volume_id t) option nodes t of
             None \<Rightarrow> None
           | Some (Err e, t) \<Rightarrow> Some (Err e, r, t)
           | Some (Panic, t) \<Rightarrow> Some (Panic, r, t)
           | Some (Ok _, t) \<Rightarrow> Some (Ok (length nodes), r, t)))"

fun grow_by_count_and_type ::
    "'r rng \<Rightarrow> allocate \<Rightarrow> nat \<Rightarrow> 'r \<Rightarrow> volume_grow_option \<Rightarrow> 'f topology \<Rightarrow> ((nat, volume_error) result \<times> 'r \<times> 'f topology) option" where
  "grow_by_count_and_type gen allocate 0 r option t = Some (Ok 0, r, t)"
| "grow_by_count_and_type gen allocate (Suc count) r option t =
     (case find_and_grow gen allocate r option t of
        None \<Rightarrow> None
      | Some (Err e, r, t) \<Rightarrow> Some (Err e, r, t)
      | Some (Panic, r, t) \<Rightarrow> Some (Panic, r, t)
      | Some (Ok n, r, t) \<Rightarrow>
          (case grow_by_count_and_type gen allocate count r option t of
             None \<Rightarrow> None
           | Some (Ok m, r, t) \<Rightarrow> Some (Ok (n + m), r, t)
           | Some (Err e, r, t) \<Rightarrow> Some (Err e, r, t)
           | Some (Panic, r, t) \<Rightarrow> Some (Panic, r, t)))"

definition grow_by_type ::
    "'r rng \<Rightarrow> allocate \<Rightarrow> 'r \<Rightarrow> volume_grow_option \<Rightarrow> 'f topology \<Rightarrow> ((nat, volume_error) result \<times> 'r \<times> 'f topology) option" where
  "grow_by_type gen allocate r option t =
     grow_by_count_and_type gen allocate (find_volume_count (copy_count (vgo_replica_placement option))) r option t"


subsection \<open>The picked nodes\<close>

lemma rng_less: "rng_ok gen \<Longrightarrow> gen r n = (i, r') \<Longrightarrow> 0 < n \<Longrightarrow> i < n"
  unfolding rng_ok_def by (metis fst_conv)

lemma fill_rest_ok:
  assumes "distinct (done @ cs)" "distinct ns" "set ns \<subseteq> set done" "length ns = min (length done) k"
    and "fill_rest gen r (length done) (k \<le> length done) (map Some ns @ replicate (k - length ns) None) cs = (ret, rest, r')"
  shows "ret \<longleftrightarrow> k \<le> length done + length cs"
    "k \<le> length done + length cs \<Longrightarrow>
      \<exists>ns'. rest = map Some ns' \<and> distinct ns' \<and> set ns' \<subseteq> set done \<union> set cs \<and> length ns' = k"
proof -
  have "(ret \<longleftrightarrow> k \<le> length done + length cs) \<and> (k \<le> length done + length cs \<longrightarrow>
      (\<exists>ns'. rest = map Some ns' \<and> distinct ns' \<and> set ns' \<subseteq> set done \<union> set cs \<and> length ns' = k))"
    using assms
  proof (induction cs arbitrary: "done" ns r)
    case Nil
    then show ?case
      by auto
  next
    case (Cons node cs)
    have new: "node \<notin> set done" "node \<notin> set ns"
      using Cons.prems(1,3) by auto
    show ?case
    proof (cases "length done < k")
      case True
      then have len: "length ns = length done"
        using Cons.prems(4) by simp
      obtain m where "k = Suc (length done + m)"
        using less_imp_Suc_add [OF True] by blast
      then have m: "k - length ns = Suc m" "k = Suc (length done + m)"
        using len by simp_all
      have upd: "(map Some ns @ replicate (k - length ns) None)[length done := Some node] =
          map Some (ns @ [node]) @ replicate (k - length (ns @ [node])) None"
        using m len by (simp add: list_update_append)
      have "fill_rest gen r (length (done @ [node])) (k \<le> length (done @ [node]))
          (map Some (ns @ [node]) @ replicate (k - length (ns @ [node])) None) cs = (ret, rest, r')"
        using Cons.prems(5) True upd m len by (simp add: not_le [symmetric])
      from Cons.IH [OF _ _ _ _ this] Cons.prems(1-4) new True show ?thesis
        by (auto simp: min_def)
    next
      case False
      then have full: "length ns = k"
        using Cons.prems(4) by simp
      obtain d r1 where d: "gen r (Suc (length done)) = (d, r1)"
        by fastforce
      let ?ns = "if d < k then ns[d := node] else ns"
      have "fill_rest gen r1 (length (done @ [node])) (k \<le> length (done @ [node])) (map Some ?ns @ replicate (k - length ?ns) None) cs =
          (ret, rest, r')"
        using Cons.prems(5) False full d by (simp add: map_update split: if_splits)
      moreover have "distinct ?ns" "set ?ns \<subseteq> set (done @ [node])" "length ?ns = min (length (done @ [node])) k"
        using Cons.prems(2,3) new False full set_update_subset_insert [of ns d node]
        by (auto simp: distinct_list_update)
      ultimately show ?thesis
        using Cons.IH [of "done @ [node]" ?ns r1] Cons.prems(1) by auto
    qed
  qed
  then show "ret \<longleftrightarrow> k \<le> length done + length cs"
    "k \<le> length done + length cs \<Longrightarrow>
      \<exists>ns'. rest = map Some ns' \<and> distinct ns' \<and> set ns' \<subseteq> set done \<union> set cs \<and> length ns' = k"
    by blast+
qed

lemma flatten_Some [simp]: "flatten_nodes (map Some ns) = ns"
  by (induction ns) (simp_all add: flatten_nodes_def)

text \<open>What a successful pick promises.\<close>

definition picked :: "net \<Rightarrow> nref list \<Rightarrow> (nref \<Rightarrow> bool) \<Rightarrow> nat \<Rightarrow> nref \<Rightarrow> nref list \<Rightarrow> bool" where
  "picked net children flt n main ns \<longleftrightarrow> main \<in> set children \<and> flt main \<and> distinct (main # ns) \<and> length ns = n \<and>
     (\<forall>x \<in> set ns. x \<in> set children \<and> 0 < free_space (net_nodes net x))"

lemma randomly_pick_nodes_ok:
  assumes "rng_ok gen" "distinct children"
  shows "(\<exists>main ns r'. randomly_pick_nodes gen r net children flt n = (Ok (main, map Some ns), r') \<and> picked net children flt n main ns) \<or>
    (\<exists>e r'. randomly_pick_nodes gen r net children flt n = (Err (VNoFreeSpace e), r'))"
proof (cases "filter flt children = []")
  case True
  then show ?thesis
    by (simp add: randomly_pick_nodes_def)
next
  case False
  let ?C = "filter flt children"
  obtain i r1 where i: "gen r (length ?C) = (i, r1)"
    by fastforce
  have "i < length ?C"
    using rng_less [OF assms(1) i] False by (simp only: length_greater_0_conv simp_thms)
  then have main: "?C ! i \<in> set children" "flt (?C ! i)"
    using nth_mem [of i ?C] by auto
  let ?R = "filter (\<lambda>node. \<not> nd_id (net_nodes net node) = nd_id (net_nodes net (?C ! i)) \<and> \<not> free_space (net_nodes net node) \<le> 0) children"
  obtain ret rest r2 where f: "fill_rest gen r1 0 (n = 0) (replicate n None) ?R = (ret, rest, r2)"
    by (rule prod_cases3)
  have d: "distinct ([] @ ?R)"
    using assms(2) by simp
  have f': "fill_rest gen r1 (length []) (n \<le> length []) (map Some [] @ replicate (n - length []) None) ?R = (ret, rest, r2)"
    using f by simp
  note ok = fill_rest_ok [OF d _ _ _ f', simplified]
  show ?thesis
  proof (cases ret)
    case True
    then obtain ns where ns: "rest = map Some ns" "distinct ns" "set ns \<subseteq> set ?R" "length ns = n"
      using ok by auto
    then have "picked net children flt n (?C ! i) ns"
      using main by (auto simp: picked_def)
    then show ?thesis
      using False i f True ns(1) by (simp add: randomly_pick_nodes_def Let_def)
  next
    case False
    then show ?thesis
      using \<open>?C \<noteq> []\<close> i f by (simp add: randomly_pick_nodes_def Let_def)
  qed
qed


subsection \<open>The placement\<close>

lemma under_less:
  assumes "linked net" "under net x y"
  shows "nlevel net x < nlevel net y"
  using assms(2)
proof (induction rule: tranclp_induct)
  case (base y)
  then show ?case
    by (rule linked_parent_less [OF assms(1)])
next
  case (step y z)
  then show ?case
    using linked_parent_less [OF assms(1) step.hyps(2)] by simp
qed

lemma under_parent:
  assumes "linked net" "under net x y" "nlevel net y = Suc (nlevel net x)"
  shows "nd_parent (net_nodes net x) = Some y"
  using tranclpD [OF assms(2)]
proof (elim exE conjE)
  fix z
  assume z: "nd_parent (net_nodes net x) = Some z" "(\<lambda>c p. nd_parent (net_nodes net c) = Some p)\<^sup>*\<^sup>* z y"
  have "nlevel net x < nlevel net z"
    using linked_parent_less [OF assms(1) z(1)] .
  moreover have "z = y \<or> under net z y"
    using z(2) by (meson rtranclpD)
  ultimately have "z = y"
    using under_less [OF assms(1), of z y] assms(3) by auto
  then show ?thesis
    using z(1) by simp
qed

lemma under_grandparent:
  assumes "linked net" "under net x y" "nlevel net y = Suc (Suc (nlevel net x))"
  shows "\<exists>z. nd_parent (net_nodes net x) = Some z \<and> nd_parent (net_nodes net z) = Some y"
  using tranclpD [OF assms(2)]
proof (elim exE conjE)
  fix z
  assume z: "nd_parent (net_nodes net x) = Some z" "(\<lambda>c p. nd_parent (net_nodes net c) = Some p)\<^sup>*\<^sup>* z y"
  have l: "nlevel net z = Suc (nlevel net x)"
    using assms(1) z(1) unfolding linked_def by simp
  then have "under net z y"
    using z(2) assms(3) by (auto dest: rtranclpD)
  then show ?thesis
    using under_parent [OF assms(1), of z y] l assms(3) z(1) by simp
qed

text \<open>
  Without the assumption on erasure coded shards of \<open>reserve_one_volume_ok\<close>, a walk may find no slot; it still
  finishes, and a slot it finds is one.
\<close>

lemma pick_child_free: "pick_child net cs rand = Some (c, r) \<Longrightarrow> c \<in> set cs \<and> 0 < free_space (net_nodes net c)"
  by (induction net cs rand rule: pick_child.induct) (auto simp: Let_def split: if_splits)

lemma reserve_one_volume_total:
  assumes "linked net"
  shows "(\<exists>d. reserve_one_volume net n rand = Some (Ok d) \<and> nd_type (net_nodes net d) = DataNodeNode \<and>
      0 < free_space (net_nodes net d) \<and> under net d n) \<or>
    (\<exists>e. reserve_one_volume net n rand = Some (Err (VNoFreeSpace e)))"
proof (induction "nlevel net n" arbitrary: n rand rule: less_induct)
  case less
  show ?case
  proof (cases "pick_child net (map snd (nd_children (net_nodes net n))) rand")
    case None
    then show ?thesis
      by (simp add: reserve_one_volume.simps)
  next
    case (Some p)
    obtain c r where p: "p = (c, r)"
      by fastforce
    have c: "c \<in> set (map snd (nd_children (net_nodes net n)))" "0 < free_space (net_nodes net c)"
      using pick_child_free Some p by blast+
    then have par: "nd_parent (net_nodes net c) = Some n"
      using linked_child [OF assms] by auto
    show ?thesis
    proof (cases "nd_type (net_nodes net c) = DataNodeNode")
      case True
      then show ?thesis
        using Some p c par by (subst reserve_one_volume.simps) (auto simp: is_data_node_def downcast_def intro!: tranclp.r_into_trancl)
    next
      case False
      have step: "reserve_one_volume net n rand = reserve_one_volume net c r"
        using Some p False by (subst reserve_one_volume.simps) (simp add: is_data_node_def)
      have "under net d n" if "under net d c" for d
        using that par by (rule tranclp.trancl_into_trancl)
      then show ?thesis
        using less [OF linked_parent_less [OF assms par], of r] unfolding step by blast
    qed
  qed
qed

lemma reserve_each_ok:
  assumes "linked net" "\<forall>n \<in> set ns. 0 < free_space (net_nodes net n)"
  shows "(\<exists>xs r'. reserve_each gen r net ns = Some (Ok xs, r') \<and>
      list_all2 (\<lambda>x n. nd_type (net_nodes net x) = DataNodeNode \<and> 0 < free_space (net_nodes net x) \<and> under net x n) xs ns) \<or>
    (\<exists>e r'. reserve_each gen r net ns = Some (Err (VNoFreeSpace e), r'))"
  using assms(2)
proof (induction ns arbitrary: r)
  case (Cons n ns)
  then have n: "0 < free_space (net_nodes net n)"
    by simp
  obtain d r1 where d: "gen r (nat (free_space (net_nodes net n))) = (d, r1)"
    by fastforce
  consider x where "reserve_one_volume net n (int d) = Some (Ok x)" "nd_type (net_nodes net x) = DataNodeNode"
      "0 < free_space (net_nodes net x)" "under net x n"
    | e where "reserve_one_volume net n (int d) = Some (Err (VNoFreeSpace e))"
    using reserve_one_volume_total [OF assms(1), of n "int d"] by blast
  then show ?case
  proof cases
    case 1
    then show ?thesis
      using Cons.IH [of r1] Cons.prems n d by (auto simp: Let_def)
  next
    case 2
    then show ?thesis
      using n d by (simp add: Let_def)
  qed
qed simp

lemma downcast_each_ok: "\<forall>n \<in> set ns. nd_type (net_nodes net n) = DataNodeNode \<Longrightarrow> downcast_each net ns = Ok ns"
  by (induction ns) (simp_all add: downcast_def)

abbreviation rack_of :: "net \<Rightarrow> nref \<Rightarrow> nref option" where
  "rack_of net x \<equiv> nd_parent (net_nodes net x)"

definition center_of :: "net \<Rightarrow> nref \<Rightarrow> nref option" where
  "center_of net x = Option.bind (rack_of net x) (\<lambda>rack. nd_parent (net_nodes net rack))"

text \<open>
  The data nodes honour the placement: one more than the same-rack count in one rack, the different-rack count
  in pairwise different other racks of its data center, the others in pairwise different other data centers.
\<close>

definition placed :: "net \<Rightarrow> replica_placement \<Rightarrow> nref list \<Rightarrow> bool" where
  "placed net rp nodes \<longleftrightarrow>
     (\<exists>near others far rack dc. nodes = near @ others @ far \<and> distinct nodes \<and>
        length near = unat (same_rack_count rp) + 1 \<and> length others = unat (diff_rack_count rp) \<and>
        length far = unat (diff_data_center_count rp) \<and>
        (\<forall>x \<in> set near. rack_of net x = Some rack \<and> center_of net x = Some dc) \<and>
        (\<forall>x \<in> set others. rack_of net x \<noteq> Some rack \<and> center_of net x = Some dc) \<and> distinct (map (rack_of net) others) \<and>
        (\<forall>x \<in> set far. center_of net x \<noteq> Some dc) \<and> distinct (map (center_of net) far))"

lemma kids_props:
  assumes "tree_ok net"
  shows "distinct (kids net n)" "c \<in> set (kids net n) \<Longrightarrow> nd_parent (net_nodes net c) = Some n"
    "c \<in> set (kids net n) \<Longrightarrow> Suc (nlevel net c) = nlevel net n"
proof -
  have lk: "linked net"
    using assms by (simp add: tree_ok_def)
  show "distinct (kids net n)"
    by (rule linked_distinct_refs [OF lk])
  show "c \<in> set (kids net n) \<Longrightarrow> nd_parent (net_nodes net c) = Some n" "c \<in> set (kids net n) \<Longrightarrow> Suc (nlevel net c) = nlevel net n"
    using linked_child [OF lk] child_level [OF assms] by auto
qed

lemma level_data_node: "nlevel net x = 0 \<longleftrightarrow> nd_type (net_nodes net x) = DataNodeNode"
  by (cases "nd_type (net_nodes net x)") simp_all


lemma list_all2_map_eq: "list_all2 (\<lambda>x y. f x = g y) xs ys \<Longrightarrow> map f xs = map g ys"
  by (induction rule: list_all2_induct) simp_all

lemma list_all2_left: "list_all2 P xs ys \<Longrightarrow> x \<in> set xs \<Longrightarrow> \<exists>y \<in> set ys. P x y"
  by (induction rule: list_all2_induct) auto

lemma placed_of_picks:
  assumes ok: "tree_ok net" "rooted net"
    and p1: "picked net (kids net 0) f1 (unat (diff_data_center_count rp)) dc dcs"
    and p2: "picked net (kids net dc) f2 (unat (diff_rack_count rp)) rack racks"
    and p3: "picked net (kids net rack) f3 (unat (same_rack_count rp)) dn dns"
    and q1: "list_all2 (\<lambda>x n. nd_type (net_nodes net x) = DataNodeNode \<and> 0 < free_space (net_nodes net x) \<and> under net x n) xs racks"
    and q2: "list_all2 (\<lambda>x n. nd_type (net_nodes net x) = DataNodeNode \<and> 0 < free_space (net_nodes net x) \<and> under net x n) ys dcs"
  shows "placed net rp ((dn # dns) @ xs @ ys)" "x \<in> set ((dn # dns) @ xs @ ys) \<Longrightarrow> live x net"
    "rack_of net dn = Some rack" "rack_of net rack = Some dc"
proof -
  have lk: "linked net"
    using ok(1) by (simp add: tree_ok_def)
  note k = kids_props [OF ok(1)]
  have l0: "nlevel net 0 = 3"
    using ok(2) by (simp add: rooted_def)
  have dcs: "rack_of net d = Some 0 \<and> nlevel net d = 2" if "d \<in> set (dc # dcs)" for d
    using that p1 k(2,3) [of d 0] l0 by (auto simp: picked_def)
  have racks: "rack_of net d = Some dc \<and> nlevel net d = 1" if "d \<in> set (rack # racks)" for d
    using that p2 k(2,3) [of d dc] dcs [of dc] by (auto simp: picked_def)
  have near: "rack_of net d = Some rack \<and> nlevel net d = 0" if "d \<in> set (dn # dns)" for d
    using that p3 k(2,3) [of d rack] racks [of rack] by (auto simp: picked_def)
  have xs: "map (rack_of net) xs = map Some racks"
  proof (rule list_all2_map_eq, rule list.rel_mono_strong [OF q1])
    fix x n
    assume x: "n \<in> set racks" "nd_type (net_nodes net x) = DataNodeNode \<and> 0 < free_space (net_nodes net x) \<and> under net x n"
    then show "rack_of net x = Some n"
      using under_parent [OF lk, of x n] racks [of n] by simp
  qed
  have ys: "map (center_of net) ys = map Some dcs"
  proof (rule list_all2_map_eq, rule list.rel_mono_strong [OF q2])
    fix x n
    assume x: "n \<in> set dcs" "nd_type (net_nodes net x) = DataNodeNode \<and> 0 < free_space (net_nodes net x) \<and> under net x n"
    then show "center_of net x = Some n"
      using under_grandparent [OF lk, of x n] dcs [of n] by (auto simp: center_of_def)
  qed
  have nearc: "center_of net d = Some dc" if "d \<in> set (dn # dns)" for d
    using near [OF that] racks [of rack] by (simp add: center_of_def)
  have xsr: "\<exists>n \<in> set racks. rack_of net x = Some n" if "x \<in> set xs" for x
    using that arg_cong [OF xs, of set] by (auto simp: image_iff)
  have xsc: "center_of net x = Some dc \<and> rack_of net x \<noteq> Some rack" if "x \<in> set xs" for x
    using xsr [OF that] racks p2 by (auto simp: center_of_def picked_def)
  have ysd: "\<exists>d \<in> set dcs. center_of net y = Some d" if "y \<in> set ys" for y
    using that arg_cong [OF ys, of set] by (auto simp: image_iff)
  have ysc: "center_of net y \<noteq> Some dc" if "y \<in> set ys" for y
    using ysd [OF that] p1 by (auto simp: picked_def)
  have dist: "distinct (map (rack_of net) xs)" "distinct (map (center_of net) ys)"
    unfolding xs ys using p1 p2 by (simp_all add: picked_def distinct_map)
  have "distinct ((dn # dns) @ xs @ ys)"
  proof -
    have "distinct xs" "distinct ys" "distinct (dn # dns)"
      using dist p3 by (simp_all add: distinct_map picked_def)
    moreover have "set (dn # dns) \<inter> set xs = {}" "set xs \<inter> set ys = {}" "set (dn # dns) \<inter> set ys = {}"
      using near nearc xsc ysc by blast+
    ultimately show ?thesis
      by (simp only: distinct_append set_append) blast
  qed
  moreover have "length xs = unat (diff_rack_count rp)" "length ys = unat (diff_data_center_count rp)"
    using list_all2_lengthD [OF q1] list_all2_lengthD [OF q2] p1 p2 by (simp_all add: picked_def)
  moreover have "length (dn # dns) = unat (same_rack_count rp) + 1"
    using p3 by (simp add: picked_def)
  ultimately show "placed net rp ((dn # dns) @ xs @ ys)"
    unfolding placed_def using near nearc xsc ysc dist by blast
  show "rack_of net dn = Some rack" "rack_of net rack = Some dc"
    using near [of dn] racks [of rack] by simp_all
  show "live x net" if x: "x \<in> set ((dn # dns) @ xs @ ys)"
  proof -
    consider "x \<in> set (dn # dns)" | "x \<in> set xs" | "x \<in> set ys"
      using x by auto
    then show ?thesis
    proof cases
      case 1
      then show ?thesis
        using near [OF 1] under_chain [of net x rack dc 0] racks [of rack] dcs [of dc] level_data_node [of net x] by (simp add: live_def)
    next
      case 2
      obtain n where "n \<in> set racks" "rack_of net x = Some n"
        using xsr [OF 2] by blast
      then show ?thesis
        using under_chain [of net x n dc 0] racks [of n] dcs [of dc] q1 2 by (auto simp: live_def list_all2_conv_all_nth in_set_conv_nth)
    next
      case 3
      then obtain d where "d \<in> set dcs" "under net x d" "nd_type (net_nodes net x) = DataNodeNode"
        using list_all2_left [OF q2] by blast
      then show ?thesis
        using dcs [of d] tranclp.trancl_into_trancl [of _ x d 0] by (auto simp: live_def)
    qed
  qed
qed


lemma find_empty_slots_picked:
  assumes ok: "tree_ok net" "rooted net" and rng: "rng_ok gen"
    and p1: "randomly_pick_nodes gen r net (kids net 0) (data_center_filter net option)
        (unat (diff_data_center_count (vgo_replica_placement option))) = (Ok (dc, map Some dcs), r1)"
      "picked net (kids net 0) (data_center_filter net option) (unat (diff_data_center_count (vgo_replica_placement option))) dc dcs"
    and p2: "randomly_pick_nodes gen r1 net (kids net dc) (rack_filter net option)
        (unat (diff_rack_count (vgo_replica_placement option))) = (Ok (rack, map Some racks), r2)"
      "picked net (kids net dc) (rack_filter net option) (unat (diff_rack_count (vgo_replica_placement option))) rack racks"
    and p3: "randomly_pick_nodes gen r2 net (kids net rack) (data_node_filter net option)
        (unat (same_rack_count (vgo_replica_placement option))) = (Ok (dn, map Some dns), r3)"
      "picked net (kids net rack) (data_node_filter net option) (unat (same_rack_count (vgo_replica_placement option))) dn dns"
  shows "(\<exists>nodes r'. find_empty_slots gen r option net = Some (Ok nodes, r') \<and> placed net (vgo_replica_placement option) nodes \<and>
      (\<forall>x \<in> set nodes. live x net \<and> 0 < free_space (net_nodes net x)) \<and>
      (vgo_data_center option \<noteq> [] \<longrightarrow> matches_option net option (hd nodes))) \<or>
    (\<exists>e r'. find_empty_slots gen r option net = Some (Err (VNoFreeSpace e), r'))"
proof -
  let ?P = "\<lambda>x n. nd_type (net_nodes net x) = DataNodeNode \<and> 0 < free_space (net_nodes net x) \<and> under net x n"
  note k = kids_props [OF ok(1)]
  have l0: "nlevel net 0 = 3"
    using ok(2) by (simp add: rooted_def)
  have ldc: "nlevel net d = 2" if "d \<in> set (dc # dcs)" for d
    using that p1(2) k(3) [of d 0] l0 by (auto simp: picked_def)
  have lrack: "nlevel net d = 1" if "d \<in> set (rack # racks)" for d
    using that p2(2) k(3) [of d dc] ldc [of dc] by (auto simp: picked_def)
  have ldn: "nd_type (net_nodes net d) = DataNodeNode" if "d \<in> set (dn # dns)" for d
    using that p3(2) k(3) [of d rack] lrack [of rack] level_data_node [of net d] by (auto simp: picked_def)
  have lk: "linked net"
    using ok(1) by (simp add: tree_ok_def)
  have free: "\<forall>n \<in> set (racks @ dcs). 0 < free_space (net_nodes net n)"
    using p1(2) p2(2) by (auto simp: picked_def)
  have dn: "downcast_each net (dn # dns) = Ok (dn # dns)"
    using downcast_each_ok ldn by blast
  show ?thesis
  proof (cases "\<exists>e r4. reserve_each gen r3 net (racks @ dcs) = Some (Err (VNoFreeSpace e), r4)")
    case True
    then show ?thesis
      using p1(1) p2(1) p3(1) dn by (auto simp: find_empty_slots_def Let_def)
  next
    case False
    obtain zs r4 where z: "reserve_each gen r3 net (racks @ dcs) = Some (Ok zs, r4)" "list_all2 ?P zs (racks @ dcs)"
      using reserve_each_ok [OF lk free, of gen r3] False by blast
    then obtain xs ys where zs: "zs = xs @ ys" "list_all2 ?P xs racks" "list_all2 ?P ys dcs"
      by (auto simp: list_all2_append2)
    have "find_empty_slots gen r option net = Some (Ok ((dn # dns) @ xs @ ys), r4)"
      using p1(1) p2(1) p3(1) z(1) zs(1) dn by (simp add: find_empty_slots_def Let_def)
    moreover note pl = placed_of_picks [OF ok p1(2) p2(2) p3(2) zs(2,3)]
    moreover have "0 < free_space (net_nodes net x)" if "x \<in> set ((dn # dns) @ xs @ ys)" for x
      using that p3(2) list_all2_left [OF zs(2), of x] list_all2_left [OF zs(3), of x] by (auto simp: picked_def data_node_filter_def)
    moreover have "matches_option net option dn" if "vgo_data_center option \<noteq> []"
      using that p1(2) p2(2) p3(2) pl(3,4)
      by (auto simp: picked_def matches_option_def data_center_filter_def rack_filter_def data_node_filter_def data_center_id_def
        rack_id_def parent_id_def Let_def)
    ultimately show ?thesis
      by (intro disjI1 exI [of _ "(dn # dns) @ xs @ ys"] exI [of _ r4]) simp
  qed
qed

lemma find_empty_slots_ok:
  assumes ok: "tree_ok net" "rooted net" and rng: "rng_ok gen"
  shows "(\<exists>nodes r'. find_empty_slots gen r option net = Some (Ok nodes, r') \<and> placed net (vgo_replica_placement option) nodes \<and>
      (\<forall>x \<in> set nodes. live x net \<and> 0 < free_space (net_nodes net x)) \<and>
      (vgo_data_center option \<noteq> [] \<longrightarrow> matches_option net option (hd nodes))) \<or>
    (\<exists>e r'. find_empty_slots gen r option net = Some (Err (VNoFreeSpace e), r'))"
proof -
  let ?rp = "vgo_replica_placement option"
  let ?p1 = "randomly_pick_nodes gen r net (kids net 0) (data_center_filter net option) (unat (diff_data_center_count ?rp))"
  note k = kids_props(1) [OF ok(1)]
  have err: "find_empty_slots gen r option net = Some (Err (VNoFreeSpace e), r1)" if "?p1 = (Err (VNoFreeSpace e), r1)" for e r1
    using that by (simp add: find_empty_slots_def Let_def)
  show ?thesis
  proof (cases "\<exists>dc dcs r1. ?p1 = (Ok (dc, map Some dcs), r1) \<and> picked net (kids net 0) (data_center_filter net option) (unat (diff_data_center_count ?rp)) dc dcs")
    case False
    then show ?thesis
      using randomly_pick_nodes_ok [OF rng k] err by metis
  next
    case True
    then obtain dc dcs r1 where p1: "?p1 = (Ok (dc, map Some dcs), r1)"
        "picked net (kids net 0) (data_center_filter net option) (unat (diff_data_center_count ?rp)) dc dcs"
      by blast
    let ?p2 = "randomly_pick_nodes gen r1 net (kids net dc) (rack_filter net option) (unat (diff_rack_count ?rp))"
    show ?thesis
    proof (cases "\<exists>rack racks r2. ?p2 = (Ok (rack, map Some racks), r2) \<and> picked net (kids net dc) (rack_filter net option) (unat (diff_rack_count ?rp)) rack racks")
      case False
      then obtain e r2 where "?p2 = (Err (VNoFreeSpace e), r2)"
        using randomly_pick_nodes_ok [OF rng k] by metis
      then show ?thesis
        using p1(1) by (simp add: find_empty_slots_def Let_def)
    next
      case True
      then obtain rack racks r2 where p2: "?p2 = (Ok (rack, map Some racks), r2)"
          "picked net (kids net dc) (rack_filter net option) (unat (diff_rack_count ?rp)) rack racks"
        by blast
      let ?p3 = "randomly_pick_nodes gen r2 net (kids net rack) (data_node_filter net option) (unat (same_rack_count ?rp))"
      show ?thesis
      proof (cases "\<exists>dn dns r3. ?p3 = (Ok (dn, map Some dns), r3) \<and> picked net (kids net rack) (data_node_filter net option) (unat (same_rack_count ?rp)) dn dns")
        case False
        then obtain e r3 where "?p3 = (Err (VNoFreeSpace e), r3)"
          using randomly_pick_nodes_ok [OF rng k] by metis
        then show ?thesis
          using p1(1) p2(1) by (simp add: find_empty_slots_def Let_def)
      next
        case True
        then obtain dn dns r3 where p3: "?p3 = (Ok (dn, map Some dns), r3)"
            "picked net (kids net rack) (data_node_filter net option) (unat (same_rack_count ?rp)) dn dns"
          by blast
        show ?thesis
          using find_empty_slots_picked [OF ok rng p1 p2 p3] .
      qed
    qed
  qed
qed


subsection \<open>The new volume\<close>

lemma add_and_register_ok:
  assumes "topo_ok t" "live dn (tp_net t)" "rp_digits (vi_replica_placement v)"
  obtains b net' where "add_or_update_volume v dn (tp_net t) = Some (b, net')" "volumes_changed dn (tp_net t) net'"
    "vols net' dn = AList.update (vi_id v) v (vols (tp_net t) dn)"
    "topo_ok (t\<lparr>tp_net := net'\<rparr>)" "topo_ok (register_volume_layout v dn (t\<lparr>tp_net := net'\<rparr>))"
    "tp_net (register_volume_layout v dn (t\<lparr>tp_net := net'\<rparr>)) = net'"
proof -
  let ?net = "tp_net t"
  have ok: "tree_ok ?net" "rooted ?net" "vols_ok ?net"
    using assms(1) by (simp_all add: topo_ok_def)
  obtain b net' where a: "add_or_update_volume v dn ?net = Some (b, net')" "node_ok dn net'" "volumes_changed dn ?net net'"
      "vols net' dn = AList.update (vi_id v) v (vols ?net dn)"
    using add_or_update_volume_ok [OF live_node_ok [OF ok(1) assms(2)], of v] by blast
  have "\<forall>w \<in> snd ` set (vols net' dn). w \<in> snd ` set (vols ?net dn) \<or> rp_digits (vi_replica_placement w)"
    using set_alist_update [of "vi_id v" v "vols ?net dn"] assms(3) unfolding a(4) by force
  then have t1: "topo_ok (t\<lparr>tp_net := net'\<rparr>)"
    using topo_ok_net [OF assms(1) node_ok_tree [OF a(2)] rooted_volumes [OF ok(2) a(3)] addr_kept_volumes [OF a(3)]]
      vols_ok_volumes [OF ok(3) a(3)] by blast
  have l: "live dn net'"
    using live_volumes [OF a(3)] assms(2) by simp
  have "vi_id v \<in> fst ` set (vols net' dn)"
    unfolding a(4) by (simp add: dom_map_of_conv_image_fst [symmetric] update_conv')
  then have "vi_id v \<le> nmax net' 0"
    by (rule live_max [OF node_ok_tree [OF a(2)] l])
  then show thesis
    using register_volume_layout_ok [OF t1 assms(3), of dn] live_lt [OF node_ok_tree [OF a(2)] l]
    by (intro that [OF a(1,3,4) t1]) simp_all
qed

lemma grow_volume_ok:
  assumes "topo_ok t" "rp_digits (vgo_replica_placement option)" "\<forall>dn \<in> set nodes. live dn (tp_net t) \<and> allocate dn vid option \<noteq> Panic"
  shows "\<exists>r t'. grow_volume allocate vid option nodes t = Some (r, t') \<and> r \<noteq> Panic \<and> topo_ok t' \<and>
    (\<forall>x. live x (tp_net t') \<longleftrightarrow> live x (tp_net t))"
  using assms
proof (induction nodes arbitrary: t)
  case (Cons dn nodes)
  let ?v = "grown_volume vid option"
  show ?case
  proof (cases "allocate dn vid option")
    case (Ok u)
    have "live dn (tp_net t)" "rp_digits (vi_replica_placement ?v)"
      using Cons.prems by (simp_all add: grown_volume_def)
    from add_and_register_ok [OF Cons.prems(1) this] obtain b net' where
        a: "add_or_update_volume ?v dn (tp_net t) = Some (b, net')" "volumes_changed dn (tp_net t) net'"
          "topo_ok (register_volume_layout ?v dn (t\<lparr>tp_net := net'\<rparr>))" "tp_net (register_volume_layout ?v dn (t\<lparr>tp_net := net'\<rparr>)) = net'"
      by metis
    then show ?thesis
      using Cons.IH [OF a(3)] Cons.prems(2,3) Ok live_volumes [OF a(2)] by simp
  qed (use Cons.prems in auto)
qed simp

text \<open>The volume is on the given data nodes, in the layout and in their own tables.\<close>

abbreviation option_layout :: "'f topology \<Rightarrow> volume_grow_option \<Rightarrow> volume_layout" where
  "option_layout t option \<equiv> the_layout t (vgo_collection option) (vgo_replica_placement option) (vgo_ttl option)"

definition grown_on :: "volume_id \<Rightarrow> volume_grow_option \<Rightarrow> nref list \<Rightarrow> 'f topology \<Rightarrow> bool" where
  "grown_on vid option ns t \<longleftrightarrow>
     layout_lookup (option_layout t option) vid = (if ns = [] then None else Some ns) \<and>
     (\<forall>x \<in> set ns. get_volume (tp_net t) x vid = Some (grown_volume vid option))"

lemma set_node_new: "addr net dn \<notin> set (map (addr net) ls) \<Longrightarrow> set_node net dn ls = ls @ [dn]"
  by (induction ls) (auto simp: same_address_def)

lemma register_limit [simp]: "vl_volume_size_limit (register_volume net v dn vl) = vl_volume_size_limit vl"
proof -
  let ?ls = "new_locations net vl (vi_id v) dn"
  let ?vl = "vl\<lparr>vl_locations := AList.update (vi_id v) ?ls (vl_locations vl)\<rparr>"
  have e: "vl_volume_size_limit (ensure_correct_writable v (remember_oversized_volume v vl)) = vl_volume_size_limit vl" for vl
    by (simp add: ensure_correct_writable_def remember_oversized_volume_def set_volume_writable_def remove_from_writable_def
      split: option.splits)
  obtain b vl1 where c: "check_locations net (vi_id v) ?ls ?vl = (b, vl1)"
    by fastforce
  then have "vl_volume_size_limit vl1 = vl_volume_size_limit vl"
    using check_locations_limit [of net "vi_id v" ?ls ?vl] by simp
  then show ?thesis
    by (simp add: register_volume_def Let_def c e)
qed

lemma grow_one_node:
  assumes t: "topo_ok t" "live dn (tp_net t)" "rp_digits (vgo_replica_placement option)"
    and g: "grown_on vid option ns t" "distinct (map (addr (tp_net t)) (ns @ [dn]))"
    and limit: "0 < vl_volume_size_limit (option_layout t option)"
  obtains b net' t' where "add_or_update_volume (grown_volume vid option) dn (tp_net t) = Some (b, net')"
    "t' = register_volume_layout (grown_volume vid option) dn (t\<lparr>tp_net := net'\<rparr>)" "topo_ok t'"
    "volumes_changed dn (tp_net t) (tp_net t')" "grown_on vid option (ns @ [dn]) t'"
    "vl_volume_size_limit (option_layout t' option) = vl_volume_size_limit (option_layout t option)"
    "copy_count (vgo_replica_placement option) \<le> length (ns @ [dn]) \<longrightarrow> vid \<in> set (vl_writable_volumes (option_layout t' option))"
proof -
  let ?v = "grown_volume vid option" and ?vl = "option_layout t option"
  have v: "vi_collection ?v = vgo_collection option" "vi_replica_placement ?v = vgo_replica_placement option" "vi_ttl ?v = vgo_ttl option"
      "vi_id ?v = vid" "\<not> vi_read_only ?v"
    by (simp_all add: grown_volume_def)
  obtain b net' where a: "add_or_update_volume ?v dn (tp_net t) = Some (b, net')" "volumes_changed dn (tp_net t) net'"
      "vols net' dn = AList.update vid ?v (vols (tp_net t) dn)" "topo_ok (t\<lparr>tp_net := net'\<rparr>)"
      "topo_ok (register_volume_layout ?v dn (t\<lparr>tp_net := net'\<rparr>))" "tp_net (register_volume_layout ?v dn (t\<lparr>tp_net := net'\<rparr>)) = net'"
    using add_and_register_ok [OF t(1,2), of ?v] t(3) unfolding v by blast
  let ?t' = "register_volume_layout ?v dn (t\<lparr>tp_net := net'\<rparr>)"
  have vl: "option_layout (t\<lparr>tp_net := net'\<rparr>) option = ?vl"
    by (simp add: the_layout_def cong: option.case_cong)
  have vl': "option_layout ?t' option = register_volume net' ?v dn ?vl"
    unfolding register_volume_layout_def v by (simp add: the_layout_after vl)
  have e: "entry_ok net' (layout_key (vgo_replica_placement option) (Some (vgo_ttl option))) ?vl" "vl_rp ?vl = vgo_replica_placement option"
    using get_volume_layout_ok [OF a(4) t(3), of "vgo_ttl option" "\<lambda>vl. ((), vl)" "vgo_collection option"] vl by simp_all
  have ad: "map (addr net') (ns @ [dn]) = map (addr (tp_net t)) (ns @ [dn])"
    using a(2) by (auto simp: volumes_changed_def)
  have loc: "new_locations net' ?vl vid dn = ns @ [dn]"
    using g set_node_new [of net' dn ns] ad by (simp add: grown_on_def layout_lookup_def)
  have vols: "get_volume net' x vid = Some ?v" if "x \<in> set (ns @ [dn])" for x
    using that g(1) a(2,3) by (cases "x = dn") (auto simp: grown_on_def get_volume_def volumes_changed_def update_conv')
  have "grown_on vid option (ns @ [dn]) ?t'"
    using vols loc by (simp add: grown_on_def vl' layout_lookup_def update_conv' v(4) a(6))
  moreover have "vid \<in> set (vl_writable_volumes (option_layout ?t' option))"
    if "copy_count (vgo_replica_placement option) \<le> length (ns @ [dn])"
    using register_volume_writable [of net' ?vl dn ?v] e vols that limit unfolding vl' v(4) loc
    by (simp add: entry_ok_def v is_writable_def is_oversize_def) (simp add: grown_volume_def)
  ultimately show thesis
    using a vl' by (intro that [OF a(1) refl a(5)]) simp_all
qed


lemma grow_volume_places:
  assumes "topo_ok t" "rp_digits (vgo_replica_placement option)"
    and "\<forall>dn \<in> set nodes. live dn (tp_net t) \<and> allocate dn vid option = Ok ()"
    and "grown_on vid option ns t" "distinct (map (addr (tp_net t)) (ns @ nodes))"
    and "0 < vl_volume_size_limit (option_layout t option)"
    and "nodes \<noteq> []" "copy_count (vgo_replica_placement option) \<le> length (ns @ nodes)"
  shows "\<exists>t'. grow_volume allocate vid option nodes t = Some (Ok (), t') \<and> topo_ok t' \<and> grown_on vid option (ns @ nodes) t' \<and>
    vid \<in> set (vl_writable_volumes (option_layout t' option))"
  using assms
proof (induction nodes arbitrary: t ns)
  case (Cons dn nodes)
  have l: "live dn (tp_net t)" "distinct (map (addr (tp_net t)) (ns @ [dn]))"
    using Cons.prems(3,5) by auto
  obtain b net' t' where s: "add_or_update_volume (grown_volume vid option) dn (tp_net t) = Some (b, net')"
      "t' = register_volume_layout (grown_volume vid option) dn (t\<lparr>tp_net := net'\<rparr>)" "topo_ok t'"
      "volumes_changed dn (tp_net t) (tp_net t')" "grown_on vid option (ns @ [dn]) t'"
      "vl_volume_size_limit (option_layout t' option) = vl_volume_size_limit (option_layout t option)"
      "copy_count (vgo_replica_placement option) \<le> length (ns @ [dn]) \<longrightarrow> vid \<in> set (vl_writable_volumes (option_layout t' option))"
    by (rule grow_one_node [OF Cons.prems(1) l(1) Cons.prems(2,4) l(2) Cons.prems(6)]) (rule that)
  have step: "grow_volume allocate vid option (dn # nodes) t = grow_volume allocate vid option nodes t'"
    using s(1,2) Cons.prems(3) by simp
  show ?case
  proof (cases "nodes = []")
    case True
    then show ?thesis
      using step s(3,5,7) Cons.prems(8) by simp
  next
    case False
    have "addr (tp_net t') = addr (tp_net t)"
      using s(4) by (auto simp: volumes_changed_def)
    then have "distinct (map (addr (tp_net t')) ((ns @ [dn]) @ nodes))"
      using Cons.prems(5) by (simp only:) simp
    then show ?thesis
      using Cons.IH [OF s(3) Cons.prems(2) _ s(5) _ _ False] Cons.prems(3,6,8) live_volumes [OF s(4)] s(6) step by simp
  qed
qed simp

lemma length_placed: "placed net rp nodes \<Longrightarrow> rp_digits rp \<Longrightarrow> length nodes = copy_count rp"
  by (auto simp: placed_def copy_count_digits)

lemma next_volume_id_new:
  assumes "topo_ok t" "nmax (tp_net t) 0 < - 1"
  shows "live x (tp_net t) \<Longrightarrow> get_volume (tp_net t) x (next_volume_id t) = None"
    "rp_digits rp \<Longrightarrow> layout_lookup (the_layout t name rp ttl) (next_volume_id t) = None"
proof -
  have "1 + nmax (tp_net t) 0 \<noteq> 0"
    using assms(2) by (auto simp: add_eq_0_iff)
  then have gt: "nmax (tp_net t) 0 < next_volume_id t"
    by (simp add: next_volume_id_def word_less_nat_alt unatSuc add.commute)
  show "get_volume (tp_net t) x (next_volume_id t) = None" if "live x (tp_net t)"
  proof -
    have "next_volume_id t \<notin> fst ` set (vols (tp_net t) x)"
      using live_max [OF _ that, of "next_volume_id t"] assms(1) gt unfolding topo_ok_def by (meson leD)
    then show ?thesis
      by (simp add: get_volume_def map_of_eq_None_iff)
  qed
  show "layout_lookup (the_layout t name rp ttl) (next_volume_id t) = None" if "rp_digits rp"
  proof -
    have "entry_ok (tp_net t) (layout_key rp (Some ttl)) (the_layout t name rp ttl)"
      using get_volume_layout_ok [OF assms(1) that, of ttl "\<lambda>vl. ((), vl)" name] by simp
    then have "next_volume_id t \<notin> fst ` set (vl_locations (the_layout t name rp ttl))"
      using entry_ok_max gt by (meson leD)
    then show ?thesis
      by (simp add: layout_lookup_def map_of_eq_None_iff)
  qed
qed

lemma find_and_grow_ok:
  assumes "topo_ok t" "rng_ok gen" "rp_digits (vgo_replica_placement option)" "\<forall>dn vid. allocate dn vid option \<noteq> Panic"
  shows "\<exists>res r' t'. find_and_grow gen allocate r option t = Some (res, r', t') \<and> res \<noteq> Panic \<and> topo_ok t' \<and>
    (\<forall>x. live x (tp_net t') \<longleftrightarrow> live x (tp_net t))"
proof -
  have ok: "tree_ok (tp_net t)" "rooted (tp_net t)"
    using assms(1) by (simp_all add: topo_ok_def)
  consider nodes r' where "find_empty_slots gen r option (tp_net t) = Some (Ok nodes, r')" "\<forall>x \<in> set nodes. live x (tp_net t)"
    | e r' where "find_empty_slots gen r option (tp_net t) = Some (Err e, r')"
    using find_empty_slots_ok [OF ok assms(2), of r option] by blast
  then show ?thesis
  proof cases
    case 1
    then obtain res t' where "grow_volume allocate (next_volume_id t) option nodes t = Some (res, t')" "res \<noteq> Panic" "topo_ok t'"
        "\<forall>x. live x (tp_net t') \<longleftrightarrow> live x (tp_net t)"
      using grow_volume_ok [OF assms(1,3), of nodes allocate "next_volume_id t"] assms(4) by blast
    then show ?thesis
      using 1(1) by (cases res) (simp_all add: find_and_grow_def)
  next
    case 2
    then show ?thesis
      using assms(1) by (simp add: find_and_grow_def)
  qed
qed

lemma grow_by_count_ok:
  assumes "topo_ok t" "rng_ok gen" "rp_digits (vgo_replica_placement option)" "\<forall>dn vid. allocate dn vid option \<noteq> Panic"
  shows "\<exists>res r' t'. grow_by_count_and_type gen allocate n r option t = Some (res, r', t') \<and> res \<noteq> Panic \<and> topo_ok t' \<and>
    (\<forall>x. live x (tp_net t') \<longleftrightarrow> live x (tp_net t))"
  using assms(1)
proof (induction n arbitrary: r t)
  case (Suc n)
  obtain res r1 t1 where f: "find_and_grow gen allocate r option t = Some (res, r1, t1)" "res \<noteq> Panic" "topo_ok t1"
      "\<forall>x. live x (tp_net t1) \<longleftrightarrow> live x (tp_net t)"
    using find_and_grow_ok [where allocate = allocate, OF Suc.prems assms(2-4)] by blast
  obtain res' r2 t2 where g: "grow_by_count_and_type gen allocate n r1 option t1 = Some (res', r2, t2)" "res' \<noteq> Panic" "topo_ok t2"
      "\<forall>x. live x (tp_net t2) \<longleftrightarrow> live x (tp_net t1)"
    using Suc.IH [OF f(3)] by blast
  show ?case
    using f g by (cases res; cases res') simp_all
qed simp

lemma grow_by_type_ok:
  assumes "topo_ok t" "rng_ok gen" "rp_digits (vgo_replica_placement option)" "\<forall>dn vid. allocate dn vid option \<noteq> Panic"
  shows "\<exists>res r' t'. grow_by_type gen allocate r option t = Some (res, r', t') \<and> res \<noteq> Panic \<and> topo_ok t' \<and>
    (\<forall>x. live x (tp_net t') \<longleftrightarrow> live x (tp_net t))"
  unfolding grow_by_type_def using grow_by_count_ok [where allocate = allocate, OF assms] .



definition empty_topology :: "unit topology" where
  "empty_topology = (topology_new (Memory memory_sequencer_new) 1000)\<lparr>tp_net := demo_net\<rparr>"

lemma demo_slots: "find_empty_slots counting_rng 0 demo_option demo_net = Some (Ok [3], 3)"
proof -
  have "find_empty_slots counting_rng 0 demo_option demo_net = Some (Ok [Suc (Suc (Suc 0))], Suc (Suc (Suc 0)))"
    by (simp add: find_empty_slots_def randomly_pick_nodes_def demo_option_def demo_eval counting_rng_def
       data_center_filter_def rack_filter_def data_node_filter_def possible_nodes_def flatten_nodes_def rp_default_def downcast_def)
  then show ?thesis
    by (simp add: eval_nat_numeral)
qed

lemma demo_live: "live x demo_net \<Longrightarrow> x = 3"
  by (simp add: live_def demo_eval split: if_splits)

lemma empty_topology_ok: "topo_ok empty_topology" "tp_net empty_topology = demo_net"
  using tree_ok_reachable [OF demo_run] by (simp_all add: empty_topology_def topo_ok_def topology_new_def vols_ok_def demo_no_volumes)


end
