(* ===== verification/TopoEc.thy ===== *)
theory TopoEc
  imports TopoGrow
begin

section \<open>Shards of erasure-coded volumes in the topology\<close>

text \<open>
  \<open>topology/erasure_coding\<close>: where the master believes the shards of an erasure-coded volume to be, and what
  the reports of a data node do to it. The bit set of an \<open>EcVolumeInfo\<close> is a shared cell: a clone of an info
  sees what is stored into it, and \<open>shard_id_count\<close> stores. The definitions return, with every list of infos,
  the sets their cells are left with; the table of a data node and the lists an operation returns share cells.
  \<open>None\<close> as the result of an operation says that it never returns.
\<close>

subsection \<open>Locations of shards\<close>

definition ec_shard_locations_new :: "string \<Rightarrow> ec_shard_locations" where
  "ec_shard_locations_new collection =
     \<lparr>esl_collection = collection, esl_locations = replicate (unat TOTAL_SHARDS_COUNT) []\<rparr>"

definition locations_add_ec_shard :: "net \<Rightarrow> shard_id \<Rightarrow> nref \<Rightarrow> ec_shard_locations \<Rightarrow> bool \<times> ec_shard_locations" where
  "locations_add_ec_shard net i dn l =
     (let data_nodes = esl_locations l ! unat i in
      if list_ex (\<lambda>node. nd_id (net_nodes net node) = nd_id (net_nodes net dn)) data_nodes then (False, l)
      else (True, l\<lparr>esl_locations := (esl_locations l)[unat i := data_nodes @ [dn]]\<rparr>))"

fun first_same_id :: "net \<Rightarrow> nref \<Rightarrow> nref list \<Rightarrow> nat option" where
  "first_same_id net dn [] = None"
| "first_same_id net dn (n # ns) =
     (if nd_id (net_nodes net n) = nd_id (net_nodes net dn) then Some 0 else map_option Suc (first_same_id net dn ns))"

definition locations_delete_ec_shard :: "net \<Rightarrow> shard_id \<Rightarrow> nref \<Rightarrow> ec_shard_locations \<Rightarrow> bool \<times> ec_shard_locations" where
  "locations_delete_ec_shard net i dn l =
     (let data_nodes = esl_locations l ! unat i in
      case first_same_id net dn data_nodes of
        None \<Rightarrow> (False, l)
      | Some k \<Rightarrow> (True, l\<lparr>esl_locations := (esl_locations l)[unat i := take k data_nodes @ drop (Suc k) data_nodes]\<rparr>))"

definition lookup_ec_shards :: "'f topology \<Rightarrow> volume_id \<Rightarrow> ec_shard_locations option" where
  "lookup_ec_shards t vid = map_of (tp_ec_shards t) vid"

definition add_ec_shards :: "net \<Rightarrow> shard_bits \<Rightarrow> nref \<Rightarrow> ec_shard_locations \<Rightarrow> ec_shard_locations" where
  "add_ec_shards net bits dn l = fold (\<lambda>i l. snd (locations_add_ec_shard net i dn l)) (sb_shard_ids bits) l"

definition register_ec_shards :: "ec_volume_info \<Rightarrow> nref \<Rightarrow> 'f topology \<Rightarrow> 'f topology" where
  "register_ec_shards info dn t =
     (let locations = (case map_of (tp_ec_shards t) (evi_volume_id info) of
                         Some l \<Rightarrow> l
                       | None \<Rightarrow> ec_shard_locations_new (evi_collection info))
      in t\<lparr>tp_ec_shards := AList.update (evi_volume_id info)
             (add_ec_shards (tp_net t) (evi_shard_bits info) dn locations) (tp_ec_shards t)\<rparr>)"

definition unregister_ec_shards :: "ec_volume_info \<Rightarrow> nref \<Rightarrow> 'f topology \<Rightarrow> 'f topology" where
  "unregister_ec_shards info dn t =
     (case map_of (tp_ec_shards t) (evi_volume_id info) of
        Some l \<Rightarrow>
          t\<lparr>tp_ec_shards := AList.update (evi_volume_id info)
             (fold (\<lambda>i l. snd (locations_delete_ec_shard (tp_net t) i dn l)) (sb_shard_ids (evi_shard_bits info)) l)
             (tp_ec_shards t)\<rparr>
      | None \<Rightarrow> t)"

subsection \<open>The table of a data node\<close>

abbreviation ec_table :: "net \<Rightarrow> nref \<Rightarrow> (volume_id \<times> ec_volume_info) list" where
  "ec_table net x \<equiv> dn_ec_shards (net_dns net x)"

abbreviation set_ec_table :: "nref \<Rightarrow> (volume_id \<times> ec_volume_info) list \<Rightarrow> net \<Rightarrow> net" where
  "set_ec_table x es net \<equiv> upd_dn x (\<lambda>dn. dn\<lparr>dn_ec_shards := es\<rparr>) net"

definition has_ec_shards :: "net \<Rightarrow> nref \<Rightarrow> volume_id \<Rightarrow> bool" where
  "has_ec_shards net x vid \<longleftrightarrow> vid \<in> fst ` set (ec_table net x)"

definition get_ec_shards :: "net \<Rightarrow> nref \<Rightarrow> ec_volume_info list" where
  "get_ec_shards net x = map snd (ec_table net x)"

text \<open>\<open>shard_bits.shard_id_count()\<close> of an info: the count and the info with what its cell is left with.\<close>

definition count_shards :: "ec_volume_info \<Rightarrow> u64 \<times> ec_volume_info" where
  "count_shards info =
     (let (c, b) = sb_shard_id_count (evi_shard_bits info) in (c, info\<lparr>evi_shard_bits := b\<rparr>))"

text \<open>The difference \<open>diff\<close> is counted to see whether there is one, and once more to add it up.\<close>

definition count_diff :: "ec_volume_info \<Rightarrow> u64 \<Rightarrow> ec_volume_info list \<Rightarrow> u64 \<times> ec_volume_info list" where
  "count_diff diff count shards =
     (let (c, diff) = count_shards diff in
      if c > 0 then let (c, diff) = count_shards diff in (count + c, shards @ [diff])
      else (count, shards))"

fun diff_loop ::
    "(volume_id \<times> ec_volume_info) list \<Rightarrow> (volume_id \<rightharpoonup> ec_volume_info) \<Rightarrow> u64 \<times> ec_volume_info list \<Rightarrow> u64 \<times> ec_volume_info list \<Rightarrow>
     (u64 \<times> ec_volume_info list) \<times> u64 \<times> ec_volume_info list" where
  "diff_loop [] actual new deleted = (new, deleted)"
| "diff_loop ((vid, info) # rest) actual (new_count, new_shards) (del_count, deleted_shards) =
     (case actual vid of
        Some actual_info \<Rightarrow>
          diff_loop rest actual (count_diff (evi_minus actual_info info) new_count new_shards)
            (count_diff (evi_minus info actual_info) del_count deleted_shards)
      | None \<Rightarrow>
          let (c, info) = count_shards info
          in diff_loop rest actual (new_count, new_shards) (del_count + c, deleted_shards @ [info]))"

text \<open>The second loop: the reported infos with what their cells are left with, and the new ones.\<close>

fun known_loop ::
    "volume_id set \<Rightarrow> ec_volume_info list \<Rightarrow> u64 \<times> ec_volume_info list \<Rightarrow> ec_volume_info list \<times> u64 \<times> ec_volume_info list" where
  "known_loop known [] new = ([], new)"
| "known_loop known (info # infos) (new_count, new_shards) =
     (if evi_volume_id info \<in> known
      then let (c, info) = count_shards info;
               (infos, new) = known_loop known infos (new_count + c, new_shards @ [info])
           in (info # infos, new)
      else let (infos, new) = known_loop known infos (new_count, new_shards)
           in (info # infos, new))"

definition update_ec_shards ::
    "ec_volume_info list \<Rightarrow> nref \<Rightarrow> net \<Rightarrow> (ec_volume_info list \<times> ec_volume_info list \<times> net) option" where
  "update_ec_shards actual_shards x net =
     (let actual = map_of (rev (map (\<lambda>i. (evi_volume_id i, i)) actual_shards));
          (new, del_count, deleted_shards) = diff_loop (ec_table net x) actual (0, []) (0, []);
          (actual_shards, new_count, new_shards) = known_loop (fst ` set (ec_table net x)) actual_shards new
      in if new_shards \<noteq> [] \<or> deleted_shards \<noteq> [] then
           case adjust_ec_shard_count (sint new_count - sint del_count) x
               (set_ec_table x (fold (\<lambda>i. AList.update (evi_volume_id i) i) actual_shards []) net) of
             Some net \<Rightarrow> Some (new_shards, deleted_shards, net)
           | None \<Rightarrow> None
         else Some (new_shards, deleted_shards, net))"

definition add_or_update_ec_shards :: "ec_volume_info \<Rightarrow> nref \<Rightarrow> net \<Rightarrow> (ec_volume_info \<times> net) option" where
  "add_or_update_ec_shards volume x net =
     (let (delta, volume, net) =
        (case map_of (ec_table net x) (evi_volume_id volume) of
           Some info \<Rightarrow>
             let (old_count, info) = count_shards info;
                 info = info\<lparr>evi_shard_bits := sb_plus (evi_shard_bits info) (evi_shard_bits volume)\<rparr>;
                 (count, info) = count_shards info
             in (count - old_count, volume, set_ec_table x (AList.update (evi_volume_id volume) info (ec_table net x)) net)
         | None \<Rightarrow>
             let (delta, volume) = count_shards volume
             in (delta, volume, set_ec_table x (AList.update (evi_volume_id volume) volume (ec_table net x)) net))
      in map_option (Pair volume) (adjust_ec_shard_count (sint delta) x net))"

text \<open>
  The entry is removed while the guard that \<open>get_mut\<close> returned for it is alive: the removal waits for the lock
  the guard holds.
\<close>

definition delete_ec_shard_info :: "ec_volume_info \<Rightarrow> nref \<Rightarrow> net \<Rightarrow> net option" where
  "delete_ec_shard_info volume x net =
     (case map_of (ec_table net x) (evi_volume_id volume) of
        Some info \<Rightarrow>
          let (old_count, info) = count_shards info;
              info = info\<lparr>evi_shard_bits := sb_minus (evi_shard_bits info) (evi_shard_bits volume)\<rparr>;
              (count, info) = count_shards info;
              delta = count - old_count;
              (count, info) = count_shards info
          in if count = 0 then None
             else adjust_ec_shard_count (sint delta) x (set_ec_table x (AList.update (evi_volume_id volume) info (ec_table net x)) net)
      | None \<Rightarrow> Some net)"

fun add_each_ec_shards :: "ec_volume_info list \<Rightarrow> nref \<Rightarrow> net \<Rightarrow> (ec_volume_info list \<times> net) option" where
  "add_each_ec_shards [] x net = Some ([], net)"
| "add_each_ec_shards (i # is) x net =
     (case add_or_update_ec_shards i x net of
        None \<Rightarrow> None
      | Some (i, net) \<Rightarrow> map_option (\<lambda>(is, net). (i # is, net)) (add_each_ec_shards is x net))"

fun delete_each_ec_shards :: "ec_volume_info list \<Rightarrow> nref \<Rightarrow> net \<Rightarrow> net option" where
  "delete_each_ec_shards [] x net = Some net"
| "delete_each_ec_shards (i # is) x net = Option.bind (delete_ec_shard_info i x net) (delete_each_ec_shards is x)"

definition delta_update_ec_shards ::
    "ec_volume_info list \<Rightarrow> ec_volume_info list \<Rightarrow> nref \<Rightarrow> net \<Rightarrow> (ec_volume_info list \<times> net) option" where
  "delta_update_ec_shards new_shards deleted_shards x net =
     (case add_each_ec_shards new_shards x net of
        None \<Rightarrow> None
      | Some (new_shards, net) \<Rightarrow> map_option (Pair new_shards) (delete_each_ec_shards deleted_shards x net))"

subsection \<open>Reports of data nodes\<close>

definition ec_info_of :: "ec_shard_message \<Rightarrow> ec_volume_info" where
  "ec_info_of m = \<lparr>evi_volume_id = em_id m, evi_collection = em_collection m, evi_shard_bits = ShardBits (em_ec_index_bits m)\<rparr>"

definition sync_data_node_ec_shards ::
    "ec_shard_message list \<Rightarrow> nref \<Rightarrow> 'f topology \<Rightarrow> (ec_volume_info list \<times> ec_volume_info list \<times> 'f topology) option" where
  "sync_data_node_ec_shards ms x t =
     (case update_ec_shards (map ec_info_of ms) x (tp_net t) of
        None \<Rightarrow> None
      | Some (new_shards, deleted_shards, net) \<Rightarrow>
          let t = t\<lparr>tp_net := net\<rparr>;
              t = fold (\<lambda>i. register_ec_shards i x) new_shards t;
              t = fold (\<lambda>i. unregister_ec_shards i x) deleted_shards t
          in Some (new_shards, deleted_shards, t))"

definition incremental_sync_data_node_ec_shards ::
    "ec_shard_message list \<Rightarrow> ec_shard_message list \<Rightarrow> nref \<Rightarrow> 'f topology \<Rightarrow> 'f topology option" where
  "incremental_sync_data_node_ec_shards new_ec_shards deleted_ec_shards x t =
     (let deleted_shards = map ec_info_of deleted_ec_shards in
      case delta_update_ec_shards (map ec_info_of new_ec_shards) deleted_shards x (tp_net t) of
        None \<Rightarrow> None
      | Some (new_shards, net) \<Rightarrow>
          let t = t\<lparr>tp_net := net\<rparr>;
              t = fold (\<lambda>i. register_ec_shards i x) new_shards t;
              t = fold (\<lambda>i. unregister_ec_shards i x) deleted_shards t
          in Some t)"


subsection \<open>Counting leaves nothing behind\<close>

abbreviation emptied :: "ec_volume_info \<Rightarrow> ec_volume_info" where
  "emptied info \<equiv> info\<lparr>evi_shard_bits := ShardBits 0\<rparr>"

lemma count_shards_eq: "count_shards info = (of_nat (card {i. bit (sb_value (evi_shard_bits info)) i}), emptied info)"
  by (simp add: count_shards_def sb_shard_id_count_def sb_count_loop_eq)

lemma shard_ids_empty [simp]: "sb_shard_ids (ShardBits 0) = []"
  by (simp add: sb_shard_ids_def sb_has_shard_id_def)

definition no_bits :: "ec_volume_info list \<Rightarrow> bool" where
  "no_bits infos \<longleftrightarrow> list_all (\<lambda>i. evi_shard_bits i = ShardBits 0) infos"

lemma no_bits_simps [simp]:
  "no_bits []" "no_bits (i # is) \<longleftrightarrow> evi_shard_bits i = ShardBits 0 \<and> no_bits is" "no_bits (is @ js) \<longleftrightarrow> no_bits is \<and> no_bits js"
  by (simp_all add: no_bits_def)

lemma count_diff_no_bits: "no_bits shards \<Longrightarrow> no_bits (snd (count_diff diff c shards))"
  by (auto simp: count_diff_def count_shards_eq Let_def)

lemma diff_loop_no_bits:
  "no_bits (snd new) \<Longrightarrow> no_bits (snd deleted) \<Longrightarrow>
    no_bits (snd (fst (diff_loop table actual new deleted))) \<and> no_bits (snd (snd (diff_loop table actual new deleted)))"
proof (induction table arbitrary: new deleted)
  case (Cons p table)
  obtain vid info c ns d ds where e: "p = (vid, info)" "new = (c, ns)" "deleted = (d, ds)"
    by (metis surj_pair)
  have nb: "no_bits ns" "no_bits ds"
    using Cons.prems e by simp_all
  show ?case
  proof (cases "actual vid")
    case None
    let ?d = "(d + fst (count_shards info), ds @ [emptied info])"
    have "diff_loop (p # table) actual new deleted = diff_loop table actual new ?d"
      using None by (simp add: e count_shards_eq)
    moreover have "no_bits (snd ?d)"
      using nb(2) by simp
    ultimately show ?thesis
      using Cons.IH [OF Cons.prems(1), of ?d] by (simp only:)
  next
    case (Some a)
    then have "diff_loop (p # table) actual new deleted =
        diff_loop table actual (count_diff (evi_minus a info) c ns) (count_diff (evi_minus info a) d ds)"
      by (simp add: e)
    then show ?thesis
      using Cons.IH [OF count_diff_no_bits [OF nb(1)] count_diff_no_bits [OF nb(2)]] by (simp only:)
  qed
qed simp

lemma known_loop_eq:
  "\<exists>c'. known_loop known infos (c, new) =
    (map (\<lambda>i. if evi_volume_id i \<in> known then emptied i else i) infos, c',
     new @ map emptied (filter (\<lambda>i. evi_volume_id i \<in> known) infos))"
proof (induction infos arbitrary: c new)
  case (Cons i infos)
  show ?case
    using Cons.IH [of "c + of_nat (card {j. bit (sb_value (evi_shard_bits i)) j})" "new @ [emptied i]"] Cons.IH [of c new]
    by (auto simp: count_shards_eq Let_def)
qed simp

subsection \<open>The tree is kept\<close>

definition ec_kept :: "net \<Rightarrow> net \<Rightarrow> bool" where
  "ec_kept net net' \<longleftrightarrow> net_next net' = net_next net \<and>
     (\<forall>m. nmax net' m = nmax net m \<and> addr net' m = addr net m \<and> vols net' m = vols net m) \<and>
     (\<forall>n. nd_id (net_nodes net' n) = nd_id (net_nodes net n) \<and> nd_parent (net_nodes net' n) = nd_parent (net_nodes net n) \<and>
        nd_children (net_nodes net' n) = nd_children (net_nodes net n) \<and> nd_type (net_nodes net' n) = nd_type (net_nodes net n))"

lemma ec_kept_refl [simp]: "ec_kept net net"
  by (simp add: ec_kept_def)

lemma ec_kept_trans: "ec_kept a b \<Longrightarrow> ec_kept b c \<Longrightarrow> ec_kept a c"
  by (simp add: ec_kept_def)

lemma live_kept: "ec_kept net net' \<Longrightarrow> live x net' \<longleftrightarrow> live x net"
  by (simp add: live_def ec_kept_def)

lemma set_ec_table_ok:
  assumes "tree_ok net" "live x net"
  obtains net' where "adjust_ec_shard_count d x (set_ec_table x es net) = Some net'" "tree_ok net'" "ec_kept net net'"
    "ec_table net' x = es"
proof -
  let ?net = "set_ec_table x es net"
  have n: "tree_but x ?net" "dn_ok ?net x"
    using live_node_ok [OF assms] tree_but_upd_dn [of x net] by (simp_all add: node_ok_def dn_ok_def)
  from tree_but_adjust_counter [OF n(1), of EcShardCount d] obtain net' where
      a: "adjust_counter EcShardCount d x ?net = Some net'" "tree_but x net'" "same_shape ?net net'" "nmax net' = nmax ?net"
        "\<forall>k. counter_of k (net_nodes net' x) = counter_of k (net_nodes ?net x) + (if k = EcShardCount then d else 0)"
    by blast
  have "dn_ok net' x"
    using n(2) a(3) fun_cong [OF a(4), of x] a(5) [rule_format, of VolumeCount] by (simp add: dn_ok_def same_shape_def)
  then have "tree_ok net'"
    by (rule tree_ok_of_but [OF a(2)])
  moreover have "ec_kept net net'"
    using a(3) fun_cong [OF a(4)] by (simp add: ec_kept_def same_shape_def)
  ultimately show thesis
    using a(1,3) by (intro that [of net']) (simp_all add: adjust_ec_shard_count_def same_shape_def)
qed

lemma topo_ok_kept:
  assumes "topo_ok t" "tree_ok net'" "ec_kept (tp_net t) net'"
  shows "topo_ok (t\<lparr>tp_net := net'\<rparr>)"
proof (rule topo_ok_net [OF assms(1,2)])
  show "rooted net'" "vols_ok net'" "addr_kept (tp_net t) net'"
    using assms(1,3) by (simp_all add: topo_ok_def rooted_def vols_ok_def addr_kept_def ec_kept_def)
qed

lemma ec_registrations [simp]:
  "tp_collections (register_ec_shards i x t) = tp_collections t" "tp_collections (unregister_ec_shards i x t) = tp_collections t"
  "tp_net (register_ec_shards i x t) = tp_net t" "topo_ok (register_ec_shards i x t) \<longleftrightarrow> topo_ok t"
  "tp_net (unregister_ec_shards i x t) = tp_net t" "topo_ok (unregister_ec_shards i x t) \<longleftrightarrow> topo_ok t"
  by (auto simp: register_ec_shards_def unregister_ec_shards_def topo_ok_def Let_def split: option.split)

lemma fold_ec_registrations [simp]:
  "tp_collections (fold (\<lambda>i. register_ec_shards i x) is t) = tp_collections t"
  "tp_collections (fold (\<lambda>i. unregister_ec_shards i x) is t) = tp_collections t"
  "tp_net (fold (\<lambda>i. register_ec_shards i x) is t) = tp_net t" "topo_ok (fold (\<lambda>i. register_ec_shards i x) is t) \<longleftrightarrow> topo_ok t"
  "tp_net (fold (\<lambda>i. unregister_ec_shards i x) is t) = tp_net t" "topo_ok (fold (\<lambda>i. unregister_ec_shards i x) is t) \<longleftrightarrow> topo_ok t"
  by (induction "is" arbitrary: t) simp_all


lemma update_ec_shards_ok:
  assumes "tree_ok net" "live x net"
  obtains new deleted net' where "update_ec_shards infos x net = Some (new, deleted, net')" "tree_ok net'" "ec_kept net net'"
    "no_bits new" "no_bits deleted"
proof -
  let ?actual = "map_of (rev (map (\<lambda>i. (evi_volume_id i, i)) infos))"
  obtain new d deleted where "diff_loop (ec_table net x) ?actual (0, []) (0, []) = (new, d, deleted)"
    by (rule prod_cases3)
  then obtain c ns where dl: "diff_loop (ec_table net x) ?actual (0, []) (0, []) = ((c, ns), d, deleted)"
    by (cases new) simp
  have nb: "no_bits ns" "no_bits deleted"
    using diff_loop_no_bits [of "(0, [])" "(0, [])" "ec_table net x" ?actual] dl by simp_all
  let ?known = "fst ` set (ec_table net x)"
  obtain c' where k: "known_loop ?known infos (c, ns) =
      (map (\<lambda>i. if evi_volume_id i \<in> ?known then emptied i else i) infos, c',
       ns @ map emptied (filter (\<lambda>i. evi_volume_id i \<in> ?known) infos))"
    using known_loop_eq by blast
  let ?new = "ns @ map emptied (filter (\<lambda>i. evi_volume_id i \<in> ?known) infos)"
  have new: "no_bits ?new"
    using nb(1) by (auto simp: no_bits_def list_all_iff)
  show thesis
  proof (cases "?new \<noteq> [] \<or> deleted \<noteq> []")
    case True
    let ?es = "fold (\<lambda>i. AList.update (evi_volume_id i) i) (map (\<lambda>i. if evi_volume_id i \<in> ?known then emptied i else i) infos) []"
    obtain net' where a: "adjust_ec_shard_count (sint c' - sint d) x (set_ec_table x ?es net) = Some net'" "tree_ok net'" "ec_kept net net'"
      by (rule set_ec_table_ok [OF assms])
    have "update_ec_shards infos x net = Some (?new, deleted, net')"
      using True by (simp only: update_ec_shards_def dl k Let_def prod.case a(1) option.case if_True)
    then show thesis
      by (rule that [OF _ a(2,3) new nb(2)])
  next
    case False
    then have "update_ec_shards infos x net = Some (?new, deleted, net)"
      by (simp only: update_ec_shards_def dl k Let_def prod.case if_False)
    then show thesis
      by (rule that [OF _ assms(1) _ new nb(2)]) simp
  qed
qed

text \<open>The data nodes on record for a shard.\<close>

definition ec_nodes :: "'f topology \<Rightarrow> volume_id \<Rightarrow> shard_id \<Rightarrow> nref list" where
  "ec_nodes t vid i = (case lookup_ec_shards t vid of Some l \<Rightarrow> esl_locations l ! unat i | None \<Rightarrow> [])"

lemma total_shards: "unat TOTAL_SHARDS_COUNT = 14"
  by (simp add: TOTAL_SHARDS_COUNT_def DATA_SHARDS_COUNT_def PARITY_SHARDS_COUNT_def)

lemma ec_nodes_no_bits:
  assumes "evi_shard_bits info = ShardBits 0" "i < 14"
  shows "ec_nodes (register_ec_shards info x t) vid i = ec_nodes t vid i" "ec_nodes (unregister_ec_shards info x t) vid i = ec_nodes t vid i"
proof -
  have "unat i < 14"
    using assms(2) by (simp add: word_less_nat_alt)
  then show "ec_nodes (register_ec_shards info x t) vid i = ec_nodes t vid i"
    using assms(1) by (auto simp: register_ec_shards_def ec_nodes_def lookup_ec_shards_def add_ec_shards_def update_conv'
      ec_shard_locations_new_def total_shards Let_def split: option.split)
  show "ec_nodes (unregister_ec_shards info x t) vid i = ec_nodes t vid i"
    using assms(1) by (auto simp: unregister_ec_shards_def ec_nodes_def lookup_ec_shards_def update_conv' split: option.split)
qed

lemma ec_nodes_fold_no_bits:
  "no_bits infos \<Longrightarrow> i < 14 \<Longrightarrow> ec_nodes (fold (\<lambda>i. register_ec_shards i x) infos t) vid i = ec_nodes t vid i"
  "no_bits infos \<Longrightarrow> i < 14 \<Longrightarrow> ec_nodes (fold (\<lambda>i. unregister_ec_shards i x) infos t) vid i = ec_nodes t vid i"
  by (induction infos arbitrary: t) (simp_all add: ec_nodes_no_bits)

lemma ec_nodes_net [simp]: "ec_nodes (t\<lparr>tp_net := net\<rparr>) vid i = ec_nodes t vid i"
  by (simp add: ec_nodes_def lookup_ec_shards_def)

lemma sync_ec_ok:
  assumes "topo_ok t" "live x (tp_net t)"
  obtains new deleted t' where "sync_data_node_ec_shards ms x t = Some (new, deleted, t')" "topo_ok t'"
    "ec_kept (tp_net t) (tp_net t')" "\<And>vid i. i < 14 \<Longrightarrow> ec_nodes t' vid i = ec_nodes t vid i"
    "tp_collections t' = tp_collections t"
proof -
  have "tree_ok (tp_net t)"
    using assms(1) by (simp add: topo_ok_def)
  then obtain new deleted net' where u: "update_ec_shards (map ec_info_of ms) x (tp_net t) = Some (new, deleted, net')" "tree_ok net'"
      "ec_kept (tp_net t) net'" "no_bits new" "no_bits deleted"
    by (rule update_ec_shards_ok [OF _ assms(2)])
  let ?t = "fold (\<lambda>i. unregister_ec_shards i x) deleted (fold (\<lambda>i. register_ec_shards i x) new (t\<lparr>tp_net := net'\<rparr>))"
  show thesis
  proof (rule that [of new deleted ?t])
    show "sync_data_node_ec_shards ms x t = Some (new, deleted, ?t)"
      using u(1) by (simp add: sync_data_node_ec_shards_def Let_def)
    show "topo_ok ?t" "ec_kept (tp_net t) (tp_net ?t)"
      using topo_ok_kept [OF assms(1) u(2,3)] u(3) by simp_all
    show "ec_nodes ?t vid i = ec_nodes t vid i" if "i < 14" for vid i
      using u(4,5) that by (simp add: ec_nodes_fold_no_bits)
    show "tp_collections ?t = tp_collections t"
      by simp
  qed
qed


text \<open>A node that announced shards is known by its table; a withdrawal of a known volume never returns.\<close>

lemma add_or_update_ec_ok:
  assumes "tree_ok net" "live x net"
  obtains i' net' where "add_or_update_ec_shards i x net = Some (i', net')" "tree_ok net'" "ec_kept net net'"
    "fst ` set (ec_table net' x) = insert (evi_volume_id i) (fst ` set (ec_table net x))"
    "i' = (if has_ec_shards net x (evi_volume_id i) then i else emptied i)"
proof (cases "map_of (ec_table net x) (evi_volume_id i)")
  case None
  let ?es = "AList.update (evi_volume_id i) (emptied i) (ec_table net x)"
  obtain net' where a: "adjust_ec_shard_count (sint (fst (count_shards i))) x (set_ec_table x ?es net) = Some net'" "tree_ok net'"
      "ec_kept net net'" "ec_table net' x = ?es"
    by (rule set_ec_table_ok [OF assms])
  have "add_or_update_ec_shards i x net = Some (emptied i, net')"
    using None a(1) by (simp add: add_or_update_ec_shards_def count_shards_eq)
  then show thesis
    using None a(4) by (intro that [OF _ a(2,3)]) (simp_all add: dom_update has_ec_shards_def map_of_eq_None_iff)
next
  case (Some info)
  let ?info = "info\<lparr>evi_shard_bits := sb_plus (ShardBits 0) (evi_shard_bits i)\<rparr>"
  let ?es = "AList.update (evi_volume_id i) (emptied info) (ec_table net x)"
  obtain net' where a: "adjust_ec_shard_count (sint (fst (count_shards ?info) - fst (count_shards info))) x (set_ec_table x ?es net) = Some net'"
      "tree_ok net'" "ec_kept net net'" "ec_table net' x = ?es"
    by (rule set_ec_table_ok [OF assms])
  have "evi_volume_id i \<in> fst ` set (ec_table net x)"
    using Some by (force dest: map_of_SomeD)
  moreover have "add_or_update_ec_shards i x net = Some (i, net')"
    using Some a(1) by (simp add: add_or_update_ec_shards_def count_shards_eq)
  ultimately show thesis
    using a(4) by (intro that [OF _ a(2,3)]) (simp_all add: dom_update has_ec_shards_def)
qed

lemma add_each_ec_ok:
  assumes "tree_ok net" "live x net"
  shows "\<exists>is' net'. add_each_ec_shards is x net = Some (is', net') \<and> tree_ok net' \<and> ec_kept net net' \<and>
    fst ` set (ec_table net' x) = evi_volume_id ` set is \<union> fst ` set (ec_table net x)"
  using assms
proof (induction "is" arbitrary: net)
  case (Cons i "is")
  obtain i' net1 where a: "add_or_update_ec_shards i x net = Some (i', net1)" "tree_ok net1" "ec_kept net net1"
      "fst ` set (ec_table net1 x) = insert (evi_volume_id i) (fst ` set (ec_table net x))"
    by (rule add_or_update_ec_ok [OF Cons.prems])
  obtain is' net' where r: "add_each_ec_shards is x net1 = Some (is', net')" "tree_ok net'" "ec_kept net1 net'"
      "fst ` set (ec_table net' x) = evi_volume_id ` set is \<union> fst ` set (ec_table net1 x)"
    using Cons.IH [OF a(2)] live_kept [OF a(3)] Cons.prems(2) by blast
  then show ?case
    using a(1) ec_kept_trans [OF a(3) r(3)] a(4) by simp
qed simp

lemma delete_ec_shard_info_hangs:
  "delete_ec_shard_info i x net = (if has_ec_shards net x (evi_volume_id i) then None else Some net)"
proof (cases "map_of (ec_table net x) (evi_volume_id i)")
  case (Some info)
  then have "has_ec_shards net x (evi_volume_id i)"
    by (force simp: has_ec_shards_def dest: map_of_SomeD)
  then show ?thesis
    using Some by (simp add: delete_ec_shard_info_def count_shards_eq bot_fun_def Let_def)
next
  case None
  then have "\<not> has_ec_shards net x (evi_volume_id i)"
    by (simp add: has_ec_shards_def map_of_eq_None_iff)
  then show ?thesis
    using None by (simp add: delete_ec_shard_info_def)
qed

lemma delete_each_ec_eq:
  "delete_each_ec_shards is x net = (if \<exists>i \<in> set is. has_ec_shards net x (evi_volume_id i) then None else Some net)"
  by (induction "is") (simp_all add: delete_ec_shard_info_hangs)

lemma incremental_ec_ok:
  assumes "topo_ok t" "live x (tp_net t)"
  shows "if \<exists>m \<in> set olds. has_ec_shards (tp_net t) x (em_id m) \<or> em_id m \<in> em_id ` set news
    then incremental_sync_data_node_ec_shards news olds x t = None
    else \<exists>t'. incremental_sync_data_node_ec_shards news olds x t = Some t' \<and> topo_ok t' \<and> ec_kept (tp_net t) (tp_net t') \<and>
      (\<forall>vid. has_ec_shards (tp_net t') x vid \<longleftrightarrow> has_ec_shards (tp_net t) x vid \<or> vid \<in> em_id ` set news)"
proof -
  have "tree_ok (tp_net t)"
    using assms(1) by (simp add: topo_ok_def)
  then obtain is' net' where a: "add_each_ec_shards (map ec_info_of news) x (tp_net t) = Some (is', net')" "tree_ok net'"
      "ec_kept (tp_net t) net'" "fst ` set (ec_table net' x) = em_id ` set news \<union> fst ` set (ec_table (tp_net t) x)"
    using add_each_ec_ok [OF _ assms(2), of "map ec_info_of news"] by (auto simp: ec_info_of_def image_image)
  have "topo_ok (t\<lparr>tp_net := net'\<rparr>)"
    by (rule topo_ok_kept [OF assms(1) a(2,3)])
  then show ?thesis
    using a(1,3,4) by (auto simp: incremental_sync_data_node_ec_shards_def delta_update_ec_shards_def delete_each_ec_eq has_ec_shards_def
      ec_info_of_def Let_def)
qed


subsection \<open>Registering and unregistering\<close>

definition ec_wf :: "'f topology \<Rightarrow> bool" where
  "ec_wf t \<longleftrightarrow> (\<forall>vid l. map_of (tp_ec_shards t) vid = Some l \<longrightarrow> length (esl_locations l) = 14)"

abbreviation at_id :: "net \<Rightarrow> nref \<Rightarrow> nref list \<Rightarrow> bool" where
  "at_id net x ns \<equiv> \<exists>n \<in> set ns. nd_id (net_nodes net n) = nd_id (net_nodes net x)"

lemma locations_add_length [simp]: "length (esl_locations (snd (locations_add_ec_shard net i x l))) = length (esl_locations l)"
  by (simp add: locations_add_ec_shard_def Let_def)

lemma locations_delete_length [simp]: "length (esl_locations (snd (locations_delete_ec_shard net i x l))) = length (esl_locations l)"
  by (simp add: locations_delete_ec_shard_def Let_def split: option.split)

lemma fold_locations:
  assumes "\<And>i l. length (esl_locations (f i l)) = length (esl_locations l)"
    and "\<And>i l j. i < 14 \<Longrightarrow> length (esl_locations l) = 14 \<Longrightarrow>
      esl_locations (f i l) ! j = (if j = unat i then g (esl_locations l ! j) else esl_locations l ! j)"
    and "length (esl_locations l) = 14" "\<forall>i \<in> set is. i < 14" "distinct is"
  shows "length (esl_locations (fold f is l)) = 14"
    "esl_locations (fold f is l) ! unat j = (if j \<in> set is then g (esl_locations l ! unat j) else esl_locations l ! unat j)"
  using assms(3-5)
proof (induction "is" arbitrary: l)
  case (Cons i "is")
  {
    case 1
    then show ?case
      using Cons.IH(1) [of "f i l"] assms(1) by simp
  next
    case 2
    then have "esl_locations (f i l) ! unat j = (if j = i then g (esl_locations l ! unat j) else esl_locations l ! unat j)"
      using assms(2) [of i l "unat j"] word_unat_eq_iff [of j i] by simp
    then show ?case
      using Cons.IH(2) [of "f i l"] 2 assms(1) by auto
  }
qed simp_all

lemma shard_ids_props: "\<forall>i \<in> set (sb_shard_ids b). i < 14" "distinct (sb_shard_ids b)"
  "i < 14 \<Longrightarrow> i \<in> set (sb_shard_ids b) \<longleftrightarrow> sb_has_shard_id b i"
proof -
  have "set (map of_nat [0..<14]) = {i :: shard_id. i < 14}"
  proof (intro equalityI subsetI)
    fix i :: shard_id
    assume "i \<in> {i. i < 14}"
    then have "i = of_nat (unat i)" "unat i \<in> {0..<14}"
      by (simp_all add: word_less_nat_alt)
    then show "i \<in> set (map of_nat [0..<14])"
      by (simp only: set_map set_upt) (rule image_eqI)
  qed (auto simp: word_less_nat_alt unat_of_nat)
  moreover have "distinct (map of_nat [0..<14] :: shard_id list)"
    by code_simp
  ultimately show "\<forall>i \<in> set (sb_shard_ids b). i < 14" "distinct (sb_shard_ids b)"
    "i < 14 \<Longrightarrow> i \<in> set (sb_shard_ids b) \<longleftrightarrow> sb_has_shard_id b i"
    unfolding sb_shard_ids_def total_shards by auto
qed

lemma locations_add_nth:
  "i < 14 \<Longrightarrow> length (esl_locations l) = 14 \<Longrightarrow> esl_locations (snd (locations_add_ec_shard net i x l)) ! j =
    (if j = unat i then (if at_id net x (esl_locations l ! j) then esl_locations l ! j else esl_locations l ! j @ [x]) else esl_locations l ! j)"
  by (auto simp: locations_add_ec_shard_def Let_def list_ex_iff word_less_nat_alt)

definition drop_id :: "net \<Rightarrow> nref \<Rightarrow> nref list \<Rightarrow> nref list" where
  "drop_id net x ns = (case first_same_id net x ns of None \<Rightarrow> ns | Some k \<Rightarrow> take k ns @ drop (Suc k) ns)"

lemma drop_id_append: "\<not> at_id net x ns \<Longrightarrow> drop_id net x (ns @ [x]) = ns"
proof -
  have "\<not> at_id net x ns \<Longrightarrow> first_same_id net x (ns @ [x]) = Some (length ns)"
    by (induction ns) auto
  then show "\<not> at_id net x ns \<Longrightarrow> drop_id net x (ns @ [x]) = ns"
    by (simp add: drop_id_def)
qed

lemma locations_delete_nth:
  "i < 14 \<Longrightarrow> length (esl_locations l) = 14 \<Longrightarrow> esl_locations (snd (locations_delete_ec_shard net i x l)) ! j =
    (if j = unat i then drop_id net x (esl_locations l ! j) else esl_locations l ! j)"
  by (auto simp: locations_delete_ec_shard_def drop_id_def Let_def word_less_nat_alt split: option.split)

lemma ec_nodes_register:
  assumes "ec_wf t" "i < 14"
  shows "ec_nodes (register_ec_shards info x t) vid i =
    (if vid = evi_volume_id info \<and> sb_has_shard_id (evi_shard_bits info) i \<and> \<not> at_id (tp_net t) x (ec_nodes t vid i)
     then ec_nodes t vid i @ [x] else ec_nodes t vid i)" "ec_wf (register_ec_shards info x t)"
proof -
  let ?l = "case map_of (tp_ec_shards t) (evi_volume_id info) of Some l \<Rightarrow> l | None \<Rightarrow> ec_shard_locations_new (evi_collection info)"
  have len: "length (esl_locations ?l) = 14"
    using assms(1) by (auto simp: ec_wf_def ec_shard_locations_new_def total_shards split: option.split)
  have nodes: "ec_nodes t (evi_volume_id info) i = esl_locations ?l ! unat i"
    using assms(2) by (simp add: ec_nodes_def lookup_ec_shards_def ec_shard_locations_new_def total_shards word_less_nat_alt split: option.split)
  note f = fold_locations [of "\<lambda>i l. snd (locations_add_ec_shard (tp_net t) i x l)", OF locations_add_length locations_add_nth len
    shard_ids_props(1,2) [of "evi_shard_bits info"]]
  show "ec_wf (register_ec_shards info x t)"
    using assms(1) f(1) by (simp add: ec_wf_def register_ec_shards_def add_ec_shards_def update_conv' Let_def)
  show "ec_nodes (register_ec_shards info x t) vid i =
    (if vid = evi_volume_id info \<and> sb_has_shard_id (evi_shard_bits info) i \<and> \<not> at_id (tp_net t) x (ec_nodes t vid i)
     then ec_nodes t vid i @ [x] else ec_nodes t vid i)"
  proof (cases "vid = evi_volume_id info")
    case True
    have "ec_nodes (register_ec_shards info x t) vid i = esl_locations (add_ec_shards (tp_net t) (evi_shard_bits info) x ?l) ! unat i"
      using True by (simp add: ec_nodes_def lookup_ec_shards_def register_ec_shards_def update_conv' Let_def)
    also have "\<dots> = (if i \<in> set (sb_shard_ids (evi_shard_bits info)) then (if at_id (tp_net t) x (esl_locations ?l ! unat i) then esl_locations ?l ! unat i
        else esl_locations ?l ! unat i @ [x]) else esl_locations ?l ! unat i)"
      unfolding add_ec_shards_def by (rule f(2))
    finally show ?thesis
      using True nodes shard_ids_props(3) [OF assms(2)] by simp
  next
    case False
    then show ?thesis
      by (simp add: ec_nodes_def lookup_ec_shards_def register_ec_shards_def update_conv' Let_def)
  qed
qed

lemma ec_nodes_unregister:
  assumes "ec_wf t" "i < 14"
  shows "ec_nodes (unregister_ec_shards info x t) vid i =
    (if vid = evi_volume_id info \<and> sb_has_shard_id (evi_shard_bits info) i then drop_id (tp_net t) x (ec_nodes t vid i) else ec_nodes t vid i)"
proof (cases "map_of (tp_ec_shards t) (evi_volume_id info)")
  case None
  then show ?thesis
    by (auto simp: unregister_ec_shards_def ec_nodes_def lookup_ec_shards_def drop_id_def)
next
  case (Some l)
  then have len: "length (esl_locations l) = 14"
    using assms(1) by (simp add: ec_wf_def)
  note f = fold_locations(2) [of "\<lambda>i l. snd (locations_delete_ec_shard (tp_net t) i x l)", OF locations_delete_length locations_delete_nth len
    shard_ids_props(1,2) [of "evi_shard_bits info"]]
  show ?thesis
    using Some f [of i] shard_ids_props(3) [OF assms(2)]
    by (simp add: unregister_ec_shards_def ec_nodes_def lookup_ec_shards_def update_conv')
qed


subsection \<open>Properties\<close>

definition demo_shards :: ec_shard_message where
  "demo_shards = \<lparr>em_id = 5, em_collection = [], em_ec_index_bits = 3\<rparr>"

lemma demo_topology_facts: "live 3 (tp_net demo_topology)" "tp_ec_shards demo_topology = []" "ec_table (tp_net demo_topology) 3 = []"
proof -
  show "live 3 (tp_net demo_topology)"
    using demo_net1_facts(7) demo_topology_ok(2) by simp
  show "tp_ec_shards demo_topology = []"
    by (simp add: demo_topology_def register_volume_layout_def get_volume_layout_def topology_new_def Let_def split: prod.splits)
  have "ec_table demo_net 3 = []"
    by (simp add: demo_eval)
  then show "ec_table (tp_net demo_topology) 3 = []"
    using demo_net1_facts(3) by (auto simp: demo_topology_ok(2) volumes_changed_def)
qed

text \<open>
  C26. Registering the shards of a data node appends the node to the locations of exactly the shards in the
  reported set whose locations do not have a node of that id yet, and leaves every other shard of every volume as
  it is; unregistering the same set afterwards restores all locations when the node was not there before.
\<close>

theorem register_ec_shards_round_trip:
  assumes "ec_wf t" "i < 14"
  shows "ec_nodes (register_ec_shards info x t) vid i =
      (if vid = evi_volume_id info \<and> sb_has_shard_id (evi_shard_bits info) i \<and>
          (\<forall>n \<in> set (ec_nodes t vid i). nd_id (net_nodes (tp_net t) n) \<noteq> nd_id (net_nodes (tp_net t) x))
       then ec_nodes t vid i @ [x] else ec_nodes t vid i) \<and>
    ((\<forall>n \<in> set (ec_nodes t (evi_volume_id info) i). nd_id (net_nodes (tp_net t) n) \<noteq> nd_id (net_nodes (tp_net t) x)) \<longrightarrow>
      ec_nodes (unregister_ec_shards info x (register_ec_shards info x t)) vid i = ec_nodes t vid i)"
proof -
  note r = ec_nodes_register [OF assms, of info x]
  have "ec_nodes (unregister_ec_shards info x (register_ec_shards info x t)) vid i = ec_nodes t vid i"
    if "\<not> at_id (tp_net t) x (ec_nodes t (evi_volume_id info) i)"
    using ec_nodes_unregister [OF r(2) assms(2), of info x vid] r(1) [of vid] drop_id_append [OF that] that
    by (cases "vid = evi_volume_id info") auto
  then show ?thesis
    using r(1) [of vid] by auto
qed

theorem register_ec_shards_round_trip_witness:
  "ec_nodes (register_ec_shards (ec_info_of demo_shards) 3 demo_topology) 5 1 = [3] \<and>
   ec_nodes (register_ec_shards (ec_info_of demo_shards) 3 demo_topology) 5 2 = []"
proof -
  have "ec_wf demo_topology" "ec_nodes demo_topology 5 1 = []" "ec_nodes demo_topology 5 2 = []"
    by (simp_all add: ec_wf_def ec_nodes_def lookup_ec_shards_def demo_topology_facts)
  moreover have "sb_has_shard_id (ShardBits 3) 1" "\<not> sb_has_shard_id (ShardBits 3) 2"
    by code_simp+
  ultimately show ?thesis
    using register_ec_shards_round_trip [of demo_topology 1 "ec_info_of demo_shards" 3 5]
      register_ec_shards_round_trip [of demo_topology 2 "ec_info_of demo_shards" 3 5]
    by (simp add: ec_info_of_def demo_shards_def)
qed

text \<open>
  C35. A full report of the erasure-coded shards of a data node changes the recorded location of no shard of any
  volume, whatever it contains, because the differences it registers have been emptied by counting them. A data
  node whose table is empty does not even get its table filled: no shard of a freshly connected node is recorded.
\<close>

theorem ec_report_learns_nothing:
  assumes "topo_ok t" "live x (tp_net t)"
  shows "\<exists>new deleted t'. sync_data_node_ec_shards ms x t = Some (new, deleted, t') \<and> topo_ok t' \<and>
    (\<forall>vid i. i < 14 \<longrightarrow> ec_nodes t' vid i = ec_nodes t vid i) \<and>
    (dn_ec_shards (net_dns (tp_net t) x) = [] \<longrightarrow> new = [] \<and> deleted = [] \<and> t' = t)"
proof -
  obtain new deleted t' where s: "sync_data_node_ec_shards ms x t = Some (new, deleted, t')" "topo_ok t'"
      "ec_kept (tp_net t) (tp_net t')" "\<And>vid i. i < 14 \<Longrightarrow> ec_nodes t' vid i = ec_nodes t vid i" "tp_collections t' = tp_collections t"
    using sync_ec_ok [OF assms, where ms = ms] by metis
  have "new = [] \<and> deleted = [] \<and> t' = t" if "ec_table (tp_net t) x = []"
  proof -
    obtain c where "known_loop {} (map ec_info_of ms) (0, []) = (map ec_info_of ms, c, [])"
      using known_loop_eq [of "{}" "map ec_info_of ms" 0 "[]"] by auto
    then have "sync_data_node_ec_shards ms x t = Some ([], [], t)"
      using that by (simp add: sync_data_node_ec_shards_def update_ec_shards_def Let_def)
    then show ?thesis
      using s(1) by simp
  qed
  then show ?thesis
    using s(1,2,4) by blast
qed

theorem ec_report_learns_nothing_witness:
  "\<exists>t'. sync_data_node_ec_shards [demo_shards] 3 demo_topology = Some ([], [], t') \<and> t' = demo_topology"
  using ec_report_learns_nothing [OF demo_topology_ok(1) demo_topology_facts(1), of "[demo_shards]"] demo_topology_facts(3) by auto

text \<open>
  C36. A data node that withdraws shards of a volume the master has in the node's table, or announces in the same
  heartbeat, blocks the handler of its heartbeats for good; otherwise the handler returns and the node's table
  knows the announced volumes.
\<close>

theorem ec_withdrawal_hangs:
  assumes "topo_ok t" "live x (tp_net t)"
  shows "if \<exists>m \<in> set olds. has_ec_shards (tp_net t) x (em_id m) \<or> em_id m \<in> em_id ` set news
    then incremental_sync_data_node_ec_shards news olds x t = None
    else \<exists>t'. incremental_sync_data_node_ec_shards news olds x t = Some t' \<and> topo_ok t' \<and>
      (\<forall>vid. has_ec_shards (tp_net t') x vid \<longleftrightarrow> has_ec_shards (tp_net t) x vid \<or> vid \<in> em_id ` set news)"
  using incremental_ec_ok [OF assms, of olds news] by (auto split: if_splits)

theorem ec_withdrawal_hangs_witness:
  "incremental_sync_data_node_ec_shards [demo_shards] [demo_shards] 3 demo_topology = None \<and>
   (\<exists>t'. incremental_sync_data_node_ec_shards [demo_shards] [] 3 demo_topology = Some t' \<and> has_ec_shards (tp_net t') 3 5)"
  using ec_withdrawal_hangs [OF demo_topology_ok(1) demo_topology_facts(1), of "[demo_shards]" "[demo_shards]"]
    ec_withdrawal_hangs [OF demo_topology_ok(1) demo_topology_facts(1), of "[]" "[demo_shards]"]
  by (auto simp: demo_shards_def)

end
