(* ===== verification/TopoVacuum.thy ===== *)
theory TopoVacuum
  imports Topo
begin

section \<open>Vacuuming the volumes of a topology\<close>

text \<open>
  The batch functions at the end of \<open>storage/volume/vacuum.rs\<close> and \<open>Topology::vacuum\<close>: for every volume the master
  asks its data nodes for their garbage, has them compact and commit, and takes the volume out of the writable ones
  meanwhile. The calls to the volume servers are arguments; garbage ratios are values of any ordered type.
\<close>

record 'q vacuum_calls =
  vc_check :: "nref \<Rightarrow> volume_id \<Rightarrow> ('q, volume_error) result"
  vc_compact :: "nref \<Rightarrow> volume_id \<Rightarrow> u64 \<Rightarrow> (unit, volume_error) result"
  vc_commit :: "nref \<Rightarrow> volume_id \<Rightarrow> (unit, volume_error) result"

text \<open>The answer of the last data node decides.\<close>

definition batch_vacuum_volume_check :: "('q :: ord) vacuum_calls \<Rightarrow> volume_id \<Rightarrow> nref list \<Rightarrow> 'q \<Rightarrow> bool" where
  "batch_vacuum_volume_check calls volume_id data_nodes garbage_ratio =
     fold (\<lambda>dn _. case vc_check calls dn volume_id of Ok ratio \<Rightarrow> ratio > garbage_ratio | _ \<Rightarrow> False) data_nodes True"

definition batch_vacuum_volume_compact ::
    "'q vacuum_calls \<Rightarrow> volume_id \<Rightarrow> nref list \<Rightarrow> u64 \<Rightarrow> volume_layout \<Rightarrow> bool \<times> volume_layout" where
  "batch_vacuum_volume_compact calls volume_id data_nodes preallocate vl =
     (fold (\<lambda>dn _. is_ok (vc_compact calls dn volume_id preallocate)) data_nodes True,
      snd (remove_from_writable volume_id vl))"

definition batch_vacuum_volume_commit ::
    "'q vacuum_calls \<Rightarrow> net \<Rightarrow> volume_id \<Rightarrow> nref list \<Rightarrow> volume_layout \<Rightarrow> bool \<times> volume_layout" where
  "batch_vacuum_volume_commit calls net volume_id data_nodes vl =
     (let commit_success = fold (\<lambda>dn ok. ok \<and> is_ok (vc_commit calls dn volume_id)) data_nodes True
      in (commit_success,
          if commit_success then fold (\<lambda>dn vl. snd (set_volume_available net volume_id dn vl)) data_nodes vl else vl))"

definition vacuum_volume ::
    "('q :: ord) vacuum_calls \<Rightarrow> net \<Rightarrow> 'q \<Rightarrow> u64 \<Rightarrow> volume_id \<times> nref list \<Rightarrow> volume_layout \<Rightarrow> volume_layout" where
  "vacuum_volume calls net garbage_threshold preallocate = (\<lambda>(vid, data_nodes) vl.
     if vid \<in> vl_readonly_volumes vl then vl
     else if batch_vacuum_volume_check calls vid data_nodes garbage_threshold then
       let (compacted, vl) = batch_vacuum_volume_compact calls vid data_nodes preallocate vl
       in if compacted then snd (batch_vacuum_volume_commit calls net vid data_nodes vl) else vl
     else vl)"

text \<open>The locations are those of the layout when its turn comes.\<close>

definition vacuum_layout :: "('q :: ord) vacuum_calls \<Rightarrow> net \<Rightarrow> 'q \<Rightarrow> u64 \<Rightarrow> volume_layout \<Rightarrow> volume_layout" where
  "vacuum_layout calls net garbage_threshold preallocate vl =
     fold (vacuum_volume calls net garbage_threshold preallocate) (vl_locations vl) vl"

definition topology_vacuum :: "('q :: ord) vacuum_calls \<Rightarrow> 'q \<Rightarrow> u64 \<Rightarrow> 'f topology \<Rightarrow> 'f topology" where
  "topology_vacuum calls garbage_threshold preallocate t =
     t\<lparr>tp_collections := map (\<lambda>(name, c).
         (name, c\<lparr>cl_volume_layouts := map (\<lambda>(key, vl). (key, vacuum_layout calls (tp_net t) garbage_threshold preallocate vl))
            (cl_volume_layouts c)\<rparr>)) (tp_collections t)\<rparr>"

subsection \<open>The topology stays well-formed\<close>

lemma entry_ok_available:
  assumes "entry_ok net key vl" "dn < net_next net"
  shows "entry_ok net key (snd (set_volume_available net vid dn vl))"
proof -
  have ok: "layout_ok net vl"
    using assms(1) by (simp add: entry_ok_def)
  have "l < net_next net"
    if "map_of (vl_locations (snd (set_volume_available net vid dn vl))) i = Some ls" "l \<in> set ls" for i ls l
  proof -
    have "\<forall>l \<in> set (set_node net dn ls'). l < net_next net" if "map_of (vl_locations vl) vid = Some ls'" for ls'
    proof -
      have "distinct (map (addr net) ls')"
        using ok that by (simp add: layout_ok_def)
      then show ?thesis
        using set_node_props(5) [of net ls' dn] assms that unfolding entry_ok_def by blast
    qed
    then show ?thesis
      using that assms(1)
      by (auto simp: entry_ok_def set_volume_available_def set_volume_writable_def Let_def update_conv' split: option.splits if_splits)
  qed
  moreover have "vl_rp (snd (set_volume_available net vid dn vl)) = vl_rp vl" "vl_ttl (snd (set_volume_available net vid dn vl)) = vl_ttl vl"
    by (simp_all add: set_volume_available_def set_volume_writable_def Let_def split: option.splits)
  moreover have "fst ` set (vl_locations (snd (set_volume_available net vid dn vl))) = fst ` set (vl_locations vl)"
  proof (cases "map_of (vl_locations vl) vid")
    case (Some ls)
    then have "vid \<in> fst ` set (vl_locations vl)"
      by (metis domI dom_map_of_conv_image_fst)
    then show ?thesis
      using Some dom_update [of vid _ "vl_locations vl"]
      by (simp add: set_volume_available_def set_volume_writable_def Let_def dom_map_of_conv_image_fst insert_absorb)
  qed (simp add: set_volume_available_def)
  then have "\<forall>i \<in> fst ` set (vl_locations (snd (set_volume_available net vid dn vl))). i \<le> nmax net 0"
    using entry_ok_max [OF assms(1)] by blast
  ultimately show ?thesis
    using assms(1) set_volume_available_ok [OF ok] by (simp add: entry_ok_def)
qed

lemma entry_ok_not_writable:
  assumes "entry_ok net key vl"
  shows "entry_ok net key (snd (remove_from_writable vid vl))"
  using assms by (auto simp: entry_ok_def layout_ok_def remove_from_writable_def)

lemma vacuum_volume_ok:
  assumes "entry_ok net key vl" "\<forall>dn \<in> set nodes. dn < net_next net"
  shows "entry_ok net key (vacuum_volume calls net threshold preallocate (vid, nodes) vl)"
proof -
  have "entry_ok net key (fold (\<lambda>dn vl. snd (set_volume_available net vid dn vl)) nodes vl')" if "entry_ok net key vl'" for vl'
    using assms(2) that by (induction nodes arbitrary: vl') (simp_all add: entry_ok_available)
  then show ?thesis
    using assms(1) entry_ok_not_writable [OF assms(1)]
    by (simp add: vacuum_volume_def batch_vacuum_volume_compact_def batch_vacuum_volume_commit_def Let_def)
qed

lemma vacuum_layout_ok:
  assumes "entry_ok net key vl"
  shows "entry_ok net key (vacuum_layout calls net threshold preallocate vl)"
proof -
  have "distinct (map fst (vl_locations vl))"
    using assms by (simp add: entry_ok_def layout_ok_def)
  then have "\<forall>(vid, nodes) \<in> set (vl_locations vl). \<forall>dn \<in> set nodes. dn < net_next net"
    using assms by (auto simp: entry_ok_def)
  then have "entry_ok net key (fold (vacuum_volume calls net threshold preallocate) ps vl')"
    if "set ps \<subseteq> set (vl_locations vl)" "entry_ok net key vl'" for ps vl'
    using that by (induction ps arbitrary: vl') (auto simp: vacuum_volume_ok)
  then show ?thesis
    using assms by (simp add: vacuum_layout_def)
qed

lemma topology_vacuum_ok:
  assumes "topo_ok t"
  shows "topo_ok (topology_vacuum calls threshold preallocate t)" "tp_net (topology_vacuum calls threshold preallocate t) = tp_net t"
proof -
  show n: "tp_net (topology_vacuum calls threshold preallocate t) = tp_net t"
    by (simp add: topology_vacuum_def)
  have "entry_ok (tp_net t) key vl"
    if c: "map_of (tp_collections (topology_vacuum calls threshold preallocate t)) name = Some c"
      and l: "map_of (cl_volume_layouts c) key = Some vl" for name c key vl
  proof -
    obtain c' where c': "map_of (tp_collections t) name = Some c'"
        "c = c'\<lparr>cl_volume_layouts := map (\<lambda>(key, vl). (key, vacuum_layout calls (tp_net t) threshold preallocate vl)) (cl_volume_layouts c')\<rparr>"
      using c by (auto simp: topology_vacuum_def map_of_map)
    then obtain vl' where vl': "map_of (cl_volume_layouts c') key = Some vl'" "vl = vacuum_layout calls (tp_net t) threshold preallocate vl'"
      using l by (auto simp: map_of_map)
    show ?thesis
      unfolding vl'(2) using assms c'(1) vl'(1) by (intro vacuum_layout_ok) (auto simp: topo_ok_def)
  qed
  then show "topo_ok (topology_vacuum calls threshold preallocate t)"
    using assms n by (simp add: topo_ok_def)
qed

lemma fold_conj: "fold (\<lambda>x ok. ok \<and> P x) xs b \<longleftrightarrow> b \<and> (\<forall>x \<in> set xs. P x)"
  by (induction xs arbitrary: b) auto

text \<open>
  A volume whose commit fails on any of its data nodes is left out of the writable volumes.
\<close>

lemma vacuum_failure_unwritable:
  assumes "layout_ok net vl" "vid \<notin> vl_readonly_volumes vl" "batch_vacuum_volume_check calls vid nodes threshold"
    and "\<exists>dn \<in> set nodes. \<not> is_ok (vc_commit calls dn vid)"
  shows "vid \<notin> set (vl_writable_volumes (vacuum_volume calls net threshold preallocate (vid, nodes) vl))"
proof -
  have "\<not> fold (\<lambda>dn ok. ok \<and> is_ok (vc_commit calls dn vid)) nodes True"
    using assms(4) by (simp add: fold_conj)
  moreover have "vid \<notin> set (vl_writable_volumes (snd (remove_from_writable vid vl)))"
    using assms(1) by (simp add: remove_from_writable_def layout_ok_def)
  ultimately show ?thesis
    using assms(2,3) by (simp add: vacuum_volume_def batch_vacuum_volume_compact_def batch_vacuum_volume_commit_def Let_def)
qed

end
