(* ===== verification/UrlParser.thy ===== *)
theory UrlParser
  imports Needle Ttl
begin

section \<open>Parsing of addresses and paths\<close>

text \<open>
  \<open>util/parser.rs\<close>: the path of a request, a volume and file id, a host and port, and the base name of a
  volume's files. The combinators of the \<open>nom\<close> library are a record of parameters at the types the source
  uses them at; \<open>nom_url_ok\<close> states their documented behaviour and \<open>nom_url_ref\<close> satisfies it.
\<close>

record nom_url =
  nu_digit1 :: "string nom_parser"
  nu_alphanumeric1 :: "string nom_parser"
  nu_char :: "char \<Rightarrow> char nom_parser"
  nu_alt :: "char nom_parser list \<Rightarrow> char nom_parser"
  nu_take_till :: "(char \<Rightarrow> bool) \<Rightarrow> string nom_parser"
  nu_tuple_id :: "string nom_parser \<Rightarrow> char nom_parser \<Rightarrow> string nom_parser \<Rightarrow> (string \<times> char \<times> string) nom_parser"
  nu_pair :: "char nom_parser \<Rightarrow> string nom_parser \<Rightarrow> (char \<times> string) nom_parser"
  nu_opt :: "(char \<times> string) nom_parser \<Rightarrow> (char \<times> string) option nom_parser"
  nu_tuple_path :: "char nom_parser \<Rightarrow> (string \<times> string) nom_parser \<Rightarrow> (char \<times> string) option nom_parser \<Rightarrow>
    (char \<times> (string \<times> string) \<times> (char \<times> string) option) nom_parser"

definition parse_vid_fid :: "nom_url \<Rightarrow> (string \<times> string) nom_parser" where
  "parse_vid_fid nom input =
     rbind (nu_tuple_id nom (nu_digit1 nom) (nu_alt nom [nu_char nom CHR ''/'', nu_char nom CHR '','']) (nu_alphanumeric1 nom) input)
       (\<lambda>(input, vid, _, fid). Ok (input, vid, fid))"

definition parse_filename :: "nom_url \<Rightarrow> string nom_parser" where
  "parse_filename nom = nu_take_till nom (\<lambda>c. c = CHR ''.'')"

definition parse_url_path :: "nom_url \<Rightarrow> string \<Rightarrow> (volume_id \<times> string \<times> string option \<times> string, volume_error) result" where
  "parse_url_path nom input =
     rbind (map_err VString
       (nu_tuple_path nom (nu_char nom CHR ''/'') (parse_vid_fid nom)
          (nu_opt nom (nu_pair nom (nu_char nom CHR ''/'') (parse_filename nom))) input))
       (\<lambda>(ext, _, (vid, fid), filename).
          rbind (map_err VParseInt (parse_u32 vid)) (\<lambda>vid. Ok (vid, fid, map_option snd filename, ext)))"

definition parse_host_port :: "string \<Rightarrow> (string \<times> u16, parse_int_error) result" where
  "parse_host_port addr =
     (case str_rfind CHR '':'' addr of
        Some idx \<Rightarrow>
          rbind (str_slice addr (idx + 1) (length addr)) (\<lambda>port.
          rbind (parse_u16 port) (\<lambda>port.
          rbind (str_slice addr 0 idx) (\<lambda>host. Ok (host, port))))
      | None \<Rightarrow> Ok (addr, 80))"

definition parse_collection_volume_id :: "string \<Rightarrow> (volume_id \<times> string, volume_error) result" where
  "parse_collection_volume_id name =
     (case str_find CHR ''_'' name of
        Some idx \<Rightarrow>
          rbind (str_slice name 0 idx) (\<lambda>collection.
          rbind (str_slice name (idx + 1) (length name)) (\<lambda>vid.
          rbind (map_err VParseInt (parse_u32 vid)) (\<lambda>vid. Ok (vid, collection))))
      | None \<Rightarrow> rbind (map_err VParseInt (parse_u32 name)) (\<lambda>vid. Ok (vid, [])))"

subsection \<open>The combinators\<close>

definition is_alphanumeric :: "char \<Rightarrow> bool" where
  "is_alphanumeric c \<longleftrightarrow>
     (let k = of_char c :: nat in 48 \<le> k \<and> k \<le> 57 \<or> 65 \<le> k \<and> k \<le> 90 \<or> 97 \<le> k \<and> k \<le> 122)"

text \<open>A parser of the longest non-empty prefix of characters in a class.\<close>

definition takes1 :: "(char \<Rightarrow> bool) \<Rightarrow> string nom_parser \<Rightarrow> bool" where
  "takes1 P p \<longleftrightarrow> (\<forall>s. let t = takeWhile P s in if t = [] then \<exists>e. p s = Err e else p s = Ok (dropWhile P s, t))"

definition nom_url_ok :: "nom_url \<Rightarrow> bool" where
  "nom_url_ok nom \<longleftrightarrow>
     takes1 is_dec_digit (nu_digit1 nom) \<and> takes1 is_alphanumeric (nu_alphanumeric1 nom) \<and>
     (\<forall>c r. nu_char nom c (c # r) = Ok (r, c)) \<and>
     (\<forall>c s. s = [] \<or> hd s \<noteq> c \<longrightarrow> (\<exists>e. nu_char nom c s = Err e)) \<and>
     (\<forall>p q s r. p s = Ok r \<longrightarrow> nu_alt nom [p, q] s = Ok r) \<and>
     (\<forall>p q s e r. p s = Err e \<longrightarrow> q s = Ok r \<longrightarrow> nu_alt nom [p, q] s = Ok r) \<and>
     (\<forall>p q s e e'. p s = Err e \<longrightarrow> q s = Err e' \<longrightarrow> (\<exists>e. nu_alt nom [p, q] s = Err e)) \<and>
     (\<forall>P s. nu_take_till nom P s = Ok (dropWhile (Not \<circ> P) s, takeWhile (Not \<circ> P) s)) \<and>
     (\<forall>p q r s. nu_tuple_id nom p q r s =
        rbind (p s) (\<lambda>(s, x). rbind (q s) (\<lambda>(s, y). rbind (r s) (\<lambda>(s, z). Ok (s, x, y, z))))) \<and>
     (\<forall>p q s. nu_pair nom p q s = rbind (p s) (\<lambda>(s, x). rbind (q s) (\<lambda>(s, y). Ok (s, x, y)))) \<and>
     (\<forall>p s r x. p s = Ok (r, x) \<longrightarrow> nu_opt nom p s = Ok (r, Some x)) \<and>
     (\<forall>p s e. p s = Err e \<longrightarrow> nu_opt nom p s = Ok (s, None)) \<and>
     (\<forall>p q r s. nu_tuple_path nom p q r s =
        rbind (p s) (\<lambda>(s, x). rbind (q s) (\<lambda>(s, y). rbind (r s) (\<lambda>(s, z). Ok (s, x, y, z)))))"

definition nom_takes1 :: "(char \<Rightarrow> bool) \<Rightarrow> string nom_parser" where
  "nom_takes1 P s = (let t = takeWhile P s in if t = [] then Err ''Empty'' else Ok (dropWhile P s, t))"

definition nom_url_ref :: nom_url where
  "nom_url_ref =
     \<lparr>nu_digit1 = nom_takes1 is_dec_digit, nu_alphanumeric1 = nom_takes1 is_alphanumeric,
      nu_char = (\<lambda>c s. case s of [] \<Rightarrow> Err ''Char'' | d # r \<Rightarrow> if d = c then Ok (r, c) else Err ''Char''),
      nu_alt = first_ok,
      nu_take_till = (\<lambda>P s. Ok (dropWhile (Not \<circ> P) s, takeWhile (Not \<circ> P) s)),
      nu_tuple_id = (\<lambda>p q r s. rbind (p s) (\<lambda>(s, x). rbind (q s) (\<lambda>(s, y). rbind (r s) (\<lambda>(s, z). Ok (s, x, y, z))))),
      nu_pair = (\<lambda>p q s. rbind (p s) (\<lambda>(s, x). rbind (q s) (\<lambda>(s, y). Ok (s, x, y)))),
      nu_opt = (\<lambda>p s. case p s of Ok (r, x) \<Rightarrow> Ok (r, Some x) | Err _ \<Rightarrow> Ok (s, None) | Panic \<Rightarrow> Panic),
      nu_tuple_path = (\<lambda>p q r s. rbind (p s) (\<lambda>(s, x). rbind (q s) (\<lambda>(s, y). rbind (r s) (\<lambda>(s, z). Ok (s, x, y, z)))))\<rparr>"

lemma nom_url_ref_ok: "nom_url_ok nom_url_ref"
proof -
  have "takes1 P (nom_takes1 P)" for P
    by (simp add: takes1_def nom_takes1_def Let_def)
  then show ?thesis
    unfolding nom_url_ok_def nom_url_ref_def by (simp split: list.splits)
qed


lemma nom_url_okD:
  assumes "nom_url_ok nom"
  shows "takes1 is_dec_digit (nu_digit1 nom)" and "takes1 is_alphanumeric (nu_alphanumeric1 nom)"
    and "nu_char nom c (c # r) = Ok (r, c)"
    and "s = [] \<or> hd s \<noteq> c \<Longrightarrow> \<exists>e. nu_char nom c s = Err e"
    and "p s = Ok y \<Longrightarrow> nu_alt nom [p, q] s = Ok y"
    and "\<exists>e. p s = Err e \<Longrightarrow> q s = Ok y \<Longrightarrow> nu_alt nom [p, q] s = Ok y"
    and "\<exists>e. p s = Err e \<Longrightarrow> \<exists>e. q s = Err e \<Longrightarrow> \<exists>e. nu_alt nom [p, q] s = Err e"
    and "nu_take_till nom P s = Ok (dropWhile (Not \<circ> P) s, takeWhile (Not \<circ> P) s)"
    and "nu_tuple_id nom a b d s = rbind (a s) (\<lambda>(s, x). rbind (b s) (\<lambda>(s, y). rbind (d s) (\<lambda>(s, z). Ok (s, x, y, z))))"
    and "nu_pair nom g h s = rbind (g s) (\<lambda>(s, x). rbind (h s) (\<lambda>(s, y). Ok (s, x, y)))"
    and "k s = Ok (r, x) \<Longrightarrow> nu_opt nom k s = Ok (r, Some x)"
    and "\<exists>e. k s = Err e \<Longrightarrow> nu_opt nom k s = Ok (s, None)"
    and "nu_tuple_path nom l u v s = rbind (l s) (\<lambda>(s, x). rbind (u s) (\<lambda>(s, y). rbind (v s) (\<lambda>(s, z). Ok (s, x, y, z))))"
  using assms unfolding nom_url_ok_def by (elim conjE; simp; fail | elim conjE; metis)+

lemma takes1_Ok:
  assumes "takes1 P p" "t \<noteq> []" "list_all P t" "r = [] \<or> \<not> P (hd r)"
  shows "p (t @ r) = Ok (r, t)"
proof -
  have "takeWhile P (t @ r) = t \<and> dropWhile P (t @ r) = r"
    using assms(3,4) by (cases r) (auto simp: list_all_iff takeWhile_append dropWhile_append)
  then show ?thesis
    using assms(1) [unfolded takes1_def, rule_format, of "t @ r"] assms(2) by (simp add: Let_def)
qed

lemma takes1_Err: "takes1 P p \<Longrightarrow> s = [] \<or> \<not> P (hd s) \<Longrightarrow> \<exists>e. p s = Err e"
  unfolding takes1_def by (drule spec [of _ s]) (cases s; simp)

lemma parse_vid_fid_ok:
  assumes nom: "nom_url_ok nom" and "ds \<noteq> []" "list_all is_dec_digit ds" "sep = CHR ''/'' \<or> sep = CHR '',''"
    and "fid \<noteq> []" "list_all is_alphanumeric fid" "r = [] \<or> \<not> is_alphanumeric (hd r)"
  shows "parse_vid_fid nom (ds @ sep # fid @ r) = Ok (r, ds, fid)"
proof -
  note D = nom_url_okD [OF nom]
  have "\<not> is_dec_digit sep"
    using assms(4) by (auto simp: is_dec_digit_def)
  then have "nu_digit1 nom (ds @ sep # fid @ r) = Ok (sep # fid @ r, ds)"
    by (intro takes1_Ok [OF D(1) assms(2,3)]) simp
  moreover have "nu_alt nom [nu_char nom CHR ''/'', nu_char nom CHR '',''] (sep # fid @ r) = Ok (fid @ r, sep)"
  proof (cases "sep = CHR ''/''")
    case True
    then show ?thesis
      by (intro D(5)) (simp add: D(3))
  next
    case False
    then show ?thesis
      using assms(4) by (intro D(6) D(4)) (auto simp: D(3))
  qed
  moreover have "nu_alphanumeric1 nom (fid @ r) = Ok (r, fid)"
    by (rule takes1_Ok [OF D(2) assms(5-7)])
  ultimately show ?thesis
    by (simp add: parse_vid_fid_def D(9))
qed

text \<open>A volume id alone is not accepted.\<close>

lemma parse_vid_fid_bare:
  assumes nom: "nom_url_ok nom" and "ds \<noteq> []" "list_all is_dec_digit ds"
  shows "\<exists>e. parse_vid_fid nom ds = Err e"
proof -
  note D = nom_url_okD [OF nom]
  have "nu_digit1 nom (ds @ []) = Ok ([], ds)"
    by (intro takes1_Ok [OF D(1) assms(2,3)]) simp
  moreover have "\<exists>e. nu_alt nom [nu_char nom CHR ''/'', nu_char nom CHR '',''] [] = Err e"
    by (intro D(7) D(4)) simp_all
  ultimately show ?thesis
    by (auto simp: parse_vid_fid_def D(9))
qed

lemma parse_u32_fmt: "parse_u32 (fmt_dec (unat (v :: u32))) = Ok v"
  using from_str_radix_fmt [of 10 "unat v" "2 ^ 32"] unat_less_power(3) [of v] by (simp add: parse_u32_def)

lemma fmt_dec_not_Nil [simp]: "fmt_dec n \<noteq> []"
  by (simp add: fmt_radix_def)

lemma parse_url_path_ok:
  assumes nom: "nom_url_ok nom" and "sep = CHR ''/'' \<or> sep = CHR '',''" "fid \<noteq> []" "list_all is_alphanumeric fid"
  shows "ext = [] \<or> \<not> is_alphanumeric (hd ext) \<and> hd ext \<noteq> CHR ''/'' \<Longrightarrow>
      parse_url_path nom (CHR ''/'' # fmt_dec (unat vid) @ sep # fid @ ext) = Ok (vid, fid, None, ext)"
    "CHR ''.'' \<notin> set name \<Longrightarrow> ext = [] \<or> hd ext = CHR ''.'' \<Longrightarrow>
      parse_url_path nom (CHR ''/'' # fmt_dec (unat vid) @ sep # fid @ CHR ''/'' # name @ ext) = Ok (vid, fid, Some name, ext)"
proof -
  note D = nom_url_okD [OF nom]
  note v = parse_vid_fid_ok [OF nom fmt_dec_not_Nil fmt_dec_digits assms(2-4)]
  let ?file = "nu_pair nom (nu_char nom CHR ''/'') (parse_filename nom)"
  show "parse_url_path nom (CHR ''/'' # fmt_dec (unat vid) @ sep # fid @ ext) = Ok (vid, fid, None, ext)"
    if e: "ext = [] \<or> \<not> is_alphanumeric (hd ext) \<and> hd ext \<noteq> CHR ''/''"
  proof -
    obtain er where "nu_char nom CHR ''/'' ext = Err er"
      using D(4) [of ext "CHR ''/''"] e by blast
    then have "nu_opt nom ?file ext = Ok (ext, None)"
      by (intro D(12)) (simp add: D(10))
    then show ?thesis
      using v [of ext] e by (auto simp: parse_url_path_def D(13,3) parse_u32_fmt)
  qed
  show "parse_url_path nom (CHR ''/'' # fmt_dec (unat vid) @ sep # fid @ CHR ''/'' # name @ ext) = Ok (vid, fid, Some name, ext)"
    if n: "CHR ''.'' \<notin> set name" "ext = [] \<or> hd ext = CHR ''.''"
  proof -
    have "takeWhile (Not \<circ> (\<lambda>c. c = CHR ''.'')) (name @ ext) = name \<and> dropWhile (Not \<circ> (\<lambda>c. c = CHR ''.'')) (name @ ext) = ext"
      using n by (cases ext) (auto simp: takeWhile_append dropWhile_append)
    then have "?file (CHR ''/'' # name @ ext) = Ok (ext, CHR ''/'', name)"
      by (simp add: D(10,3) parse_filename_def D(8))
    then have "nu_opt nom ?file (CHR ''/'' # name @ ext) = Ok (ext, Some (CHR ''/'', name))"
      by (rule D(11))
    then show ?thesis
      using v [of "CHR ''/'' # name @ ext"] by (simp add: parse_url_path_def D(13,3) parse_u32_fmt is_alphanumeric_def)
  qed
qed


lemma key_hash_alphanumeric: "key_hash_display key hash \<noteq> []" "list_all is_alphanumeric (key_hash_display key hash)"
proof -
  have "is_alphanumeric (digit_char d)" if "d < 16" for d
    using that by (simp add: is_alphanumeric_def of_char_digit_char Let_def)
  then have r: "is_alphanumeric c" if "c \<in> set (fmt_radix 16 n)" for c n
    using that radix_digits_bound [of 16 _ n] by (auto simp: fmt_radix_def)
  have "is_alphanumeric CHR ''0''"
    by (simp add: is_alphanumeric_def)
  then show "list_all is_alphanumeric (key_hash_display key hash)"
    using r by (auto simp: key_hash_display_def zero_pad_def list_all_iff)
  show "key_hash_display key hash \<noteq> []"
    using length_key_hash_display [of key hash] by auto
qed

lemma file_id_path:
  assumes "nom_url_ok nom" "ext = [] \<or> \<not> is_alphanumeric (hd ext) \<and> hd ext \<noteq> CHR ''/''"
  shows "parse_url_path nom (CHR ''/'' # file_id_display f @ ext) =
    Ok (fid_volume_id f, key_hash_display (fid_key f) (fid_hash f), None, ext)"
  using parse_url_path_ok(1) [OF assms(1) _ key_hash_alphanumeric assms(2), of "CHR '',''"] by (simp add: file_id_display_def)

subsection \<open>Other names\<close>

lemma str_rfind_append: "c \<notin> set ys \<Longrightarrow> str_rfind c (xs @ c # ys) = Some (length xs)"
  using str_find_append [of c "rev ys" "rev xs"] by (simp add: str_rfind_def)

lemma boundary_at: "i = length s \<or> i < length s \<and> (of_char (s ! i) :: nat) < 128 \<Longrightarrow> is_char_boundary s i"
  by (auto simp: is_char_boundary_def)

lemma parse_host_port_round_trip:
  assumes "is_char_boundary host 0"
  shows "parse_host_port (host @ '':'' @ fmt_dec (unat (port :: u16))) = Ok (host, port)"
proof -
  let ?p = "fmt_dec (unat port)" and ?s = "host @ '':'' @ fmt_dec (unat port)"
  obtain d ds where p: "?p = d # ds"
    by (cases ?p) auto
  have "is_dec_digit c" if "c \<in> set ?p" for c
    using that fmt_dec_digits [of "unat port"] by (simp add: list_all_iff)
  then have dig: "CHR '':'' \<notin> set ?p" "(of_char d :: nat) < 128"
    using p by (force simp: is_dec_digit_def)+
  have "is_char_boundary ?s (Suc (length host))" "is_char_boundary ?s (length host)" "is_char_boundary ?s (length ?s)"
    using dig(2) by (auto simp: p nth_append intro!: boundary_at)
  moreover have "is_char_boundary ?s 0"
    using assms by (cases host) (auto simp: is_char_boundary_def)
  moreover have "parse_u16 ?p = Ok port"
    using from_str_radix_fmt [of 10 "unat port" "2 ^ 16"] unat_less_power(2) [of port] by (simp add: parse_u16_def)
  ultimately show ?thesis
    using str_rfind_append [OF dig(1), of host] by (simp add: parse_host_port_def str_slice_def)
qed

lemma parse_collection_volume_id_round_trip:
  assumes "CHR ''_'' \<notin> set collection" "is_char_boundary collection 0"
  shows "parse_collection_volume_id (collection @ ''_'' @ fmt_dec (unat vid)) = Ok (vid, collection)"
    "parse_collection_volume_id (fmt_dec (unat vid)) = Ok (vid, [])"
proof -
  let ?v = "fmt_dec (unat vid)" and ?s = "collection @ ''_'' @ fmt_dec (unat vid)"
  obtain d ds where p: "?v = d # ds"
    by (cases ?v) auto
  have dig: "CHR ''_'' \<notin> set ?v" "(of_char d :: nat) < 128"
    using p fmt_radix_ascii(1,4) [of 10 _ "unat vid"] by (auto; fastforce)+
  have "is_char_boundary ?s (Suc (length collection))" "is_char_boundary ?s (length collection)" "is_char_boundary ?s (length ?s)"
    using dig(2) by (auto simp: p nth_append intro!: boundary_at)
  moreover have "is_char_boundary ?s 0"
    using assms(2) by (cases collection) (auto simp: is_char_boundary_def)
  ultimately show "parse_collection_volume_id ?s = Ok (vid, collection)"
    using str_find_append [OF assms(1), of ?v] by (simp add: parse_collection_volume_id_def str_slice_def parse_u32_fmt)
  show "parse_collection_volume_id ?v = Ok (vid, [])"
    using dig(1) by (simp add: parse_collection_volume_id_def str_find_None_iff [THEN iffD2] parse_u32_fmt)
qed

subsection \<open>Properties\<close>

text \<open>
  C19. The text of a file id, as a request path with or without an extension, is parsed into its volume and the key
  and cookie part, from which the needle gets the key and the cookie of the file id.
\<close>

theorem file_id_path_round_trip:
  assumes "nom_url_ok nom" "ext = [] \<or> hd ext = CHR ''.''"
  shows "\<exists>fid. parse_url_path nom (''/'' @ file_id_display f @ ext) = Ok (fid_volume_id f, fid, None, ext) \<and>
    new_with_fid fid = Ok (needle_default\<lparr>n_id := fid_key f, n_cookie := fid_hash f\<rparr>)"
proof -
  have "ext = [] \<or> \<not> is_alphanumeric (hd ext) \<and> hd ext \<noteq> CHR ''/''"
    using assms(2) by (auto simp: is_alphanumeric_def)
  then show ?thesis
    using file_id_path [OF assms(1), of ext f] new_with_fid_display by simp
qed

definition demo_fid :: file_id where
  "demo_fid = \<lparr>fid_volume_id = 3, fid_key = 1, fid_hash = 255\<rparr>"

lemma demo_fid_text: "file_id_display demo_fid = ''3,1000000ff''"
  by code_simp

theorem file_id_path_round_trip_witness:
  "\<exists>fid. parse_url_path nom_url_ref ''/3,1000000ff.jpg'' = Ok (3, fid, None, ''.jpg'') \<and>
     new_with_fid fid = Ok (needle_default\<lparr>n_id := 1, n_cookie := 255\<rparr>)"
  using file_id_path_round_trip [OF nom_url_ref_ok, of "''.jpg''" demo_fid] demo_fid_text by (simp add: demo_fid_def)

text \<open>
  The suffix that distinguishes the keys of one assignment of several ids is lost in a request path: the path
  of the file id with \<open>_n\<close> appended gives the same volume and the same needle as the path without it, although
  the needle of the text with the suffix has the key \<open>n\<close> further.
\<close>

theorem count_suffix_is_dropped:
  assumes "nom_url_ok nom"
  shows "\<exists>fid. parse_url_path nom (''/'' @ file_id_display f @ ''_'' @ fmt_dec (unat (n :: u64))) =
      Ok (fid_volume_id f, fid, None, ''_'' @ fmt_dec (unat n)) \<and>
    new_with_fid fid = Ok (needle_default\<lparr>n_id := fid_key f, n_cookie := fid_hash f\<rparr>) \<and>
    new_with_fid (fid @ ''_'' @ fmt_dec (unat n)) = Ok (needle_default\<lparr>n_id := fid_key f + n, n_cookie := fid_hash f\<rparr>)"
  using file_id_path [OF assms, of "''_'' @ fmt_dec (unat n)" f] new_with_fid_display by (simp add: is_alphanumeric_def)

theorem count_suffix_is_dropped_witness:
  "\<exists>fid. parse_url_path nom_url_ref ''/3,1000000ff_2'' = Ok (3, fid, None, ''_2'') \<and>
     new_with_fid fid = Ok (needle_default\<lparr>n_id := 1, n_cookie := 255\<rparr>)"
proof -
  have "fmt_dec (unat (2 :: u64)) = ''2''"
    by code_simp
  then show ?thesis
    using count_suffix_is_dropped [OF nom_url_ref_ok, of demo_fid 2] demo_fid_text by (auto simp: demo_fid_def)
qed

end
