(* ===== verification/Directory.thy ===== *)
theory Directory
  imports TopoEc TopoVacuum UrlParser
begin

section \<open>The master server\<close>

text \<open>
  \<open>directory/server.rs\<close>, \<open>directory/api.rs\<close>, \<open>operation/assign.rs\<close> and \<open>operation/lookup.rs\<close>: the handlers of the
  master over the topology. A handler runs to completion before the next one starts. Whether this master leads
  and who the leader is are what the raft library answers; they are arguments of the handlers that ask. The
  channels to the connected clients are lists of the messages sent on them, in order.
\<close>

subsection \<open>Assigning file ids\<close>

record assign_request =
  ar_count :: "u64 option"
  ar_replication :: "string option"
  ar_ttl :: "string option"
  ar_preallocate :: "int option"
  ar_collection :: "string option"
  ar_data_center :: "string option"
  ar_rack :: "string option"
  ar_data_node :: "string option"

record assignment =
  as_fid :: string
  as_url :: string
  as_public_url :: string
  as_count :: u64
  as_error :: string

definition volume_grow_option_of :: "nom_ttl \<Rightarrow> string \<Rightarrow> assign_request \<Rightarrow> (volume_grow_option, volume_error) result" where
  "volume_grow_option_of nom default_replication request =
     rbind (rp_new (case ar_replication request of
                      Some replication \<Rightarrow> if replication = [] then default_replication else replication
                    | None \<Rightarrow> default_replication)) (\<lambda>rp.
     rbind (case ar_ttl request of Some s \<Rightarrow> ttl_new nom s | None \<Rightarrow> Ok ttl_default) (\<lambda>ttl.
     Ok \<lparr>vgo_collection = (case ar_collection request of Some s \<Rightarrow> s | None \<Rightarrow> []),
         vgo_replica_placement = rp, vgo_ttl = ttl,
         vgo_preallocate = (case ar_preallocate request of Some n \<Rightarrow> n | None \<Rightarrow> 0),
         vgo_data_center = (case ar_data_center request of Some s \<Rightarrow> s | None \<Rightarrow> []),
         vgo_rack = (case ar_rack request of Some s \<Rightarrow> s | None \<Rightarrow> []),
         vgo_data_node = (case ar_data_node request of Some s \<Rightarrow> s | None \<Rightarrow> [])\<rparr>))"

definition assignment_of :: "net \<Rightarrow> file_id \<times> u64 \<times> nref \<Rightarrow> assignment" where
  "assignment_of net p =
     (case p of (fid, count, node) \<Rightarrow>
        \<lparr>as_fid = file_id_display fid, as_url = dn_url (net_dns net node),
         as_public_url = dn_public_url (net_dns net node), as_count = count, as_error = []\<rparr>)"

definition assign_handler ::
    "nom_ttl \<Rightarrow> ('f, string) flake_next \<Rightarrow> 'r rng \<Rightarrow> allocate \<Rightarrow> string \<Rightarrow> 'r \<Rightarrow> assign_request \<Rightarrow> 'f topology \<Rightarrow>
     ((assignment, volume_error) result \<times> 'r \<times> 'f topology) option" where
  "assign_handler nom flake_next gen allocate default_replication r request t =
     (let count = (case ar_count request of Some n \<Rightarrow> if n > 1 then n else 1 | None \<Rightarrow> 1) in
      case volume_grow_option_of nom default_replication request of
        Err e \<Rightarrow> Some (Err e, r, t)
      | Panic \<Rightarrow> Some (Panic, r, t)
      | Ok option \<Rightarrow>
          let (writable, t) = has_writable_volume option t;
              grown =
                (if writable then Some (Ok 0, r, t)
                 else if free_space (net_nodes (tp_net t) 0) \<le> 0 then Some (Err (VNoFreeSpace ''no free volumes''), r, t)
                 else grow_by_type gen allocate r option t)
          in (case grown of
                None \<Rightarrow> None
              | Some (Err e, r, t) \<Rightarrow> Some (Err e, r, t)
              | Some (Panic, r, t) \<Rightarrow> Some (Panic, r, t)
              | Some (Ok _, r, t) \<Rightarrow>
                  (case pick_for_write flake_next gen r count option t of
                     (Err e, r, t) \<Rightarrow> Some (Err e, r, t)
                   | (Panic, r, t) \<Rightarrow> Some (Panic, r, t)
                   | (Ok p, r, t) \<Rightarrow> Some (Ok (assignment_of (tp_net t) p), r, t))))"

subsection \<open>Looking up volumes\<close>

record location =
  loc_url :: string
  loc_public_url :: string

record lookup_request =
  lr_volume_id :: string
  lr_collection :: "string option"

record lookup =
  lk_volume_id :: string
  lk_locations :: "location list"
  lk_error :: string

definition location_of :: "net \<Rightarrow> nref \<Rightarrow> location" where
  "location_of net x = \<lparr>loc_url = dn_url (net_dns net x), loc_public_url = dn_public_url (net_dns net x)\<rparr>"

definition lookup_handler :: "lookup_request \<Rightarrow> 'f topology \<Rightarrow> (lookup, volume_error) result" where
  "lookup_handler request t =
     (if lr_volume_id request = [] then Err (VString ''volume_id can't be empty'')
      else
        rbind (case str_rfind CHR '','' (lr_volume_id request) of
                 Some idx \<Rightarrow> str_slice (lr_volume_id request) 0 idx
               | None \<Rightarrow> Ok (lr_volume_id request)) (\<lambda>volume_id.
        rbind (map_err VParseInt (parse_u32 volume_id)) (\<lambda>vid.
        case topology_lookup t (case lr_collection request of Some s \<Rightarrow> s | None \<Rightarrow> []) vid of
          Some nodes \<Rightarrow>
            Ok \<lparr>lk_volume_id = volume_id, lk_locations = map (location_of (tp_net t)) nodes, lk_error = []\<rparr>
        | None \<Rightarrow> Err (VString ''cannot find any locations''))))"

record volume_id_location =
  vil_volume_or_file_id :: string
  vil_locations :: "location list"
  vil_error :: string

text \<open>\<open>Display\<close> of \<open>ParseIntError\<close>.\<close>

fun parse_int_error_display :: "parse_int_error \<Rightarrow> string" where
  "parse_int_error_display Empty = ''cannot parse integer from empty string''"
| "parse_int_error_display InvalidDigit = ''invalid digit found in string''"
| "parse_int_error_display PosOverflow = ''number too large to fit in target type''"

text \<open>The gRPC lookup; the first id that does not parse fails the call.\<close>

fun lookup_each ::
    "nom_url \<Rightarrow> string \<Rightarrow> 'f topology \<Rightarrow> string list \<Rightarrow> (volume_id_location list, string) result" where
  "lookup_each nom collection t [] = Ok []"
| "lookup_each nom collection t (volume_id # ids) =
     rbind (map_err (\<lambda>e. ''parse volume id error: '' @ e) (parse_vid_fid nom volume_id)) (\<lambda>(_, vid, _).
     rbind (map_err (\<lambda>e. ''parse volume id error: '' @ parse_int_error_display e) (parse_u32 vid)) (\<lambda>vid.
     let l = (case topology_lookup t collection vid of
                Some nodes \<Rightarrow>
                  \<lparr>vil_volume_or_file_id = volume_id, vil_locations = map (location_of (tp_net t)) nodes, vil_error = []\<rparr>
              | None \<Rightarrow>
                  \<lparr>vil_volume_or_file_id = volume_id, vil_locations = [],
                   vil_error = ''volume '' @ fmt_dec (unat vid) @ '' is not found''\<rparr>)
     in rbind (lookup_each nom collection t ids) (\<lambda>ls. Ok (l # ls))))"

definition lookup_volume ::
    "nom_url \<Rightarrow> string list \<Rightarrow> string \<Rightarrow> 'f topology \<Rightarrow> (volume_id_location list, string) result" where
  "lookup_volume nom volume_or_file_ids collection t =
     (if volume_or_file_ids = [] then Err ''volumes can't be empty''
      else lookup_each nom collection t volume_or_file_ids)"

definition lookup_ec_volume ::
    "bool \<Rightarrow> volume_id \<Rightarrow> 'f topology \<Rightarrow> ((nat \<times> location list) list, string) result" where
  "lookup_ec_volume is_leader vid t =
     (if \<not> is_leader then Err ''this node is not raft leader''
      else case lookup_ec_shards t vid of
        None \<Rightarrow> Err (''ec volume '' @ fmt_dec (unat vid) @ '' not found'')
      | Some l \<Rightarrow> Ok (enumerate 0 (map (map (location_of (tp_net t))) (esl_locations l))))"

subsection \<open>Messages to clients\<close>

record volume_location =
  vloc_url :: string
  vloc_public_url :: string
  vloc_new_vids :: "volume_id list"
  vloc_deleted_vids :: "volume_id list"
  vloc_new_ec_vids :: "volume_id list"
  vloc_deleted_ec_vids :: "volume_id list"
  vloc_leader :: "string option"

definition volume_location_new :: volume_location where
  "volume_location_new =
     \<lparr>vloc_url = [], vloc_public_url = [], vloc_new_vids = [], vloc_deleted_vids = [], vloc_new_ec_vids = [],
      vloc_deleted_ec_vids = [], vloc_leader = None\<rparr>"

definition volume_location_of :: "net \<Rightarrow> nref \<Rightarrow> volume_location" where
  "volume_location_of net x =
     volume_location_new\<lparr>vloc_url := dn_url (net_dns net x), vloc_public_url := dn_public_url (net_dns net x)\<rparr>"

type_synonym clients = "(string \<times> volume_location list) list"

definition broadcast :: "volume_location \<Rightarrow> clients \<Rightarrow> clients" where
  "broadcast location clients = map (\<lambda>(name, sent). (name, sent @ [location])) clients"

definition to_volume_locations :: "net \<Rightarrow> volume_location list" where
  "to_volume_locations net =
     concat (map (\<lambda>dc. concat (map (\<lambda>rack. concat (map (\<lambda>dn.
       case downcast_node net dn of
         Ok dn \<Rightarrow> [(volume_location_of net dn)\<lparr>vloc_new_vids :=
                     map (vi_id \<circ> snd) (dn_volumes (net_dns net dn)) @ map (evi_volume_id \<circ> snd) (dn_ec_shards (net_dns net dn))\<rparr>]
       | _ \<Rightarrow> []) (kids net rack))) (kids net dc))) (kids net 0))"

text \<open>
  A client connects: it is sent where everything is. When this master does not lead, the message with the leader's
  address goes to the channel of a stream that is never returned.
\<close>

definition keep_connected ::
    "bool \<Rightarrow> string \<Rightarrow> 'f topology \<Rightarrow> clients \<Rightarrow> (unit, string) result \<times> clients" where
  "keep_connected is_leader client_name t clients =
     (if \<not> is_leader then (Err ''current node is not raft leader'', clients)
      else (Ok (), AList.update client_name (to_volume_locations (tp_net t)) clients))"

subsection \<open>Heartbeats\<close>

record heartbeat =
  hb_ip :: string
  hb_port :: u32
  hb_public_url :: string
  hb_max_volume_count :: u32
  hb_max_file_key :: u64
  hb_data_center :: string
  hb_rack :: string
  hb_admin_port :: u32
  hb_volumes :: "volume_information_message list"
  hb_new_volumes :: "volume_short_information_message list"
  hb_deleted_volumes :: "volume_short_information_message list"
  hb_has_no_volumes :: bool
  hb_ec_shards :: "ec_shard_message list"
  hb_new_ec_shards :: "ec_shard_message list"
  hb_deleted_ec_shards :: "ec_shard_message list"
  hb_has_no_ec_shards :: bool

definition layout_delta_volumes ::
    "heartbeat \<Rightarrow> nref \<Rightarrow> volume_location \<Rightarrow> 'f topology \<Rightarrow> (volume_location \<times> 'f topology) option" where
  "layout_delta_volumes hb x l t =
     (if hb_new_volumes hb \<noteq> [] \<or> hb_deleted_volumes hb \<noteq> [] then
        map_option (Pair (l\<lparr>vloc_new_vids := vloc_new_vids l @ map vsm_id (hb_new_volumes hb),
                            vloc_deleted_vids := vloc_deleted_vids l @ map vsm_id (hb_deleted_volumes hb)\<rparr>))
          (incremental_sync_data_node_registration (hb_new_volumes hb) (hb_deleted_volumes hb) x t)
      else Some (l, t))"

definition layout_full_volumes ::
    "heartbeat \<Rightarrow> nref \<Rightarrow> volume_location \<Rightarrow> 'f topology \<Rightarrow> ((volume_location, volume_error) result \<times> 'f topology) option" where
  "layout_full_volumes hb x l t =
     (if hb_volumes hb \<noteq> [] \<or> hb_has_no_volumes hb then
        (case (if hb_ip hb \<noteq> [] then register_data_node 0 (hb_data_center hb) (hb_rack hb) x (tp_net t)
               else Some (Ok (), tp_net t)) of
           None \<Rightarrow> None
         | Some (Err e, net) \<Rightarrow> Some (Err e, t\<lparr>tp_net := net\<rparr>)
         | Some (Panic, net) \<Rightarrow> Some (Panic, t\<lparr>tp_net := net\<rparr>)
         | Some (Ok _, net) \<Rightarrow>
             map_option (\<lambda>(new_volumes, deleted_volumes, t).
               (Ok (l\<lparr>vloc_new_vids := vloc_new_vids l @ map vi_id new_volumes,
                      vloc_deleted_vids := vloc_deleted_vids l @ map vi_id deleted_volumes\<rparr>), t))
               (sync_data_node_registration (hb_volumes hb) x (t\<lparr>tp_net := net\<rparr>)))
      else Some (Ok l, t))"

definition layout_delta_ec ::
    "heartbeat \<Rightarrow> nref \<Rightarrow> volume_location \<Rightarrow> 'f topology \<Rightarrow> (volume_location \<times> 'f topology) option" where
  "layout_delta_ec hb x l t =
     (if hb_new_ec_shards hb \<noteq> [] \<or> hb_deleted_ec_shards hb \<noteq> [] then
        map_option (\<lambda>t.
          (l\<lparr>vloc_new_ec_vids := vloc_new_ec_vids l @ map em_id (hb_new_ec_shards hb),
             vloc_deleted_ec_vids := vloc_deleted_ec_vids l @
               filter (\<lambda>vid. \<not> has_ec_shards (tp_net t) x vid) (map em_id (hb_deleted_ec_shards hb))\<rparr>, t))
          (incremental_sync_data_node_ec_shards (hb_new_ec_shards hb) (hb_deleted_ec_shards hb) x t)
      else Some (l, t))"

definition layout_full_ec ::
    "heartbeat \<Rightarrow> nref \<Rightarrow> volume_location \<Rightarrow> 'f topology \<Rightarrow> (volume_location \<times> 'f topology) option" where
  "layout_full_ec hb x l t =
     (if hb_ec_shards hb \<noteq> [] \<or> hb_has_no_ec_shards hb then
        map_option (\<lambda>(new_shards, deleted_shards, t).
          (l\<lparr>vloc_new_ec_vids := vloc_new_ec_vids l @ map evi_volume_id new_shards,
             vloc_deleted_ec_vids := vloc_deleted_ec_vids l @
               filter (\<lambda>vid. \<not> has_ec_shards (tp_net t) x vid) (map evi_volume_id deleted_shards)\<rparr>, t))
          (sync_data_node_ec_shards (hb_ec_shards hb) x t)
      else Some (l, t))"

definition says_something :: "volume_location \<Rightarrow> bool" where
  "says_something l \<longleftrightarrow> vloc_new_vids l \<noteq> [] \<or> vloc_deleted_vids l \<noteq> [] \<or> vloc_new_ec_vids l \<noteq> [] \<or> vloc_deleted_ec_vids l \<noteq> []"

definition update_volume_layout ::
    "heartbeat \<Rightarrow> nref \<Rightarrow> 'f topology \<Rightarrow> clients \<Rightarrow> ((unit, volume_error) result \<times> 'f topology \<times> clients) option" where
  "update_volume_layout hb x t clients = do {
     (l, t) \<leftarrow> layout_delta_volumes hb x (volume_location_of (tp_net t) x) t;
     (r, t) \<leftarrow> layout_full_volumes hb x l t;
     case r of
       Err e \<Rightarrow> Some (Err e, t, clients)
     | Panic \<Rightarrow> Some (Panic, t, clients)
     | Ok l \<Rightarrow> do {
         (l, t) \<leftarrow> layout_delta_ec hb x l t;
         (l, t) \<leftarrow> layout_full_ec hb x l t;
         Some (Ok (), t, if says_something l then broadcast l clients else clients)
       }
   }"

record heartbeat_response =
  hr_volume_size_limit :: u64
  hr_secret_key :: string
  hr_leader :: string

text \<open>\<open>TopologyError::NoLeader\<close> is the only error.\<close>

definition heartbeat_response_of :: "u64 \<Rightarrow> string option \<Rightarrow> heartbeat_response option" where
  "heartbeat_response_of volume_size_limit leader =
     map_option (\<lambda>l. \<lparr>hr_volume_size_limit = volume_size_limit, hr_secret_key = [], hr_leader = l\<rparr>) leader"

text \<open>
  One heartbeat of a connection that belongs to the data node \<open>data_node_opt\<close>, if it has one. The first component
  of the result is the response, \<open>Err\<close> when the connection is given up.
\<close>

definition on_heartbeat ::
    "u64 \<Rightarrow> bool \<Rightarrow> string option \<Rightarrow> string \<Rightarrow> heartbeat \<Rightarrow> nref option \<Rightarrow> 'f topology \<Rightarrow> clients \<Rightarrow>
     ((heartbeat_response, unit) result \<times> nref option \<times> 'f topology \<times> clients) option" where
  "on_heartbeat volume_size_limit is_leader leader remote hb data_node_opt t clients =
     (let response = (case heartbeat_response_of volume_size_limit leader of Some r \<Rightarrow> Ok r | None \<Rightarrow> Err ()) in
      if \<not> is_leader then Some (response, data_node_opt, t, clients)
      else
        let t = set_max_sequence (hb_max_file_key hb) t in
        case data_node_opt of
          Some x \<Rightarrow>
            (case update_volume_layout hb x t clients of
               None \<Rightarrow> None
             | Some (Panic, t, clients) \<Rightarrow> Some (Panic, data_node_opt, t, clients)
             | Some (_, t, clients) \<Rightarrow> Some (response, data_node_opt, t, clients))
        | None \<Rightarrow>
            let t = set_max_sequence (hb_max_file_key hb) t in
            (case update_topology 0 (hb_ip hb) remote (hb_data_center hb) (hb_rack hb) (hb_port hb) (hb_public_url hb)
                (hb_max_volume_count hb) (tp_net t) of
               None \<Rightarrow> None
             | Some (Ok x, net) \<Rightarrow> Some (response, Some x, t\<lparr>tp_net := net\<rparr>, clients)
             | Some (Err _, net) \<Rightarrow> Some (response, None, t\<lparr>tp_net := net\<rparr>, clients)
             | Some (Panic, net) \<Rightarrow> Some (Panic, None, t\<lparr>tp_net := net\<rparr>, clients)))"

definition remove_data_node :: "nref option \<Rightarrow> 'f topology \<Rightarrow> clients \<Rightarrow> ('f topology \<times> clients) option" where
  "remove_data_node data_node_opt t clients =
     (case data_node_opt of
        None \<Rightarrow> Some (t, clients)
      | Some x \<Rightarrow>
          (case unregister_data_node x t of
             None \<Rightarrow> None
           | Some t \<Rightarrow>
               let l = (volume_location_of (tp_net t) x)\<lparr>vloc_deleted_vids :=
                     map (vi_id \<circ> snd) (dn_volumes (net_dns (tp_net t) x))
                     @ map (evi_volume_id \<circ> snd) (dn_ec_shards (net_dns (tp_net t) x))\<rparr>
               in Some (t, if vloc_deleted_vids l \<noteq> [] then broadcast l clients else clients)))"


subsection \<open>Assignments\<close>

text \<open>A file id on a writable volume with enough copies, at the first of its data nodes.\<close>

definition assigned :: "volume_grow_option \<Rightarrow> u64 \<Rightarrow> 'f topology \<Rightarrow> assignment \<Rightarrow> bool" where
  "assigned option count t a \<longleftrightarrow>
     (\<exists>vid key hash nodes. a = assignment_of (tp_net t) (file_id_new vid key hash, count, hd nodes) \<and>
        vid \<in> set (vl_writable_volumes (option_layout t option)) \<and> layout_lookup (option_layout t option) vid = Some nodes \<and>
        copy_count (vgo_replica_placement option) \<le> length nodes \<and> distinct (map (addr (tp_net t)) nodes))"

lemma pick_total:
  assumes "topo_ok t" "rng_ok gen" "rp_digits (vgo_replica_placement option)"
  shows "\<exists>res r' t'. pick_for_write flake_next gen r count option t = (res, r', t') \<and> res \<noteq> Panic \<and> topo_ok t' \<and> tp_net t' = tp_net t \<and>
    (\<forall>p. res = Ok p \<longrightarrow> assigned option count t' (assignment_of (tp_net t') p)) \<and>
    (fst (has_writable_volume option t) \<longrightarrow> is_ok (sequencer_next_file_id flake_next (tp_sequencer t) count) \<longrightarrow> is_ok res)"
proof -
  obtain res r' t' where p: "pick_for_write flake_next gen r count option t = (res, r', t')"
    by (rule prod_cases3)
  have t': "topo_ok t'" "tp_net t' = tp_net t"
    using pick_for_write_ok [OF assms(1,3), of flake_next gen r count] p by simp_all
  show ?thesis
  proof (cases "sequencer_next_file_id flake_next (tp_sequencer t) count")
    case (Ok ks)
    obtain key s where k: "ks = (key, s)"
      by fastforce
    show ?thesis
    proof (cases "fst (has_writable_volume option t)")
      case True
      obtain vid node nodes hash where q: "res = Ok (file_id_new vid key hash, count, node)"
          "vid \<in> set (vl_writable_volumes (option_layout t option))" "layout_lookup (option_layout t option) vid = Some nodes"
          "node = hd nodes" "copy_count (vgo_replica_placement option) \<le> length nodes" "distinct (map (addr (tp_net t)) nodes)"
        using pick_for_write_picks [OF assms True, of flake_next count key s r] Ok k p by auto
      have "option_layout t' option = option_layout t option"
        by (rule the_layout_pick [OF p [unfolded q(1)]])
      then show ?thesis
        using p q t' unfolding assigned_def by (intro exI [of _ res] exI [of _ r'] exI [of _ t']) auto
    next
      case False
      then show ?thesis
        using pick_for_write_none [OF False, of flake_next count key s gen r] Ok k p t' by auto
    qed
  next
    case (Err e)
    then show ?thesis
      using p t' by (cases e) (auto simp: pick_for_write_def)
  qed (simp add: sequencer_no_panic)
qed


lemma has_writable_layout: "option_layout (snd (has_writable_volume option t)) option = option_layout t option"
  by (simp add: has_writable_volume_def the_layout_after)

lemma has_writable_again:
  "fst (has_writable_volume option (snd (has_writable_volume option t))) = fst (has_writable_volume option t)"
  "tp_sequencer (snd (has_writable_volume option t)) = tp_sequencer t"
proof -
  have "tp_net (snd (has_writable_volume option t)) = tp_net t" "tp_sequencer (snd (has_writable_volume option t)) = tp_sequencer t"
    by (simp_all add: has_writable_volume_def get_volume_layout_def Let_def split: prod.split)
  then show "fst (has_writable_volume option (snd (has_writable_volume option t))) = fst (has_writable_volume option t)"
    "tp_sequencer (snd (has_writable_volume option t)) = tp_sequencer t"
    using has_writable_layout [of option t] by (simp_all add: has_writable_volume_def get_volume_layout_fst)
qed

lemma assign_handler_ok:
  assumes "topo_ok t" "rng_ok gen" "volume_grow_option_of nom dr request = Ok option" "rp_digits (vgo_replica_placement option)"
    and "\<forall>dn vid. allocate dn vid option \<noteq> Panic"
  shows "\<exists>res r' t'. assign_handler nom flake_next gen allocate dr r request t = Some (res, r', t') \<and> res \<noteq> Panic \<and> topo_ok t' \<and>
    (\<forall>x. live x (tp_net t') \<longleftrightarrow> live x (tp_net t)) \<and>
    (\<forall>a. res = Ok a \<longrightarrow> assigned option (case ar_count request of Some n \<Rightarrow> if n > 1 then n else 1 | None \<Rightarrow> 1) t' a) \<and>
    (fst (has_writable_volume option t) \<longrightarrow> is_ok (sequencer_next_file_id flake_next (tp_sequencer t) (case ar_count request of Some n \<Rightarrow> if n > 1 then n else 1 | None \<Rightarrow> 1)) \<longrightarrow> is_ok res)"
proof -
  let ?count = "case ar_count request of Some n \<Rightarrow> if n > 1 then n else 1 | None \<Rightarrow> 1"
  obtain writable t1 where h: "has_writable_volume option t = (writable, t1)"
    by fastforce
  then have t1: "topo_ok t1" "tp_net t1 = tp_net t"
    using has_writable_volume_ok [OF assms(1,4)] by simp_all
  let ?grown = "if writable then Some (Ok 0, r, t1)
    else if free_space (net_nodes (tp_net t1) 0) \<le> 0 then Some (Err (VNoFreeSpace ''no free volumes''), r, t1)
    else grow_by_type gen allocate r option t1"
  have same: "fst (has_writable_volume option t1) = writable" "tp_sequencer t1 = tp_sequencer t"
    using has_writable_again [of option t] h by simp_all
  have "\<exists>g r2 t2. ?grown = Some (g, r2, t2) \<and> g \<noteq> Panic \<and> topo_ok t2 \<and> (\<forall>x. live x (tp_net t2) \<longleftrightarrow> live x (tp_net t)) \<and>
      (writable \<longrightarrow> g = Ok 0 \<and> t2 = t1)"
    using grow_by_type_ok [where allocate = allocate, OF t1(1) assms(2,4,5), where r = r] t1
    by (cases writable; cases "free_space (net_nodes (tp_net t1) 0) \<le> 0") simp_all
  then obtain g r2 t2 where g: "?grown = Some (g, r2, t2)" "g \<noteq> Panic" "topo_ok t2" "\<forall>x. live x (tp_net t2) \<longleftrightarrow> live x (tp_net t)"
      "writable \<longrightarrow> g = Ok 0 \<and> t2 = t1"
    by (elim exE conjE) (rule that)
  have step: "assign_handler nom flake_next gen allocate dr r request t =
      (case ?grown of
         None \<Rightarrow> None
       | Some (Err e, r, t) \<Rightarrow> Some (Err e, r, t)
       | Some (Panic, r, t) \<Rightarrow> Some (Panic, r, t)
       | Some (Ok _, r, t) \<Rightarrow>
           (case pick_for_write flake_next gen r ?count option t of
              (Err e, r, t) \<Rightarrow> Some (Err e, r, t)
            | (Panic, r, t) \<Rightarrow> Some (Panic, r, t)
            | (Ok p, r, t) \<Rightarrow> Some (Ok (assignment_of (tp_net t) p), r, t)))"
    unfolding assign_handler_def by (simp only: assms(3) h Let_def result.case prod.case)
  show ?thesis
  proof (cases g)
    case (Ok n)
    obtain res r3 t3 where p: "pick_for_write flake_next gen r2 ?count option t2 = (res, r3, t3)" "res \<noteq> Panic" "topo_ok t3"
        "tp_net t3 = tp_net t2" "\<forall>p. res = Ok p \<longrightarrow> assigned option ?count t3 (assignment_of (tp_net t3) p)"
        "fst (has_writable_volume option t2) \<longrightarrow> is_ok (sequencer_next_file_id flake_next (tp_sequencer t2) ?count) \<longrightarrow> is_ok res"
      using pick_total [OF g(3) assms(2,4), of flake_next r2 ?count] by blast
    show ?thesis
      unfolding step g(1) Ok using p g(4,5) h same by (cases res) auto
  next
    case (Err e)
    then show ?thesis
      unfolding step g(1) using g(3-5) h by auto
  qed (use g(2) in simp)
qed


subsection \<open>Heartbeats keep the topology\<close>

text \<open>The heartbeat withdraws shards of a volume in the node's table, or announces and withdraws a volume.\<close>

definition withdraws_known :: "heartbeat \<Rightarrow> nref \<Rightarrow> net \<Rightarrow> bool" where
  "withdraws_known hb x net \<longleftrightarrow>
     (\<exists>m \<in> set (hb_deleted_ec_shards hb). has_ec_shards net x (em_id m) \<or> em_id m \<in> em_id ` set (hb_new_ec_shards hb))"

definition same_live :: "'f topology \<Rightarrow> 'f topology \<Rightarrow> bool" where
  "same_live t t' \<longleftrightarrow> (\<forall>y. live y (tp_net t') \<longleftrightarrow> live y (tp_net t))"

lemma same_live_trans: "same_live a b \<Longrightarrow> same_live b c \<Longrightarrow> same_live a c"
  by (simp add: same_live_def)

lemma has_ec_volumes: "volumes_changed x net net' \<Longrightarrow> has_ec_shards net' y vid \<longleftrightarrow> has_ec_shards net y vid"
proof -
  assume "volumes_changed x net net'"
  then have "ec_table net' y = ec_table net y"
    by (auto simp: volumes_changed_def)
  then show ?thesis
    by (simp add: has_ec_shards_def)
qed

lemma layout_delta_volumes_ok:
  assumes "topo_ok t" "live x (tp_net t)"
  shows "\<exists>l' t'. layout_delta_volumes hb x l t = Some (l', t') \<and> topo_ok t' \<and> volumes_changed x (tp_net t) (tp_net t')"
proof -
  obtain t' where "incremental_sync_data_node_registration (hb_new_volumes hb) (hb_deleted_volumes hb) x t = Some t'" "topo_ok t'"
      "volumes_changed x (tp_net t) (tp_net t')"
    using incremental_sync_ok [OF assms] by blast
  then show ?thesis
    using assms(1) by (simp add: layout_delta_volumes_def)
qed

lemma register_linked: "live x net \<Longrightarrow> register_data_node topo dc rack x net = Some (Ok (), net)"
  using live_parent by (auto simp: register_data_node_def)

lemma layout_full_volumes_ok:
  assumes "topo_ok t" "live x (tp_net t)"
  shows "\<exists>l' t'. layout_full_volumes hb x l t = Some (Ok l', t') \<and> topo_ok t' \<and> volumes_changed x (tp_net t) (tp_net t')"
proof -
  obtain new dels t' where "sync_data_node_registration (hb_volumes hb) x t = Some (new, dels, t')" "topo_ok t'"
      "volumes_changed x (tp_net t) (tp_net t')"
    using sync_ok [OF assms, of "hb_volumes hb"] by (elim exE conjE) (rule that)
  then show ?thesis
    using assms(1) register_linked [OF assms(2)] by (simp add: layout_full_volumes_def)
qed

lemma layout_delta_ec_ok:
  assumes "topo_ok t" "live x (tp_net t)"
  shows "if withdraws_known hb x (tp_net t) then layout_delta_ec hb x l t = None
    else \<exists>l' t'. layout_delta_ec hb x l t = Some (l', t') \<and> topo_ok t' \<and> ec_kept (tp_net t) (tp_net t')"
proof (cases "withdraws_known hb x (tp_net t)")
  case True
  then have "hb_deleted_ec_shards hb \<noteq> []"
    by (auto simp: withdraws_known_def)
  then show ?thesis
    using True incremental_ec_ok [OF assms, of "hb_deleted_ec_shards hb" "hb_new_ec_shards hb"]
    by (simp add: layout_delta_ec_def withdraws_known_def)
next
  case False
  then obtain t' where "incremental_sync_data_node_ec_shards (hb_new_ec_shards hb) (hb_deleted_ec_shards hb) x t = Some t'" "topo_ok t'"
      "ec_kept (tp_net t) (tp_net t')"
    using incremental_ec_ok [OF assms, of "hb_deleted_ec_shards hb" "hb_new_ec_shards hb"]
    by (auto simp: withdraws_known_def)
  then show ?thesis
    using False assms(1) by (simp add: layout_delta_ec_def)
qed

lemma layout_full_ec_ok:
  assumes "topo_ok t" "live x (tp_net t)"
  shows "\<exists>l' t'. layout_full_ec hb x l t = Some (l', t') \<and> topo_ok t' \<and> ec_kept (tp_net t) (tp_net t')"
proof -
  obtain new deleted t' where "sync_data_node_ec_shards (hb_ec_shards hb) x t = Some (new, deleted, t')" "topo_ok t'"
      "ec_kept (tp_net t) (tp_net t')"
    by (rule sync_ec_ok [OF assms])
  then show ?thesis
    using assms(1) by (simp add: layout_full_ec_def)
qed

lemma update_volume_layout_ok:
  assumes "topo_ok t" "live x (tp_net t)"
  shows "if withdraws_known hb x (tp_net t) then update_volume_layout hb x t clients = None
    else \<exists>t' clients'. update_volume_layout hb x t clients = Some (Ok (), t', clients') \<and> topo_ok t' \<and> same_live t t' \<and>
      (clients' = clients \<or> (\<exists>l. clients' = broadcast l clients))"
proof -
  obtain l1 t1 where s1: "layout_delta_volumes hb x (volume_location_of (tp_net t) x) t = Some (l1, t1)" "topo_ok t1"
      "volumes_changed x (tp_net t) (tp_net t1)"
    using layout_delta_volumes_ok [OF assms] by blast
  have v1: "live x (tp_net t1)"
    using live_volumes [OF s1(3)] assms(2) by simp
  obtain l2 t2 where s2: "layout_full_volumes hb x l1 t1 = Some (Ok l2, t2)" "topo_ok t2" "volumes_changed x (tp_net t1) (tp_net t2)"
    using layout_full_volumes_ok [OF s1(2) v1] by blast
  have v2: "live x (tp_net t2)"
    using live_volumes [OF s2(3)] v1 by simp
  have w: "withdraws_known hb x (tp_net t2) \<longleftrightarrow> withdraws_known hb x (tp_net t)"
    using has_ec_volumes [OF s1(3)] has_ec_volumes [OF s2(3)] by (simp add: withdraws_known_def)
  show ?thesis
  proof (cases "withdraws_known hb x (tp_net t)")
    case True
    then show ?thesis
      using s1(1) s2(1) layout_delta_ec_ok [OF s2(2) v2, of hb l2] w by (simp add: update_volume_layout_def)
  next
    case False
    obtain l3 t3 where s3: "layout_delta_ec hb x l2 t2 = Some (l3, t3)" "topo_ok t3" "ec_kept (tp_net t2) (tp_net t3)"
      using layout_delta_ec_ok [OF s2(2) v2, of hb l2] w False by auto
    have v3: "live x (tp_net t3)"
      using live_kept [OF s3(3)] v2 by simp
    obtain l4 t4 where s4: "layout_full_ec hb x l3 t3 = Some (l4, t4)" "topo_ok t4" "ec_kept (tp_net t3) (tp_net t4)"
      using layout_full_ec_ok [OF s3(2) v3] by blast
    have "same_live t t4"
      using live_volumes [OF s1(3)] live_volumes [OF s2(3)] live_kept [OF s3(3)] live_kept [OF s4(3)] by (simp add: same_live_def)
    then show ?thesis
      using False s1(1) s2(1) s3(1) s4(1,2) by (auto simp: update_volume_layout_def)
  qed
qed

lemma set_max_sequence_simps [simp]: "tp_net (set_max_sequence k t) = tp_net t" "topo_ok (set_max_sequence k t) \<longleftrightarrow> topo_ok t"
  by (simp_all add: set_max_sequence_def topo_ok_def)

lemma on_heartbeat_ok:
  assumes "topo_ok t" "\<forall>x. dn = Some x \<longrightarrow> live x (tp_net t) \<and> \<not> (is_leader \<and> withdraws_known hb x (tp_net t))"
  shows "\<exists>res dn' t' clients'. on_heartbeat limit is_leader leader remote hb dn t clients = Some (res, dn', t', clients') \<and> res \<noteq> Panic \<and>
    topo_ok t' \<and> (\<forall>y. live y (tp_net t) \<longrightarrow> live y (tp_net t')) \<and> (\<forall>x. dn' = Some x \<longrightarrow> live x (tp_net t')) \<and>
    (dn \<noteq> None \<longrightarrow> dn' = dn) \<and> (is_leader \<longrightarrow> dn' \<noteq> None)"
proof (cases is_leader)
  case False
  then show ?thesis
    using assms by (auto simp: on_heartbeat_def heartbeat_response_of_def split: option.split)
next
  case True
  let ?t = "set_max_sequence (hb_max_file_key hb) t"
  show ?thesis
  proof (cases dn)
    case (Some x)
    then obtain t' clients' where "update_volume_layout hb x ?t clients = Some (Ok (), t', clients')" "topo_ok t'" "same_live ?t t'"
      using update_volume_layout_ok [of ?t x hb clients] assms True by auto
    then show ?thesis
      using True Some assms by (auto simp: on_heartbeat_def heartbeat_response_of_def same_live_def Let_def split: option.split)
  next
    case None
    let ?t2 = "set_max_sequence (hb_max_file_key hb) ?t"
    have ok: "tree_ok (tp_net t)" "0 < net_next (tp_net t)" "nd_type (net_nodes (tp_net t) 0) = TopologyNode"
      using assms(1) by (simp_all add: topo_ok_def rooted_def)
    obtain r net' where u: "update_topology 0 (hb_ip hb) remote (hb_data_center hb) (hb_rack hb) (hb_port hb) (hb_public_url hb)
        (hb_max_volume_count hb) (tp_net ?t2) = Some (r, net')"
      using update_topology_ok [OF ok, of "hb_ip hb" remote "hb_data_center hb" "hb_rack hb" "hb_port hb" "hb_public_url hb"
        "hb_max_volume_count hb"] by auto
    have t2: "topo_ok ?t2"
      using assms(1) by simp
    obtain x where x: "r = Ok x" "live x net'"
      using connect_ok(2) [OF t2 u] by blast
    then have "on_heartbeat limit is_leader leader remote hb dn t clients =
        Some (case heartbeat_response_of limit leader of Some r \<Rightarrow> Ok r | None \<Rightarrow> Err (), Some x, ?t2\<lparr>tp_net := net'\<rparr>, clients)"
      using True None u by (simp add: on_heartbeat_def Let_def)
    then show ?thesis
      using connect_ok(1,3) [OF t2 u] x None by (auto split: option.split)
  qed
qed


subsection \<open>The master as a transition system\<close>

text \<open>
  A heartbeat connection owns at most one data node, the \<open>data_node_opt\<close> of its task. The task ends when its
  stream does or a response cannot be made, and removes the node then; this is a step of its own.
\<close>

record 'f master =
  ma_topology :: "'f topology"
  ma_conns :: "nat \<Rightarrow> nref option"
  ma_clients :: clients

definition master_new :: "'f sequencer \<Rightarrow> u64 \<Rightarrow> 'f master" where
  "master_new sequencer limit = \<lparr>ma_topology = topology_new sequencer limit, ma_conns = (\<lambda>_. None), ma_clients = []\<rparr>"

definition close_connection :: "nat \<Rightarrow> 'f master \<Rightarrow> 'f master option" where
  "close_connection c m =
     map_option (\<lambda>(t, clients). m\<lparr>ma_topology := t, ma_conns := (ma_conns m)(c := None), ma_clients := clients\<rparr>)
       (remove_data_node (ma_conns m c) (ma_topology m) (ma_clients m))"

definition serve_heartbeat ::
    "u64 \<Rightarrow> bool \<Rightarrow> string option \<Rightarrow> string \<Rightarrow> nat \<Rightarrow> heartbeat \<Rightarrow> 'f master \<Rightarrow> ((heartbeat_response, unit) result \<times> 'f master) option" where
  "serve_heartbeat limit is_leader leader remote c hb m =
     map_option (\<lambda>(res, dn, t, clients).
         (res, m\<lparr>ma_topology := t, ma_conns := (ma_conns m)(c := dn), ma_clients := clients\<rparr>))
       (on_heartbeat limit is_leader leader remote hb (ma_conns m c) (ma_topology m) (ma_clients m))"

text \<open>
  The steps of the leader and of its followers. Two connections never own the same data node: a volume server that
  connects again does so after its former connection has been closed.
\<close>

definition owned_once :: "(nat \<Rightarrow> nref option) \<Rightarrow> bool" where
  "owned_once conns \<longleftrightarrow> (\<forall>c d x. conns c = Some x \<longrightarrow> conns d = Some x \<longrightarrow> c = d)"

inductive master_step :: "nom_ttl \<Rightarrow> ('f, string) flake_next \<Rightarrow> 'r rng \<Rightarrow> allocate \<Rightarrow> string \<Rightarrow> ('q :: ord) \<Rightarrow> 'f master \<Rightarrow> 'f master \<Rightarrow> bool"
  for nom flake_next gen allocate dr threshold where
  heartbeat: "serve_heartbeat limit is_leader leader remote c hb m = Some (res, m') \<Longrightarrow> owned_once (ma_conns m') \<Longrightarrow>
    master_step nom flake_next gen allocate dr threshold m m'"
| disconnect: "close_connection c m = Some m' \<Longrightarrow> master_step nom flake_next gen allocate dr threshold m m'"
| assign: "(\<And>option. volume_grow_option_of nom dr request = Ok option \<Longrightarrow> rp_digits (vgo_replica_placement option)) \<Longrightarrow>
    assign_handler nom flake_next gen allocate dr r request (ma_topology m) = Some (res, r', t') \<Longrightarrow>
    master_step nom flake_next gen allocate dr threshold m (m\<lparr>ma_topology := t'\<rparr>)"
| connect_client: "keep_connected is_leader name (ma_topology m) (ma_clients m) = (res, clients) \<Longrightarrow>
    master_step nom flake_next gen allocate dr threshold m (m\<lparr>ma_clients := clients\<rparr>)"
| vacuum: "master_step nom flake_next gen allocate dr threshold m
    (m\<lparr>ma_topology := topology_vacuum calls threshold preallocate (ma_topology m)\<rparr>)"
| drop_client: "master_step nom flake_next gen allocate dr threshold m (m\<lparr>ma_clients := AList.delete name (ma_clients m)\<rparr>)"

inductive_cases master_stepE: "master_step nom flake_next gen allocate dr threshold m m'"

definition master_ok :: "'f master \<Rightarrow> bool" where
  "master_ok m \<longleftrightarrow> topo_ok (ma_topology m) \<and> owned_once (ma_conns m) \<and>
     (\<forall>c x. ma_conns m c = Some x \<longrightarrow> live x (tp_net (ma_topology m)))"

lemma close_connection_ok:
  assumes "master_ok m"
  shows "\<exists>m'. close_connection c m = Some m' \<and> master_ok m'"
proof (cases "ma_conns m c")
  case None
  then show ?thesis
    using assms by (auto simp: close_connection_def remove_data_node_def master_ok_def owned_once_def)
next
  case (Some x)
  have ok: "topo_ok (ma_topology m)" "owned_once (ma_conns m)" "\<And>c x. ma_conns m c = Some x \<Longrightarrow> live x (tp_net (ma_topology m))"
    using assms by (auto simp: master_ok_def)
  obtain t' where t': "unregister_data_node x (ma_topology m) = Some t'" "topo_ok t'"
    using unregister_data_node_ok [OF ok(1) ok(3) [OF Some]] by blast
  have "live y (tp_net t')" if "ma_conns m d = Some y" "d \<noteq> c" for d y
  proof -
    have "y \<noteq> x"
      using ok(2) Some that unfolding owned_once_def by blast
    then show ?thesis
      using live_others [OF ok(1) t'(1) ok(3) [OF Some] ok(3) [OF that(1)]] by simp
  qed
  then show ?thesis
    using t' Some ok(2) by (auto simp: close_connection_def remove_data_node_def master_ok_def owned_once_def Let_def)
qed

lemma on_heartbeat_returns:
  assumes "topo_ok t" "live x (tp_net t)" "on_heartbeat limit is_leader leader remote hb (Some x) t clients \<noteq> None"
  shows "\<not> (is_leader \<and> withdraws_known hb x (tp_net t))"
proof
  assume w: "is_leader \<and> withdraws_known hb x (tp_net t)"
  then have "update_volume_layout hb x (set_max_sequence (hb_max_file_key hb) t) clients = None"
    using update_volume_layout_ok [of "set_max_sequence (hb_max_file_key hb) t" x hb clients] assms(1,2) by simp
  then show False
    using w assms(3) by (simp add: on_heartbeat_def Let_def)
qed

lemma serve_heartbeat_ok:
  assumes "master_ok m" "serve_heartbeat limit is_leader leader remote c hb m = Some (res, m')" "owned_once (ma_conns m')"
  shows "master_ok m' \<and> res \<noteq> Panic"
proof -
  let ?on = "on_heartbeat limit is_leader leader remote hb (ma_conns m c) (ma_topology m) (ma_clients m)"
  have ok: "topo_ok (ma_topology m)" "\<And>c x. ma_conns m c = Some x \<Longrightarrow> live x (tp_net (ma_topology m))"
    using assms(1) by (auto simp: master_ok_def)
  have "?on \<noteq> None"
    using assms(2) unfolding serve_heartbeat_def by (cases ?on) simp_all
  then have pre: "\<forall>x. ma_conns m c = Some x \<longrightarrow> live x (tp_net (ma_topology m)) \<and> \<not> (is_leader \<and> withdraws_known hb x (tp_net (ma_topology m)))"
    using ok(2) [of c] on_heartbeat_returns [OF ok(1), of _ limit is_leader leader remote hb "ma_clients m"] by (metis (no_types))
  obtain res' dn t' clients' where on: "?on = Some (res', dn, t', clients')" "res' \<noteq> Panic" "topo_ok t'"
      "\<forall>y. live y (tp_net (ma_topology m)) \<longrightarrow> live y (tp_net t')" "\<forall>x. dn = Some x \<longrightarrow> live x (tp_net t')"
    using on_heartbeat_ok [OF ok(1) pre, of limit leader remote "ma_clients m"] by (elim exE conjE) (rule that)
  then have "m' = m\<lparr>ma_topology := t', ma_conns := (ma_conns m)(c := dn), ma_clients := clients'\<rparr>" "res = res'"
    using assms(2) by (simp_all add: serve_heartbeat_def)
  then show ?thesis
    using assms(3) on(2-5) ok(2) by (auto simp: master_ok_def)
qed

lemma assign_handler_rejects:
  assumes "\<nexists>option. volume_grow_option_of nom dr request = Ok option"
    "assign_handler nom flake_next gen allocate dr r request t = Some (res, r', t')"
  shows "t' = t"
  using assms by (cases "volume_grow_option_of nom dr request") (simp_all add: assign_handler_def Let_def)

lemma master_step_ok:
  assumes "master_step nom flake_next gen allocate dr threshold m m'" "master_ok m" "rng_ok gen" "\<forall>dn vid option. allocate dn vid option \<noteq> Panic"
  shows "master_ok m'"
  using assms(1)
proof cases
  case (heartbeat limit is_leader leader remote c hb res)
  then show ?thesis
    using serve_heartbeat_ok [OF assms(2)] by blast
next
  case (disconnect c)
  then show ?thesis
    using close_connection_ok [OF assms(2), of c] by auto
next
  case (assign request r res r' t')
  have ok: "topo_ok (ma_topology m)"
    using assms(2) by (simp add: master_ok_def)
  show ?thesis
  proof (cases "\<exists>option. volume_grow_option_of nom dr request = Ok option")
    case True
    then obtain option where o: "volume_grow_option_of nom dr request = Ok option"
      by blast
    show ?thesis
      using assign_handler_ok [where allocate = allocate and r = r and flake_next = flake_next, OF ok assms(3) o assign(2) [OF o]] assms(2,4) assign(1,3)
      by (auto simp: master_ok_def)
  next
    case False
    then show ?thesis
      using assign_handler_rejects [OF False assign(3)] assms(2) assign(1) by simp
  qed
qed (use assms(2) in \<open>simp_all add: master_ok_def topology_vacuum_ok\<close>)


interpretation master_run: kept_by_steps "master_new sequencer limit" "master_step nom flake_next gen allocate dr threshold"
  "\<lambda>m. rng_ok gen \<and> (\<forall>dn vid option. allocate dn vid option \<noteq> Panic) \<longrightarrow> master_ok m"
  for sequencer :: "'f sequencer" and limit nom flake_next and gen :: "'r rng" and allocate dr and threshold :: "'q :: ord"
proof
  have "topo_ok (topology_new sequencer limit)"
    by (simp add: topo_ok_def topology_new_def tree_ok_topology_net) (simp add: rooted_def vols_ok_def topology_net_def)
  then show "rng_ok gen \<and> (\<forall>dn vid option. allocate dn vid option \<noteq> Panic) \<longrightarrow> master_ok (master_new sequencer limit)"
    by (simp add: master_ok_def master_new_def owned_once_def)
qed (use master_step_ok in blast)

lemma reachable_master_ok:
  assumes "(master_step nom flake_next gen allocate dr threshold)\<^sup>*\<^sup>* (master_new sequencer limit) m"
    and "rng_ok gen" "\<forall>dn vid option. allocate dn vid option \<noteq> Panic"
  shows "master_ok m"
  using master_run.inv_reachable [OF assms(1)] assms(2,3) by blast

lemma tree_levels:
  assumes "tree_ok net" "rooted net" "dc \<in> set (kids net 0)" "rack \<in> set (kids net dc)" "dn \<in> set (kids net rack)"
  shows "nd_type (net_nodes net dc) = DataCenterNode" "nd_type (net_nodes net rack) = RackNode"
    "nd_type (net_nodes net dn) = DataNodeNode" "nd_parent (net_nodes net dn) \<noteq> None"
proof -
  have l: "Suc (nlevel net c) = nlevel net n" if "c \<in> set (kids net n)" for c n
    using child_level [OF assms(1)] that by auto
  have "nlevel net 0 = 3"
    using assms(2) by (simp add: rooted_def)
  then have n: "nlevel net dc = 2" "nlevel net rack = 1" "nlevel net dn = 0"
    using l [OF assms(3)] l [OF assms(4)] l [OF assms(5)] by simp_all
  then show "nd_type (net_nodes net dc) = DataCenterNode" "nd_type (net_nodes net rack) = RackNode" "nd_type (net_nodes net dn) = DataNodeNode"
    by (simp_all add: level_inject [symmetric])
  show "nd_parent (net_nodes net dn) \<noteq> None"
    using assms(1,5) linked_child by (force simp: tree_ok_def)
qed

lemma concat_mapI: "x \<in> set xs \<Longrightarrow> y \<in> set (f x) \<Longrightarrow> y \<in> set (concat (map f xs))"
  by auto

lemma to_volume_locations_complete:
  assumes "tree_ok net" "rooted net" "dc \<in> set (kids net 0)" "rack \<in> set (kids net dc)" "dn \<in> set (kids net rack)"
  shows "\<exists>l \<in> set (to_volume_locations net). vloc_url l = dn_url (net_dns net dn) \<and>
    fst ` set (dn_volumes (net_dns net dn)) \<subseteq> set (vloc_new_vids l)"
proof -
  let ?l = "(volume_location_of net dn)\<lparr>vloc_new_vids :=
    map (vi_id \<circ> snd) (dn_volumes (net_dns net dn)) @ map (evi_volume_id \<circ> snd) (dn_ec_shards (net_dns net dn))\<rparr>"
  note ty = tree_levels [OF assms]
  have "?l \<in> set (to_volume_locations net)"
    unfolding to_volume_locations_def
    by (rule concat_mapI [OF assms(3)], rule concat_mapI [OF assms(4)], rule concat_mapI [OF assms(5)]) (simp add: downcast_def ty(3))
  moreover have "dn_ok net dn"
    using assms(1) ty(3,4) by (simp add: tree_ok_def)
  then have "fst ` set (dn_volumes (net_dns net dn)) = (vi_id \<circ> snd) ` set (dn_volumes (net_dns net dn))"
    by (intro image_cong refl) (auto simp: dn_ok_def)
  then have "fst ` set (dn_volumes (net_dns net dn)) \<subseteq> set (vloc_new_vids ?l)"
    by simp
  moreover have "vloc_url ?l = dn_url (net_dns net dn)"
    by (simp add: volume_location_of_def)
  ultimately show ?thesis
    by blast
qed

text \<open>The first heartbeat of the volume server of \<open>demo_net\<close>, and the master after it.\<close>

definition demo_heartbeat :: heartbeat where
  "demo_heartbeat =
     \<lparr>hb_ip = ''10.0.0.1'', hb_port = 80, hb_public_url = [], hb_max_volume_count = 2, hb_max_file_key = 0,
      hb_data_center = ''dc'', hb_rack = [], hb_admin_port = 0, hb_volumes = [], hb_new_volumes = [], hb_deleted_volumes = [],
      hb_has_no_volumes = False, hb_ec_shards = [], hb_new_ec_shards = [], hb_deleted_ec_shards = [],
      hb_has_no_ec_shards = False\<rparr>"

definition demo_master :: "unit master" where
  "demo_master = \<lparr>ma_topology = empty_topology, ma_conns = [0 \<mapsto> 3], ma_clients = []\<rparr>"

lemma demo_master_run:
  "(master_step nom flake_next gen allocate dr threshold)\<^sup>*\<^sup>* (master_new (Memory memory_sequencer_new) 1000) demo_master"
proof (rule r_into_rtranclp, rule master_step.heartbeat)
  show "serve_heartbeat 1000 True (Some []) [] 0 demo_heartbeat (master_new (Memory memory_sequencer_new) 1000) =
      Some (Ok \<lparr>hr_volume_size_limit = 1000, hr_secret_key = [], hr_leader = []\<rparr>, demo_master)"
    by (simp add: serve_heartbeat_def on_heartbeat_def master_new_def demo_heartbeat_def topology_new_def demo_connect
      heartbeat_response_of_def set_max_sequence_def memory_set_max_def memory_sequencer_new_def
      demo_master_def empty_topology_def Let_def)
  show "owned_once (ma_conns demo_master)"
    by (simp add: owned_once_def demo_master_def)
qed

subsection \<open>Properties\<close>


text \<open>
  C21. The types of the nodes follow the levels of the tree in every state the master can reach: below the root
  are data centers, below them racks, below them data nodes. The casts that the walks over the tree make to data
  nodes never fail, so a client that connects is told of every data node.
\<close>

theorem reachable_node_types:
  assumes "(master_step nom flake_next gen allocate dr threshold)\<^sup>*\<^sup>* (master_new sequencer limit) m"
    and "rng_ok gen" "\<forall>dn vid option. allocate dn vid option \<noteq> Panic"
    and "dc \<in> set (kids (tp_net (ma_topology m)) 0)" "rack \<in> set (kids (tp_net (ma_topology m)) dc)"
    and "dn \<in> set (kids (tp_net (ma_topology m)) rack)"
  shows "nd_type (net_nodes (tp_net (ma_topology m)) dc) = DataCenterNode \<and>
    nd_type (net_nodes (tp_net (ma_topology m)) rack) = RackNode \<and> downcast_node (tp_net (ma_topology m)) dn = Ok dn \<and>
    (\<exists>l \<in> set (to_volume_locations (tp_net (ma_topology m))). vloc_url l = dn_url (net_dns (tp_net (ma_topology m)) dn) \<and>
       fst ` set (dn_volumes (net_dns (tp_net (ma_topology m)) dn)) \<subseteq> set (vloc_new_vids l))"
  using reachable_master_ok [OF assms(1-3)] tree_levels [of "tp_net (ma_topology m)" dc rack dn]
    to_volume_locations_complete [of "tp_net (ma_topology m)" dc rack dn] assms(4-6)
  by (simp add: master_ok_def topo_ok_def downcast_def)

lemma allocate_Ok:
  "\<forall>(dn :: nref) (vid :: volume_id) (option :: volume_grow_option). (\<lambda>_ _ _. Ok () :: (unit, volume_error) result) dn vid option \<noteq> Panic"
  by simp


theorem reachable_node_types_witness:
  "nd_type (net_nodes demo_net 2) = RackNode \<and> downcast_node demo_net 3 = Ok 3"
proof -
  have net: "tp_net (ma_topology demo_master) = demo_net"
    by (simp add: demo_master_def empty_topology_ok(2))
  have k: "1 \<in> set (kids demo_net 0)" "2 \<in> set (kids demo_net 1)" "3 \<in> set (kids demo_net 2)"
    using linked_data_node(1) [OF tree_ok_demo] demo_parents by force+
  show ?thesis
    using reachable_node_types [where allocate = "\<lambda>_ _ _. Ok ()", OF demo_master_run rng_ok_counting allocate_Ok, unfolded net, OF k]
    by (elim conjE) (intro conjI)
qed

text \<open>
  C8. An assignment always comes to an end without a panic. When it succeeds, its file id names a writable volume
  of the layout that was asked for, which has at least as many locations as its placement asks for, all at
  different addresses, and the URL is that of the first of them. It does succeed when the layout has a writable
  volume and the sequencer has keys.
\<close>

theorem assign_handler_assigns:
  fixes t :: "'f topology"
  assumes "topo_ok t" "rng_ok gen" "volume_grow_option_of nom dr request = Ok option" "rp_digits (vgo_replica_placement option)"
    and "\<forall>dn vid. allocate dn vid option \<noteq> Panic"
  defines "count \<equiv> (case ar_count request of Some n \<Rightarrow> if n > 1 then n else 1 | None \<Rightarrow> 1)"
  shows "\<exists>res r' t'. assign_handler nom flake_next gen allocate dr r request t = Some (res, r', t') \<and> res \<noteq> Panic \<and> topo_ok t' \<and>
    (\<forall>a. res = Ok a \<longrightarrow>
       (\<exists>vid key hash nodes. as_fid a = file_id_display (file_id_new vid key hash) \<and>
          as_url a = dn_url (net_dns (tp_net t') (hd nodes)) \<and> as_count a = count \<and>
          vid \<in> set (vl_writable_volumes (option_layout t' option)) \<and> layout_lookup (option_layout t' option) vid = Some nodes \<and>
          copy_count (vgo_replica_placement option) \<le> length nodes \<and> distinct (map (addr (tp_net t')) nodes))) \<and>
    (fst (has_writable_volume option t) \<longrightarrow> is_ok (sequencer_next_file_id flake_next (tp_sequencer t) count) \<longrightarrow> is_ok res)"
proof -
  have a: "\<exists>vid key hash nodes. as_fid a = file_id_display (file_id_new vid key hash) \<and>
      as_url a = dn_url (net_dns (tp_net t') (hd nodes)) \<and> as_count a = count \<and>
      vid \<in> set (vl_writable_volumes (option_layout t' option)) \<and> layout_lookup (option_layout t' option) vid = Some nodes \<and>
      copy_count (vgo_replica_placement option) \<le> length nodes \<and> distinct (map (addr (tp_net t')) nodes)"
    if as: "assigned option count t' a" for t' :: "'f topology" and a
  proof -
    obtain vid key hash nodes where n: "a = assignment_of (tp_net t') (file_id_new vid key hash, count, hd nodes)"
        "vid \<in> set (vl_writable_volumes (option_layout t' option))" "layout_lookup (option_layout t' option) vid = Some nodes"
        "copy_count (vgo_replica_placement option) \<le> length nodes" "distinct (map (addr (tp_net t')) nodes)"
      using as unfolding assigned_def by (elim exE conjE) (rule that)
    show ?thesis
      by (intro exI conjI) (simp_all add: n(1) assignment_of_def, rule n(2), rule n(3), rule n(4), rule n(5))
  qed
  obtain res r' t' where h: "assign_handler nom flake_next gen allocate dr r request t = Some (res, r', t')" "res \<noteq> Panic" "topo_ok t'"
      "\<forall>a. res = Ok a \<longrightarrow> assigned option count t' a"
      "fst (has_writable_volume option t) \<longrightarrow> is_ok (sequencer_next_file_id flake_next (tp_sequencer t) count) \<longrightarrow> is_ok res"
    using assign_handler_ok [where allocate = allocate and r = r and flake_next = flake_next, OF assms(1-5)]
    unfolding count_def [symmetric] by (elim exE conjE) (rule that)
  show ?thesis
  proof (intro exI conjI)
    show "\<forall>a. res = Ok a \<longrightarrow> (\<exists>vid key hash nodes. as_fid a = file_id_display (file_id_new vid key hash) \<and>
        as_url a = dn_url (net_dns (tp_net t') (hd nodes)) \<and> as_count a = count \<and>
        vid \<in> set (vl_writable_volumes (option_layout t' option)) \<and> layout_lookup (option_layout t' option) vid = Some nodes \<and>
        copy_count (vgo_replica_placement option) \<le> length nodes \<and> distinct (map (addr (tp_net t')) nodes))"
      using h(4) by (intro allI impI a) simp
  qed (rule h)+
qed

definition demo_request :: assign_request where
  "demo_request = \<lparr>ar_count = None, ar_replication = None, ar_ttl = None, ar_preallocate = None, ar_collection = None,
     ar_data_center = None, ar_rack = None, ar_data_node = None\<rparr>"

lemma demo_assign_facts:
  "volume_grow_option_of nom_ttl_ref ''000'' demo_request = Ok demo_option"
  "fst (has_writable_volume demo_option demo_topology)"
  "rp_digits (vgo_replica_placement demo_option)"
  "\<forall>dn vid. (\<lambda>_ _ _. Ok ()) dn vid demo_option \<noteq> Panic"
  "is_ok (sequencer_next_file_id (\<lambda>f. (Inl ''none'', f)) (tp_sequencer demo_topology) 1)"
proof -
  show "fst (has_writable_volume demo_option demo_topology)"
    using demo_writable by (auto simp: has_writable_volume_def get_volume_layout_fst demo_option_def active_volume_count_def)
  have "tp_sequencer demo_topology = Memory memory_sequencer_new"
    by (simp add: demo_topology_def register_volume_layout_def get_volume_layout_def topology_new_def Let_def split: prod.splits)
  then show "is_ok (sequencer_next_file_id (\<lambda>f. (Inl ''none'', f)) (tp_sequencer demo_topology) 1)"
    by (simp add: sequencer_next_file_id_def memory_sequencer_new_def memory_next_file_id_def)
qed (simp_all add: volume_grow_option_of_def demo_request_def demo_option_def rp_new_def rp_default_def byte_of_char_def rp_digits_def)

theorem assign_handler_assigns_witness:
  "\<exists>a r' t'. assign_handler nom_ttl_ref (\<lambda>f. (Inl ''none'', f)) counting_rng (\<lambda>_ _ _. Ok ()) ''000'' 0 demo_request demo_topology =
     Some (Ok a, r', t') \<and> as_count a = 1"
proof -
  have c: "(case ar_count demo_request of Some n \<Rightarrow> if n > 1 then n else 1 | None \<Rightarrow> 1) = 1"
    by (simp add: demo_request_def)
  obtain res r' t' where h: "assign_handler nom_ttl_ref (\<lambda>f. (Inl ''none'', f)) counting_rng (\<lambda>_ _ _. Ok ()) ''000'' 0 demo_request demo_topology = Some (res, r', t')"
      "\<forall>a. res = Ok a \<longrightarrow> as_count a = 1" "is_ok res"
    using assign_handler_assigns [OF demo_topology_ok(1) rng_ok_counting demo_assign_facts(1,3,4), of "\<lambda>f. (Inl ''none'', f)" 0]
      demo_assign_facts(2,5)
    unfolding c by (elim exE conjE) (rule that, assumption, fast, simp)
  then show ?thesis
    by (cases res) simp_all
qed

subsection \<open>Looking up what was assigned\<close>

lemma lookup_handler_file_id:
  "lookup_handler \<lparr>lr_volume_id = file_id_display (file_id_new vid key hash), lr_collection = collection\<rparr> t =
     (case topology_lookup t (case collection of Some s \<Rightarrow> s | None \<Rightarrow> []) vid of
        Some nodes \<Rightarrow> Ok \<lparr>lk_volume_id = fmt_dec (unat vid), lk_locations = map (location_of (tp_net t)) nodes, lk_error = []\<rparr>
      | None \<Rightarrow> Err (VString ''cannot find any locations''))"
proof -
  let ?v = "fmt_dec (unat vid)" and ?k = "key_hash_display key hash"
  have d: "file_id_display (file_id_new vid key hash) = ?v @ CHR '','' # ?k"
    by (simp add: file_id_display_def file_id_new_def)
  have "CHR '','' \<notin> set ?k"
    using key_hash_display_ascii(3) by blast
  then have "str_rfind CHR '','' (?v @ CHR '','' # ?k) = Some (length ?v)"
    by (rule str_rfind_append)
  moreover have "(of_char c :: nat) < 128" if "c \<in> set (?v @ CHR '','' # ?k)" for c
    using that fmt_radix_ascii(1) [of 10 c "unat vid"] key_hash_display_ascii(1) [of c key hash] by auto
  then have "is_char_boundary (?v @ CHR '','' # ?k) i" if "i \<le> length (?v @ CHR '','' # ?k)" for i
    using ascii_boundary [OF _ that] by blast
  then have "str_slice (?v @ CHR '','' # ?k) 0 (length ?v) = (Ok ?v :: (string, volume_error) result)"
    by (simp add: str_slice_def)
  moreover have "parse_u32 ?v = Ok vid"
    using from_str_radix_fmt [of 10 "unat vid" "2 ^ 32"] unat_less_power(3) [of vid] by (simp add: parse_u32_def)
  ultimately show ?thesis
    by (simp add: lookup_handler_def d split: option.split)
qed

lemma first_location_agrees:
  assumes "vl \<in> set vls" "layout_lookup vl vid = Some nodes" "\<forall>vl' \<in> set vls. layout_lookup vl' vid \<in> {None, Some nodes}"
  shows "first_location vls vid = Some nodes"
  using assms by (induction vls) (auto split: option.split)

lemma first_location_none: "\<forall>vl \<in> set vls. layout_lookup vl vid = None \<Longrightarrow> first_location vls vid = None"
  by (induction vls) auto

lemma first_collection_agrees:
  assumes "c \<in> set cs" "collection_lookup c vid = Some nodes" "\<forall>c' \<in> set cs. collection_lookup c' vid \<in> {None, Some nodes}"
  shows "first_collection cs vid = Some nodes"
  using assms by (induction cs) (auto split: option.split)


lemma the_layout_listed:
  assumes "vl_writable_volumes (the_layout t name rp ttl) \<noteq> []"
  shows "\<exists>c. map_of (tp_collections t) name = Some c \<and> the_layout t name rp ttl \<in> snd ` set (cl_volume_layouts c)"
  using assms
  by (auto simp: the_layout_def get_or_create_volume_layout_def collection_new_def volume_layout_new_def Let_def
    split: option.splits if_splits) (force dest: map_of_SomeD)

text \<open>Where a volume of this layout is listed elsewhere, it is with the same data nodes.\<close>

definition listed_alike :: "'f topology \<Rightarrow> volume_layout \<Rightarrow> bool" where
  "listed_alike t vl \<longleftrightarrow>
     (\<forall>c \<in> snd ` set (tp_collections t). \<forall>vl' \<in> snd ` set (cl_volume_layouts c). \<forall>vid \<in> set (vl_writable_volumes vl).
        layout_lookup vl' vid \<in> {None, layout_lookup vl vid})"

lemma topology_lookup_writable:
  assumes "listed_alike t vl" "vl = the_layout t name rp ttl" "vid \<in> set (vl_writable_volumes vl)" "layout_lookup vl vid = Some nodes"
  shows "topology_lookup t name vid = Some nodes"
proof -
  obtain c where c: "map_of (tp_collections t) name = Some c" "vl \<in> snd ` set (cl_volume_layouts c)"
    using the_layout_listed [of t name rp ttl] assms(2,3) by (metis empty_iff empty_set)
  have in_col: "c \<in> snd ` set (tp_collections t)"
    using map_of_SomeD [OF c(1)] by force
  have alike: "layout_lookup vl' vid \<in> {None, Some nodes}" if "d \<in> snd ` set (tp_collections t)" "vl' \<in> snd ` set (cl_volume_layouts d)" for d vl'
    using assms(1,3,4) that unfolding listed_alike_def by force
  have hit: "collection_lookup c vid = Some nodes"
    unfolding collection_lookup_def using c(2) assms(4) alike [OF in_col] by (intro first_location_agrees) auto
  have miss: "collection_lookup d vid \<in> {None, Some nodes}" if d: "d \<in> snd ` set (tp_collections t)" for d
  proof (cases "\<exists>vl' \<in> snd ` set (cl_volume_layouts d). layout_lookup vl' vid \<noteq> None")
    case True
    then obtain vl' where "vl' \<in> set (map snd (cl_volume_layouts d))" "layout_lookup vl' vid = Some nodes"
      using alike [OF d] by force
    then have "collection_lookup d vid = Some nodes"
      unfolding collection_lookup_def by (rule first_location_agrees) (use alike [OF d] in auto)
    then show ?thesis
      by simp
  next
    case False
    then have "\<forall>vl' \<in> set (map snd (cl_volume_layouts d)). layout_lookup vl' vid = None"
      by auto
    then show ?thesis
      by (simp add: collection_lookup_def first_location_none)
  qed
  show ?thesis
    using c(1) hit in_col miss first_collection_agrees [of c "map snd (tp_collections t)" vid nodes]
    by (auto simp: topology_lookup_def)
qed

text \<open>
  C20. What an assignment hands out can be looked up: as long as no other layout lists the volumes of this one with
  different data nodes, the lookup of the assigned file id in the collection of the request succeeds, with at
  least as many locations as the placement asks for, the assigned URL among them.
\<close>

theorem assign_then_lookup:
  assumes "topo_ok t" "rng_ok gen" "volume_grow_option_of nom dr request = Ok option" "rp_digits (vgo_replica_placement option)"
    and "\<forall>dn vid. allocate dn vid option \<noteq> Panic"
    and "assign_handler nom flake_next gen allocate dr r request t = Some (Ok a, r', t')"
    and "listed_alike t' (option_layout t' option)"
  shows "\<exists>lk. lookup_handler \<lparr>lr_volume_id = as_fid a, lr_collection = ar_collection request\<rparr> t' = Ok lk \<and>
    copy_count (vgo_replica_placement option) \<le> length (lk_locations lk) \<and> as_url a = loc_url (hd (lk_locations lk)) \<and>
    as_url a \<in> loc_url ` set (lk_locations lk)"
proof -
  have "assigned option (case ar_count request of Some n \<Rightarrow> if n > 1 then n else 1 | None \<Rightarrow> 1) t' a"
    using assign_handler_ok [where allocate = allocate and r = r and flake_next = flake_next, OF assms(1-5)] assms(6) by auto
  then obtain vid key hash nodes count where n: "a = assignment_of (tp_net t') (file_id_new vid key hash, count, hd nodes)"
      "vid \<in> set (vl_writable_volumes (option_layout t' option))" "layout_lookup (option_layout t' option) vid = Some nodes"
      "copy_count (vgo_replica_placement option) \<le> length nodes"
    unfolding assigned_def by (elim exE conjE) (rule that)
  have "nodes \<noteq> []"
    using n(4) copy_count_digits [OF assms(4)] by auto
  then obtain x xs where x: "nodes = x # xs"
    by (cases nodes) simp_all
  have "vgo_collection option = (case ar_collection request of Some s \<Rightarrow> s | None \<Rightarrow> [])"
    using assms(3) by (auto simp: volume_grow_option_of_def rbind_Ok_iff)
  then have "topology_lookup t' (case ar_collection request of Some s \<Rightarrow> s | None \<Rightarrow> []) vid = Some nodes"
    using topology_lookup_writable [OF assms(7) refl n(2,3)] by simp
  then show ?thesis
    using n(1,4) x by (simp add: lookup_handler_file_id assignment_of_def location_of_def)
qed


lemma demo_collections:
  "\<exists>c vl. tp_collections demo_topology = [([], c)] \<and> cl_volume_layouts c = [(layout_key rp_default (Some ttl_default), vl)]"
  by (simp add: demo_topology_def register_volume_layout_def get_volume_layout_def get_or_create_volume_layout_def topology_new_def
      collection_new_def demo_volume_def Let_def split: prod.split)

lemma get_volume_layout_single:
  assumes "tp_collections t = [(name, c)]" "cl_volume_layouts c = [(layout_key rp (Some ttl), vl)]"
  shows "get_volume_layout name rp ttl (\<lambda>vl. (g vl, vl)) t = (g vl, t)"
  using assms by (simp add: get_volume_layout_def get_or_create_volume_layout_def Let_def)

lemma demo_assign_alike:
  assumes "assign_handler nom_ttl_ref (\<lambda>f. (Inl ''none'', f)) counting_rng (\<lambda>_ _ _. Ok ()) ''000'' 0 demo_request demo_topology = Some (Ok a, r', t')"
  shows "listed_alike t' (option_layout t' demo_option)"
proof -
  obtain c vl where c: "tp_collections demo_topology = [([], c)]" "cl_volume_layouts c = [(layout_key rp_default (Some ttl_default), vl)]"
    using demo_collections by blast
  have single: "get_volume_layout [] rp_default ttl_default (\<lambda>vl. (g vl, vl)) (demo_topology\<lparr>tp_sequencer := s\<rparr>) =
      (g vl, demo_topology\<lparr>tp_sequencer := s\<rparr>)" for g :: "volume_layout \<Rightarrow> 'b" and s
    by (rule get_volume_layout_single [where c = c]) (simp_all add: c)
  have w: "has_writable_volume demo_option demo_topology = (True, demo_topology)"
    using demo_assign_facts(2) get_volume_layout_single [OF c, of "\<lambda>vl. 0 < active_volume_count (tp_net demo_topology) demo_option vl"]
    unfolding has_writable_volume_def by (simp add: demo_option_def)
  have "tp_collections t' = [([], c)]"
  proof -
    have o: "vgo_collection demo_option = []" "vgo_replica_placement demo_option = rp_default" "vgo_ttl demo_option = ttl_default"
      by (simp_all add: demo_option_def)
    obtain p count where p: "pick_for_write (\<lambda>f. (Inl ''none'', f)) counting_rng 0 count demo_option demo_topology = (Ok p, r', t')"
      using assms by (auto simp: assign_handler_def demo_assign_facts(1) w Let_def split: result.splits prod.splits)
    then show ?thesis
      using c(1) by (auto simp: pick_for_write_def o single Let_def split: result.splits prod.splits list.splits)
  qed
  then show ?thesis
    using c(2) by (simp add: listed_alike_def the_layout_def get_or_create_volume_layout_def demo_option_def)
qed


theorem assign_then_lookup_witness:
  "\<exists>a r' t' lk. assign_handler nom_ttl_ref (\<lambda>f. (Inl ''none'', f)) counting_rng (\<lambda>_ _ _. Ok ()) ''000'' 0 demo_request demo_topology =
     Some (Ok a, r', t') \<and> lookup_handler \<lparr>lr_volume_id = as_fid a, lr_collection = None\<rparr> t' = Ok lk \<and>
     as_url a \<in> loc_url ` set (lk_locations lk)"
proof -
  have c: "(case ar_count demo_request of Some n \<Rightarrow> if n > 1 then n else 1 | None \<Rightarrow> 1) = 1" "ar_collection demo_request = None"
    by (simp_all add: demo_request_def)
  obtain res r' t' where h: "assign_handler nom_ttl_ref (\<lambda>f. (Inl ''none'', f)) counting_rng (\<lambda>_ _ _. Ok ()) ''000'' 0 demo_request demo_topology = Some (res, r', t')"
      "is_ok res"
    using assign_handler_ok [OF demo_topology_ok(1) rng_ok_counting demo_assign_facts(1,3,4), of "\<lambda>f. (Inl ''none'', f)" 0]
      demo_assign_facts(2,5)
    unfolding c by (elim exE conjE) (rule that, assumption, simp)
  then obtain a where a: "res = Ok a"
    by (cases res) simp_all
  show ?thesis
    using assign_then_lookup [OF demo_topology_ok(1) rng_ok_counting demo_assign_facts(1,3,4) h(1) [unfolded a]
        demo_assign_alike [OF h(1) [unfolded a]]] h(1) a unfolding c by blast
qed

end
