(* ===== verification/Client.thy ===== *)
theory Client
  imports Directory
begin

section \<open>The master client\<close>

text \<open>
  \<open>client/location.rs\<close> and \<open>client/mod.rs\<close>: a client keeps a table of the servers of every volume, which it builds
  from the messages the master sends on the connection (\<open>keep_connected\<close>). The connection itself is an argument: for
  an address and a state of the network it gives the error of making the client, or the answer to
  \<open>keep_connected\<close>, a stream of messages that ends.
\<close>

subsection \<open>The table of locations\<close>

record client_location =
  clo_url :: string
  clo_public_url :: string

type_synonym location_map = "(volume_id \<times> client_location list) list"

datatype client_error =
  CBox string
| CString string
| CUnknownVolumeId string
| CVolumeIdNotFound volume_id
| CVolume volume_error
| CKeepConnected string string

definition get_locations_by_vid :: "volume_id \<Rightarrow> location_map \<Rightarrow> client_location list option" where
  "get_locations_by_vid vid m = map_of m vid"

definition get_locations :: "string \<Rightarrow> location_map \<Rightarrow> client_location list option" where
  "get_locations vid m = (case parse_u32 vid of Ok vid \<Rightarrow> get_locations_by_vid vid m | _ \<Rightarrow> None)"

text \<open>\<open>entry(vid).or_default()\<close>.\<close>

definition location_entry :: "volume_id \<Rightarrow> location_map \<Rightarrow> client_location list" where
  "location_entry vid m = (case map_of m vid of Some ls \<Rightarrow> ls | None \<Rightarrow> [])"

definition add_location :: "volume_id \<Rightarrow> client_location \<Rightarrow> location_map \<Rightarrow> location_map" where
  "add_location vid location m =
     (let locations = location_entry vid m in
      AList.update vid
        (if locations = [] then [location]
         else if \<exists>loc \<in> set locations. clo_url loc = clo_url location then locations
         else locations @ [location]) m)"

definition delete_location :: "volume_id \<Rightarrow> client_location \<Rightarrow> location_map \<Rightarrow> location_map" where
  "delete_location vid location m =
     (let locations = location_entry vid m in
      AList.update vid
        (if locations = [] then [] else filter (\<lambda>loc. clo_url loc \<noteq> clo_url location) locations) m)"

definition lookup_volume_server_url ::
    "'r rng \<Rightarrow> 'r \<Rightarrow> string \<Rightarrow> location_map \<Rightarrow> (string, client_error) result \<times> 'r" where
  "lookup_volume_server_url gen r vid m =
     (case parse_u32 vid of
        Ok vid \<Rightarrow>
          (case get_locations_by_vid vid m of
             Some locations \<Rightarrow>
               if locations \<noteq> [] then
                 let (idx, r) = gen r (length locations) in (Ok (clo_url (locations ! idx)), r)
               else (Err (CVolumeIdNotFound vid), r)
           | None \<Rightarrow> (Err (CVolumeIdNotFound vid), r))
      | Err _ \<Rightarrow> (Err (CUnknownVolumeId vid), r)
      | Panic \<Rightarrow> (Panic, r))"

definition lookup_file_id ::
    "nom_url \<Rightarrow> 'r rng \<Rightarrow> 'r \<Rightarrow> string \<Rightarrow> location_map \<Rightarrow> (string, client_error) result \<times> 'r" where
  "lookup_file_id nom gen r file_id m =
     (case parse_vid_fid nom file_id of
        Err e \<Rightarrow> (Err (CString e), r)
      | Panic \<Rightarrow> (Panic, r)
      | Ok (_, vid, file_id) \<Rightarrow>
          let (url, r) = lookup_volume_server_url gen r vid m
          in (rbind url (\<lambda>url. Ok (''http://'' @ url @ ''/'' @ file_id)), r))"

definition lookup_volume_server ::
    "nom_url \<Rightarrow> 'r rng \<Rightarrow> 'r \<Rightarrow> string \<Rightarrow> location_map \<Rightarrow> (string, client_error) result \<times> 'r" where
  "lookup_volume_server nom gen r file_id m =
     (case parse_vid_fid nom file_id of
        Err e \<Rightarrow> (Err (CString e), r)
      | Panic \<Rightarrow> (Panic, r)
      | Ok (_, vid, _) \<Rightarrow> lookup_volume_server_url gen r vid m)"

subsection \<open>Messages of the master\<close>

record master_client =
  mc_name :: string
  mc_current_master :: string
  mc_masters :: "string list"
  mc_locations :: location_map

definition master_client_new :: "string \<Rightarrow> string list \<Rightarrow> master_client" where
  "master_client_new name masters = \<lparr>mc_name = name, mc_current_master = [], mc_masters = masters, mc_locations = []\<rparr>"

definition apply_location :: "volume_location \<Rightarrow> location_map \<Rightarrow> location_map" where
  "apply_location l m =
     (let loc = \<lparr>clo_url = vloc_url l, clo_public_url = vloc_public_url l\<rparr>;
          m = fold (\<lambda>vid. add_location vid loc) (vloc_new_vids l) m
      in fold (\<lambda>vid. delete_location vid loc) (vloc_deleted_vids l) m)"

text \<open>The stream until it ends, fails or names another leader; the result is the hinted leader, empty for none.\<close>

fun read_stream ::
    "string \<Rightarrow> (volume_location, string) result list \<Rightarrow> master_client \<Rightarrow> (string, client_error) result \<times> master_client" where
  "read_stream master [] c = (Ok [], c)"
| "read_stream master (Ok l # stream) c =
     (case vloc_leader l of
        Some leader \<Rightarrow> (Ok leader, c)
      | None \<Rightarrow> read_stream master stream (c\<lparr>mc_locations := apply_location l (mc_locations c)\<rparr>))"
| "read_stream master (Err status # stream) c = (Err (CKeepConnected master status), c)"
| "read_stream master (Panic # stream) c = (Panic, c)"

type_synonym 'w connect =
  "string \<Rightarrow> 'w \<Rightarrow> (((volume_location, string) result list, string) result, volume_error) result \<times> 'w"

definition try_connect_to_master ::
    "'w connect \<Rightarrow> string \<Rightarrow> 'w \<Rightarrow> master_client \<Rightarrow> (string, client_error) result \<times> 'w \<times> master_client" where
  "try_connect_to_master connect master w c =
     (case connect master w of
        (Err e, w) \<Rightarrow> (Err (CVolume e), w, c)
      | (Panic, w) \<Rightarrow> (Panic, w, c)
      | (Ok (Err status), w) \<Rightarrow> (Err (CKeepConnected master status), w, c)
      | (Ok Panic, w) \<Rightarrow> (Panic, w, c)
      | (Ok (Ok stream), w) \<Rightarrow>
          let (res, c) = read_stream master stream (c\<lparr>mc_current_master := master\<rparr>) in (res, w, c))"

text \<open>A hinted leader may hint again, for ever.\<close>

partial_function (option) follow_leaders ::
    "'w connect \<Rightarrow> string \<Rightarrow> 'w \<Rightarrow> master_client \<Rightarrow> ((unit, client_error) result \<times> 'w \<times> master_client) option" where
  "follow_leaders connect master w c =
     (case try_connect_to_master connect master w c of
        (Err e, w, c) \<Rightarrow> Some (Err e, w, c)
      | (Panic, w, c) \<Rightarrow> Some (Panic, w, c)
      | (Ok hint, w, c) \<Rightarrow> if hint = [] then Some (Ok (), w, c) else follow_leaders connect hint w c)"

fun try_masters ::
    "'w connect \<Rightarrow> string list \<Rightarrow> 'w \<Rightarrow> master_client \<Rightarrow> ((unit, client_error) result \<times> 'w \<times> master_client) option" where
  "try_masters connect [] w c = Some (Ok (), w, c)"
| "try_masters connect (master # masters) w c =
     (case follow_leaders connect master w c of
        None \<Rightarrow> None
      | Some (Err e, w, c) \<Rightarrow> Some (Err e, w, c)
      | Some (Panic, w, c) \<Rightarrow> Some (Panic, w, c)
      | Some (Ok _, w, c) \<Rightarrow> try_masters connect masters w (c\<lparr>mc_current_master := [], mc_locations := []\<rparr>))"

definition try_all_masters ::
    "'w connect \<Rightarrow> 'w \<Rightarrow> master_client \<Rightarrow> ((unit, client_error) result \<times> 'w \<times> master_client) option" where
  "try_all_masters connect w c = try_masters connect (mc_masters c) w c"

declare follow_leaders.simps [code]

text \<open>A master that cannot be reached ends the round: the masters after it are not tried.\<close>

lemma unreachable_master_ends_round:
  "connect master w = (Err e, w') \<Longrightarrow> try_masters connect (master # masters) w c = Some (Err (CVolume e), w', c)"
  by (simp add: follow_leaders.simps try_connect_to_master_def)

subsection \<open>What the table says\<close>

text \<open>The servers of a volume, by address.\<close>

definition servers :: "location_map \<Rightarrow> volume_id \<Rightarrow> string set" where
  "servers m vid = clo_url ` set (location_entry vid m)"

lemma location_entry_update [simp]: "location_entry v (AList.update vid ls m) = (if v = vid then ls else location_entry v m)"
  by (simp add: location_entry_def update_conv')

lemma servers_add [simp]:
  "servers (add_location vid loc m) v = (if v = vid then insert (clo_url loc) (servers m v) else servers m v)"
  by (auto simp: servers_def add_location_def Let_def intro: rev_image_eqI)

lemma servers_delete [simp]:
  "servers (delete_location vid loc m) v = (if v = vid then servers m v - {clo_url loc} else servers m v)"
  by (auto simp: servers_def delete_location_def Let_def)

lemma servers_adds:
  "servers (fold (\<lambda>vid. add_location vid loc) vids m) v = (if v \<in> set vids then insert (clo_url loc) (servers m v) else servers m v)"
  by (induction vids arbitrary: m) auto

lemma servers_deletes:
  "servers (fold (\<lambda>vid. delete_location vid loc) vids m) v = (if v \<in> set vids then servers m v - {clo_url loc} else servers m v)"
  by (induction vids arbitrary: m) auto

lemma servers_apply:
  "u \<in> servers (apply_location l m) v \<longleftrightarrow>
     (if u = vloc_url l then v \<notin> set (vloc_deleted_vids l) \<and> (v \<in> set (vloc_new_vids l) \<or> u \<in> servers m v) else u \<in> servers m v)"
  by (auto simp: apply_location_def Let_def servers_adds servers_deletes)


lemma read_stream_locations:
  "list_all (\<lambda>l. vloc_leader l = None) ls \<Longrightarrow>
     read_stream master (map Ok ls) c = (Ok [], c\<lparr>mc_locations := fold apply_location ls (mc_locations c)\<rparr>)"
  by (induction ls arbitrary: c) simp_all

subsection \<open>Following the master\<close>

lemma layout_delta_ec_vids:
  "layout_delta_ec hb x l t = Some (l', t') \<Longrightarrow> vloc_url l' = vloc_url l \<and> vloc_leader l' = vloc_leader l \<and>
     vloc_new_vids l' = vloc_new_vids l \<and> vloc_deleted_vids l' = vloc_deleted_vids l"
  by (auto simp: layout_delta_ec_def split: if_splits)

lemma layout_full_ec_vids:
  "layout_full_ec hb x l t = Some (l', t') \<Longrightarrow> vloc_url l' = vloc_url l \<and> vloc_leader l' = vloc_leader l \<and>
     vloc_new_vids l' = vloc_new_vids l \<and> vloc_deleted_vids l' = vloc_deleted_vids l"
  by (auto simp: layout_full_ec_def split: if_splits)

text \<open>The ids of the volumes the master has on record for a data node.\<close>

abbreviation vids :: "net \<Rightarrow> nref \<Rightarrow> volume_id set" where
  "vids net x \<equiv> fst ` set (dn_volumes (net_dns net x))"

lemma layout_full_volumes_vids:
  assumes "topo_ok t" "live x (tp_net t)" "hb_volumes hb \<noteq> [] \<or> hb_has_no_volumes hb"
  shows "\<exists>l' t'. layout_full_volumes hb x l t = Some (Ok l', t') \<and> topo_ok t' \<and> volumes_changed x (tp_net t) (tp_net t') \<and>
    vids (tp_net t') x = vi_id ` set (converted (map volume_info_new (hb_volumes hb))) \<and>
    vloc_url l' = vloc_url l \<and> vloc_leader l' = vloc_leader l \<and>
    set (vloc_new_vids l') = set (vloc_new_vids l) \<union> (vids (tp_net t') x - vids (tp_net t) x) \<and>
    set (vloc_deleted_vids l') = set (vloc_deleted_vids l) \<union> (vids (tp_net t) x - vids (tp_net t') x)"
proof -
  let ?infos = "converted (map volume_info_new (hb_volumes hb))"
  obtain new dels t' where s: "sync_data_node_registration (hb_volumes hb) x t = Some (new, dels, t')" "topo_ok t'"
      "volumes_changed x (tp_net t) (tp_net t')" "map_of (vols (tp_net t') x) = map_of (rev (map (\<lambda>v. (vi_id v, v)) ?infos))"
      "vi_id ` set new = vi_id ` set ?infos - vids (tp_net t) x" "vi_id ` set dels = vids (tp_net t) x - vi_id ` set ?infos"
    using sync_ok [OF assms(1,2), of "hb_volumes hb"] by (elim exE conjE) (rule that)
  have "vids (tp_net t') x = vi_id ` set ?infos"
    using arg_cong [OF s(4), of dom] by (simp add: dom_map_of_conv_image_fst image_image)
  then show ?thesis
    using assms(3) register_linked [OF assms(2)] s by (simp add: layout_full_volumes_def)
qed


lemma update_volume_layout_message:
  assumes "topo_ok t" "live x (tp_net t)" "hb_volumes hb \<noteq> [] \<or> hb_has_no_volumes hb"
    and "hb_new_volumes hb = []" "hb_deleted_volumes hb = []" "\<not> withdraws_known hb x (tp_net t)"
  shows "\<exists>t' l. update_volume_layout hb x t clients = Some (Ok (), t', if says_something l then broadcast l clients else clients) \<and>
    vids (tp_net t') x = vi_id ` set (converted (map volume_info_new (hb_volumes hb))) \<and>
    vloc_url l = dn_url (net_dns (tp_net t) x) \<and> vloc_leader l = None \<and>
    set (vloc_new_vids l) = vids (tp_net t') x - vids (tp_net t) x \<and>
    set (vloc_deleted_vids l) = vids (tp_net t) x - vids (tp_net t') x"
proof -
  let ?l = "volume_location_of (tp_net t) x"
  have s1: "layout_delta_volumes hb x ?l t = Some (?l, t)"
    using assms(4,5) by (simp add: layout_delta_volumes_def)
  obtain l2 t2 where s2: "layout_full_volumes hb x ?l t = Some (Ok l2, t2)" "topo_ok t2" "volumes_changed x (tp_net t) (tp_net t2)"
      "vids (tp_net t2) x = vi_id ` set (converted (map volume_info_new (hb_volumes hb)))"
      "vloc_url l2 = vloc_url ?l" "vloc_leader l2 = vloc_leader ?l"
      "set (vloc_new_vids l2) = set (vloc_new_vids ?l) \<union> (vids (tp_net t2) x - vids (tp_net t) x)"
      "set (vloc_deleted_vids l2) = set (vloc_deleted_vids ?l) \<union> (vids (tp_net t) x - vids (tp_net t2) x)"
    using layout_full_volumes_vids [OF assms(1-3), of ?l] by (elim exE conjE) (rule that)
  have v2: "live x (tp_net t2)"
    using live_volumes [OF s2(3)] assms(2) by simp
  have "\<not> withdraws_known hb x (tp_net t2)"
    using assms(6) has_ec_volumes [OF s2(3)] by (simp add: withdraws_known_def)
  then obtain l3 t3 where s3: "layout_delta_ec hb x l2 t2 = Some (l3, t3)" "topo_ok t3" "ec_kept (tp_net t2) (tp_net t3)"
    using layout_delta_ec_ok [OF s2(2) v2, of hb l2] by auto
  have v3: "live x (tp_net t3)"
    using live_kept [OF s3(3)] v2 by simp
  obtain l4 t4 where s4: "layout_full_ec hb x l3 t3 = Some (l4, t4)" "ec_kept (tp_net t3) (tp_net t4)"
    using layout_full_ec_ok [OF s3(2) v3] by blast
  have "vids (tp_net t4) x = vids (tp_net t2) x"
    using s3(3) s4(2) by (simp add: ec_kept_def)
  moreover have "vloc_url l4 = vloc_url l2" "vloc_leader l4 = vloc_leader l2" "vloc_new_vids l4 = vloc_new_vids l2"
      "vloc_deleted_vids l4 = vloc_deleted_vids l2"
    using layout_delta_ec_vids [OF s3(1)] layout_full_ec_vids [OF s4(1)] by simp_all
  moreover have "update_volume_layout hb x t clients = Some (Ok (), t4, if says_something l4 then broadcast l4 clients else clients)"
    using s1 s2(1) s3(1) s4(1) by (simp add: update_volume_layout_def)
  ultimately show ?thesis
    using s2(4-8) by (intro exI [of _ t4] exI [of _ l4]) (simp add: volume_location_of_def volume_location_new_def)
qed

text \<open>
  C22. A client follows the volume reports of a server. When its table lists the server exactly at the volumes the
  master has on record for it, then after a heartbeat with a full report, whatever it says of erasure-coded
  shards, and after reading the messages the master sent because of it, the table lists the server exactly at the
  reported volumes and says of the other servers what it said before.
\<close>

theorem client_follows_reports:
  assumes "topo_ok t" "live x (tp_net t)" "hb_volumes hb \<noteq> [] \<or> hb_has_no_volumes hb"
    and "hb_new_volumes hb = []" "hb_deleted_volumes hb = []" "\<not> withdraws_known hb x (tp_net t)"
  defines "u \<equiv> dn_url (net_dns (tp_net t) x)"
  shows "\<exists>t' msgs. update_volume_layout hb x t clients = Some (Ok (), t', map (\<lambda>(name, sent). (name, sent @ msgs)) clients) \<and>
    fst ` set (dn_volumes (net_dns (tp_net t') x)) = vi_id ` set (converted (map volume_info_new (hb_volumes hb))) \<and>
    (\<forall>master c. (\<forall>vid. u \<in> servers (mc_locations c) vid \<longleftrightarrow> vid \<in> fst ` set (dn_volumes (net_dns (tp_net t) x))) \<longrightarrow>
       (\<exists>c'. read_stream master (map Ok msgs) c = (Ok [], c') \<and>
          (\<forall>vid. u \<in> servers (mc_locations c') vid \<longleftrightarrow> vid \<in> fst ` set (dn_volumes (net_dns (tp_net t') x))) \<and>
          (\<forall>vid u'. u' \<noteq> u \<longrightarrow> u' \<in> servers (mc_locations c') vid \<longleftrightarrow> u' \<in> servers (mc_locations c) vid)))"
proof -
  obtain t' l where t': "update_volume_layout hb x t clients = Some (Ok (), t', if says_something l then broadcast l clients else clients)"
      "vids (tp_net t') x = vi_id ` set (converted (map volume_info_new (hb_volumes hb)))"
      "vloc_url l = u" "vloc_leader l = None" "set (vloc_new_vids l) = vids (tp_net t') x - vids (tp_net t) x"
      "set (vloc_deleted_vids l) = vids (tp_net t) x - vids (tp_net t') x"
    using update_volume_layout_message [OF assms(1-6), of clients, folded u_def] by (elim exE conjE) (rule that)
  define msgs where "msgs = (if says_something l then [l] else [])"
  have up: "update_volume_layout hb x t clients = Some (Ok (), t', map (\<lambda>(name, sent). (name, sent @ msgs)) clients)"
    using t'(1) by (simp add: msgs_def broadcast_def)
  have srv: "u' \<in> servers (fold apply_location msgs m) vid \<longleftrightarrow>
      (if u' = u then vid \<notin> vids (tp_net t) x - vids (tp_net t') x \<and> (vid \<in> vids (tp_net t') x - vids (tp_net t) x \<or> u \<in> servers m vid)
       else u' \<in> servers m vid)" for u' m vid
    using t'(3,5,6) by (auto simp: msgs_def says_something_def servers_apply)
  have rd: "read_stream master (map Ok msgs) c = (Ok [], c\<lparr>mc_locations := fold apply_location msgs (mc_locations c)\<rparr>)" for master c
    by (rule read_stream_locations) (simp add: msgs_def t'(4))
  show ?thesis
    by (rule exI [of _ t'], rule exI [of _ msgs], intro conjI allI impI exI, rule up, rule t'(2), rule rd) (simp_all add: srv, blast)
qed


theorem client_follows_reports_witness:
  "\<exists>t' msgs c'. update_volume_layout (demo_heartbeat\<lparr>hb_has_no_volumes := True\<rparr>) 3 demo_topology [(''client'', [])] =
       Some (Ok (), t', [(''client'', msgs)]) \<and>
     read_stream [] (map Ok msgs) \<lparr>mc_name = ''client'', mc_current_master = [], mc_masters = [],
       mc_locations = [(7, [\<lparr>clo_url = dn_url (net_dns demo_net1 3), clo_public_url = []\<rparr>])]\<rparr> = (Ok [], c') \<and>
     (\<forall>vid. dn_url (net_dns demo_net1 3) \<notin> servers (mc_locations c') vid)"
proof -
  let ?hb = "demo_heartbeat\<lparr>hb_has_no_volumes := True\<rparr>" and ?u = "dn_url (net_dns demo_net1 3)"
  let ?c = "\<lparr>mc_name = ''client'', mc_current_master = [], mc_masters = [], mc_locations = [(7, [\<lparr>clo_url = ?u, clo_public_url = []\<rparr>])]\<rparr>"
  have hb: "hb_volumes ?hb \<noteq> [] \<or> hb_has_no_volumes ?hb" "hb_new_volumes ?hb = []" "hb_deleted_volumes ?hb = []"
      "\<not> withdraws_known ?hb 3 (tp_net demo_topology)" "hb_volumes ?hb = []"
    by (simp_all add: demo_heartbeat_def withdraws_known_def)
  have before: "\<forall>vid. dn_url (net_dns (tp_net demo_topology) 3) \<in> servers (mc_locations ?c) vid \<longleftrightarrow>
      vid \<in> fst ` set (dn_volumes (net_dns (tp_net demo_topology) 3))"
    by (simp add: demo_topology_ok(2) demo_net1_facts(4) servers_def location_entry_def)
  let ?after = "\<lambda>t' c'. \<forall>vid. dn_url (net_dns (tp_net demo_topology) 3) \<in> servers (mc_locations c') vid \<longleftrightarrow>
    vid \<in> fst ` set (dn_volumes (net_dns (tp_net t') 3))"
  obtain t' msgs where t': "update_volume_layout ?hb 3 demo_topology [(''client'', [])] =
        Some (Ok (), t', map (\<lambda>(name, sent). (name, sent @ msgs)) [(''client'', [])])"
      "fst ` set (dn_volumes (net_dns (tp_net t') 3)) = vi_id ` set (converted (map volume_info_new (hb_volumes ?hb)))"
      "\<forall>master c. ?after demo_topology c \<longrightarrow> (\<exists>c'. read_stream master (map Ok msgs) c = (Ok [], c') \<and> ?after t' c' \<and>
         (\<forall>vid u'. u' \<noteq> dn_url (net_dns (tp_net demo_topology) 3) \<longrightarrow> u' \<in> servers (mc_locations c') vid \<longleftrightarrow> u' \<in> servers (mc_locations c) vid))"
    using client_follows_reports [OF demo_topology_ok(1) demo_topology_facts(1) hb(1-4), of "[(''client'', [])]"]
    by (elim exE conjE) (rule that)
  obtain c' where c': "read_stream [] (map Ok msgs) ?c = (Ok [], c')" "?after t' c'"
    using t'(3) [THEN spec [of _ "[]"], THEN spec, THEN mp, OF before] by (elim exE conjE) (rule that)
  have "fst ` set (dn_volumes (net_dns (tp_net t') 3)) = {}"
    unfolding t'(2) hb(5) by (simp add: converted_def)
  then have "\<forall>vid. ?u \<notin> servers (mc_locations c') vid"
    using c'(2) by (simp add: demo_topology_ok(2))
  then show ?thesis
    using t'(1) c'(1) by (intro exI conjI) simp_all
qed

lemma servers_Nil: "servers [] vid = {}"
  by (simp add: servers_def location_entry_def)

lemma servers_snapshot:
  assumes "list_all (\<lambda>l. vloc_deleted_vids l = []) ls"
  shows "u \<in> servers (fold apply_location ls m) vid \<longleftrightarrow> u \<in> servers m vid \<or> (\<exists>l \<in> set ls. vloc_url l = u \<and> vid \<in> set (vloc_new_vids l))"
  using assms by (induction ls arbitrary: m) (auto simp: servers_apply)

lemma live_kids:
  assumes "tree_ok net" "rooted net"
  shows "live x net \<longleftrightarrow> (\<exists>dc \<in> set (kids net 0). \<exists>rack \<in> set (kids net dc). x \<in> set (kids net rack))"
proof
  assume "live x net"
  then obtain rack dc where c: "nd_parent (net_nodes net x) = Some rack" "nd_parent (net_nodes net rack) = Some dc"
      "nd_parent (net_nodes net dc) = Some 0"
    by (rule live_chain [OF assms])
  have "c \<in> set (kids net p)" if "nd_parent (net_nodes net c) = Some p" for c p
    using linked_data_node(1) [OF assms(1) that] by force
  then show "\<exists>dc \<in> set (kids net 0). \<exists>rack \<in> set (kids net dc). x \<in> set (kids net rack)"
    using c by blast
next
  assume "\<exists>dc \<in> set (kids net 0). \<exists>rack \<in> set (kids net dc). x \<in> set (kids net rack)"
  then obtain dc rack where k: "dc \<in> set (kids net 0)" "rack \<in> set (kids net dc)" "x \<in> set (kids net rack)"
    by blast
  have "nd_parent (net_nodes net c) = Some p" if "c \<in> set (kids net p)" for c p
    using assms(1) that linked_child by (auto simp: tree_ok_def)
  then show "live x net"
    using live_of_chain [OF tree_levels(3) [OF assms k]] k by blast
qed

lemma set_concat_map: "set (concat (map f xs)) = (\<Union>x \<in> set xs. set (f x))"
  by auto

lemma to_volume_locations_eq:
  assumes "tree_ok net" "rooted net"
  shows "set (to_volume_locations net) = {(volume_location_of net x)\<lparr>vloc_new_vids :=
    map (vi_id \<circ> snd) (dn_volumes (net_dns net x)) @ map (evi_volume_id \<circ> snd) (dn_ec_shards (net_dns net x))\<rparr> | x. live x net}"
proof -
  let ?loc = "\<lambda>x. (volume_location_of net x)\<lparr>vloc_new_vids :=
    map (vi_id \<circ> snd) (dn_volumes (net_dns net x)) @ map (evi_volume_id \<circ> snd) (dn_ec_shards (net_dns net x))\<rparr>"
  have "set (to_volume_locations net) = (\<Union>dc \<in> set (kids net 0). \<Union>rack \<in> set (kids net dc). \<Union>x \<in> set (kids net rack). {?loc x})"
    unfolding to_volume_locations_def set_concat_map
    by (intro SUP_cong refl) (simp only: downcast_def tree_levels(3) [OF assms] simp_thms if_True result.case list.set)
  then show ?thesis
    unfolding live_kids [OF assms] by blast
qed


text \<open>
  C23. A client that connects learns where everything is: having read the messages its connection starts with, its
  empty table lists a server for a volume exactly when a data node below the root with this address has the volume,
  or shards of it, on record.
\<close>

theorem client_snapshot:
  assumes "topo_ok t" "keep_connected is_leader name t clients = (Ok (), clients')" "mc_locations c = []"
  shows "\<exists>msgs c'. map_of clients' name = Some msgs \<and> read_stream master (map Ok msgs) c = (Ok [], c') \<and>
    (\<forall>u vid. u \<in> servers (mc_locations c') vid \<longleftrightarrow>
       (\<exists>x. live x (tp_net t) \<and> dn_url (net_dns (tp_net t) x) = u \<and>
          vid \<in> fst ` set (dn_volumes (net_dns (tp_net t) x)) \<union> (evi_volume_id \<circ> snd) ` set (dn_ec_shards (net_dns (tp_net t) x))))"
proof -
  let ?net = "tp_net t" and ?msgs = "to_volume_locations (tp_net t)"
  let ?loc = "\<lambda>x. (volume_location_of ?net x)\<lparr>vloc_new_vids :=
    map (vi_id \<circ> snd) (dn_volumes (net_dns ?net x)) @ map (evi_volume_id \<circ> snd) (dn_ec_shards (net_dns ?net x))\<rparr>"
  have ok: "tree_ok ?net" "rooted ?net"
    using assms(1) by (simp_all add: topo_ok_def)
  note eq = to_volume_locations_eq [OF ok]
  have m: "map_of clients' name = Some ?msgs"
    using assms(2) by (auto simp: keep_connected_def update_conv' split: if_splits)
  have "list_all (\<lambda>l. vloc_leader l = None) ?msgs" and del: "list_all (\<lambda>l. vloc_deleted_vids l = []) ?msgs"
    unfolding list_all_iff eq by (auto simp: volume_location_of_def volume_location_new_def)
  then have r: "read_stream master (map Ok ?msgs) c = (Ok [], c\<lparr>mc_locations := fold apply_location ?msgs []\<rparr>)"
    using read_stream_locations [of ?msgs master c] assms(3) by simp
  have vid: "(vi_id \<circ> snd) ` set (dn_volumes (net_dns ?net x)) = fst ` set (dn_volumes (net_dns ?net x))" if "live x ?net" for x
  proof -
    have "dn_ok ?net x"
      using ok(1) that live_parent [OF that] by (auto simp: tree_ok_def live_def)
    then show ?thesis
      by (intro image_cong refl) (auto simp: dn_ok_def)
  qed
  have "u \<in> servers (fold apply_location ?msgs []) v \<longleftrightarrow>
      (\<exists>x. live x ?net \<and> dn_url (net_dns ?net x) = u \<and>
        v \<in> fst ` set (dn_volumes (net_dns ?net x)) \<union> (evi_volume_id \<circ> snd) ` set (dn_ec_shards (net_dns ?net x)))" for u v
  proof -
    have "u \<in> servers (fold apply_location ?msgs []) v \<longleftrightarrow> (\<exists>x. live x ?net \<and> vloc_url (?loc x) = u \<and> v \<in> set (vloc_new_vids (?loc x)))"
      unfolding servers_snapshot [OF del] eq servers_Nil by blast
    also have "\<dots> \<longleftrightarrow> (\<exists>x. live x ?net \<and> dn_url (net_dns ?net x) = u \<and>
        v \<in> fst ` set (dn_volumes (net_dns ?net x)) \<union> (evi_volume_id \<circ> snd) ` set (dn_ec_shards (net_dns ?net x)))"
      by (intro ex_cong1 conj_cong refl) (simp_all add: volume_location_of_def vid [symmetric] image_comp)
    finally show ?thesis .
  qed
  then show ?thesis
    using m r by (intro exI [of _ ?msgs] exI [of _ "c\<lparr>mc_locations := fold apply_location ?msgs []\<rparr>"] conjI) simp_all
qed

theorem client_snapshot_witness:
  "\<exists>msgs c'. keep_connected True ''client'' demo_topology [] = (Ok (), [(''client'', msgs)]) \<and>
     read_stream [] (map Ok msgs) (master_client_new ''client'' []) = (Ok [], c') \<and>
     dn_url (net_dns demo_net1 3) \<in> servers (mc_locations c') 7"
proof -
  obtain msgs where k: "keep_connected True ''client'' demo_topology [] = (Ok (), [(''client'', msgs)])"
    by (simp add: keep_connected_def)
  have e: "mc_locations (master_client_new ''client'' []) = []"
    by (simp add: master_client_new_def)
  obtain msgs' c' where c: "map_of [(''client'', msgs)] ''client'' = Some msgs'"
      "read_stream [] (map Ok msgs') (master_client_new ''client'' []) = (Ok [], c')"
      "\<forall>u vid. u \<in> servers (mc_locations c') vid \<longleftrightarrow>
       (\<exists>x. live x (tp_net demo_topology) \<and> dn_url (net_dns (tp_net demo_topology) x) = u \<and>
          vid \<in> fst ` set (dn_volumes (net_dns (tp_net demo_topology) x)) \<union>
            (evi_volume_id \<circ> snd) ` set (dn_ec_shards (net_dns (tp_net demo_topology) x)))"
    using client_snapshot [OF demo_topology_ok(1) k e, of "[]"] by (elim exE conjE) (rule that)
  have "dn_url (net_dns demo_net1 3) \<in> servers (mc_locations c') 7"
    unfolding c(3) [rule_format]
    by (rule exI [of _ 3]) (use demo_topology_facts(1) in \<open>simp add: demo_topology_ok(2) demo_net1_facts(4)\<close>)
  then show ?thesis
    using k c(1,2) by (intro exI [of _ msgs] exI [of _ c'] conjI) simp_all
qed

text \<open>A lookup picks a server of the volume.\<close>

lemma lookup_volume_server_url_ok:
  assumes "rng_ok gen"
  shows "fst (lookup_volume_server_url gen r (fmt_dec (unat vid)) m) =
      Err (CVolumeIdNotFound vid) \<and> servers m vid = {} \<or>
    (\<exists>u \<in> servers m vid. fst (lookup_volume_server_url gen r (fmt_dec (unat vid)) m) = Ok u)"
proof -
  have p: "parse_u32 (fmt_dec (unat vid)) = Ok vid"
    using from_str_radix_fmt [of 10 "unat vid" "2 ^ 32"] unat_less_power(3) [of vid] by (simp add: parse_u32_def)
  have "fst (gen r (length ls)) < length ls" if "ls \<noteq> []" for ls :: "client_location list"
    using assms that unfolding rng_ok_def by simp
  then show ?thesis
    by (auto simp: lookup_volume_server_url_def p get_locations_by_vid_def servers_def location_entry_def split: option.split prod.split)
      (metis fst_conv nth_mem)+
qed

end
