(* ===== verification/Spec2Isabelle.thy ===== *)
theory Spec2Isabelle
  imports Volume Sequence EcDecode Client
begin

text \<open>
  A model of helyim, a distributed object store in Rust (\<open>src/helyim/src\<close>), and the theorems that make its
  parts correct. Paths below are relative to that directory.

  The program has two kinds of process. A volume server keeps volumes: a data file of records (needles), an
  index file and, in memory, a map from needle ids to record positions. A sealed volume can be cut into
  fourteen erasure-coded shard files. The master keeps the topology: a tree of data centers, racks and data
  nodes with counters, and per collection, replica placement and time to live a layout that knows where each
  volume lives and which volumes take writes. Volume servers report their volumes and shards to the master;
  clients ask the master for a file id and a place to write it, and write to the volume server.

  \<^bold>\<open>Conventions.\<close> Machine integers are words of their width, so that \<open>+\<close> wraps and casts are \<open>ucast\<close>; the
  node counters, which are \<open>i64\<close> values far from their bounds, are \<open>int\<close>. A fallible operation returns
  \<open>result\<close>, with \<open>Ok\<close>, \<open>Err\<close> for an error value and \<open>Panic\<close> for a Rust panic (an unwrap, an index out of
  range, a division by zero). State the code mutates is passed in and returned, also on the error branches.
  Where a call may not return (a walk up the tree of shared nodes, a dashmap guard taken twice) the value is
  \<open>None\<close>. Locks are elided: each operation runs under the lock the code takes. Randomness is a generator
  passed as an argument, with \<open>rng_ok\<close> (a draw from \<open>0..n\<close> is below \<open>n\<close>) as its only law. Code of other
  crates is a parameter: the checksum, the Reed-Solomon codec (\<open>rs_law\<close>), the snowflake generator, the parser
  of the url crate (\<open>nom_url_ok\<close>), the allocation call of a volume server.

  \<^bold>\<open>Foundations.\<close> \<open>Prelude\<close> has the result type, the big-endian accessors, slices and overwriting of byte
  lists. \<open>Fs\<close> models the files: paths name inodes, an inode has its bytes, a write may fail and then leaves
  the bytes as they were or a prefix written. \<open>Text\<close> prints and parses numbers. \<open>Types\<close>
  (\<open>storage/types.rs\<close>) has offsets, sizes and padding; \<open>Errors\<close> the error enums.

  \<^bold>\<open>The storage engine.\<close>
  \<^item> \<open>Ttl\<close>, \<open>ReplicaPlacement\<close>, \<open>FileId\<close>: the small values with their texts and byte forms; the lemmas are
    round trips and the exact condition for them.
  \<^item> \<open>Needle\<close> (\<open>storage/needle/mod.rs\<close>): the record format. Appending and reading back gives the
    needle with the fields its flags announce; a record's size is a multiple of eight.
  \<^item> \<open>NeedleMap\<close> (\<open>needle_map.rs\<close>, \<open>needle_value_map.rs\<close>, \<open>metric.rs\<close>): the index in memory
    and its file. The locale \<open>needle_value_map\<close> is the contract of a value map; both implementations
    interpret it. Replaying an index file gives the map, the metric counts what the map holds.
  \<^item> \<open>Volume\<close> (\<open>storage/volume/mod.rs\<close>, \<open>checking.rs\<close>): \<open>vol_rel\<close> relates a volume and its files
    to an abstract map from ids to needles, and \<open>write_needle\<close>, \<open>read_needle\<close> and \<open>delete_needle\<close>
    refine update, lookup and removal on it, on every branch. Creating a volume establishes the relation, and a
    scan of a data file visits its records in order.
  \<^item> \<open>Sequence\<close> (\<open>sequence\<close>): the source of needle keys, with the locale \<open>id_source\<close>.

  \<^bold>\<open>Erasure coding.\<close>
  \<^item> \<open>EcLocate\<close> (\<open>locate.rs\<close>): the intervals computed for a byte range cover it in order.
  \<^item> \<open>EcIndex\<close> (\<open>erasure_coding/mod.rs\<close>): the sorted index and its binary search, which finds
    what replaying the index finds.
  \<^item> \<open>EcShards\<close> (\<open>volume_info.rs\<close>, \<open>shard.rs\<close>, \<open>volume.rs\<close>): shard bits, the shards of a
    volume and what a heartbeat says about them.
  \<^item> \<open>EcEncode\<close>, \<open>EcDecode\<close> (\<open>encoder.rs\<close>, \<open>decoder.rs\<close>): the content of the shard files,
    and that decoding them gives back the data file, with the sizes for which it does not.
  The row loops take fuel. The theorems about them assume a bound on the number of rows that fuel must
  exceed and conclude that the result is \<open>Some\<close>; \<open>locate_data\<close> needs one unit per block touched.

  \<^bold>\<open>The topology.\<close>
  \<^item> \<open>TopoNode\<close> (\<open>topology/node.rs\<close>, \<open>data_node.rs\<close>, \<open>rack.rs\<close>, \<open>data_center.rs\<close>): the shared nodes as a
    store from references to records, and every operation on it. A walk to the root ends when the parents do
    not form a cycle; it is a \<open>partial_function\<close>.
  \<^item> \<open>TopoTree\<close>: the invariant \<open>tree_ok\<close> (links go both ways, every inner counter is the sum over the
    children) and that every operation returns and keeps it; \<open>tree_step\<close> is the step relation of connections,
    reports and disconnections.
  \<^item> \<open>TopoLayout\<close> (\<open>volume_layout.rs\<close>), \<open>Topo\<close> (\<open>collection.rs\<close>, \<open>topology.rs\<close>): the layouts with
    \<open>layout_ok\<close>, and \<open>topo_ok\<close> for the whole topology; heartbeats keep it, and a pick for writing
    returns a volume with all its replicas.
  \<^item> \<open>TopoGrow\<close> (\<open>volume_grow.rs\<close>): choosing nodes for a placement; growth creates volumes that are
    placed as asked and writable.
  \<^item> \<open>TopoEc\<close> (\<open>topology/erasure_coding\<close>): where the shards are, as reported.
  \<^item> \<open>UrlParser\<close> (\<open>util/parser.rs\<close>): request paths and file ids.

  \<^bold>\<open>Deviations the theorems prove.\<close> Several theorems state what the code does where it is not what it means
  to do: an index file is truncated on load, offsets wrap at 4 GiB, a deletion is not replayed, shard reports
  are not learned, and others. They are stated as properties because clients of the model must know them.

  \<^bold>\<open>Not modelled.\<close> The raft layer (an adaptor of the openraft crate to in-memory tables), the HTTP and gRPC
  servers and clients of both processes, the store and its directory scans, the compaction of volumes, image
  rotation, command line, channels and connection pools.
\<close>

section \<open>Properties across components\<close>

end
